(* ===== verification/Prelude.thy ===== *)
theory Prelude
  imports Complex_Main "HOL-Library.Word"
begin

text \<open>
  Vocabulary shared by every component of the grlx-rpc development: the machine types of the
  C++ code, error codes and exceptions as values, platform properties the C++ standard leaves
  to the implementation, decimal printing (\<open>std::to_string\<close>), the memory image of 64-bit
  integers, and the generic lemmas the component theories rely on.
\<close>

unbundle bit_operations_syntax

named_theorems wire_simps \<open>equations of the byte-level encodings\<close>
named_theorems inv_intros \<open>preservation facts of the component invariants\<close>

section \<open>Machine types\<close>

type_synonym u8 = "8 word"
type_synonym u32 = "32 word"
type_synonym u64 = "64 word"

text \<open>\<open>grlx::rpc::buffer_type\<close> is \<open>std::vector<char>\<close>; a \<open>char\<close> is one byte.\<close>

type_synonym buffer_type = "u8 list"

text \<open>
  What the C++ standard leaves to the platform and the code depends on: whether a plain
  \<open>char\<close> is signed (x86 against ARM) and the byte order of the host.
\<close>

record platform =
  char_is_signed :: bool
  host_little_endian :: bool

section \<open>Error codes and exceptions\<close>

text \<open>
  The \<open>boost::system::error_code\<close> values the code compares against, and every other code
  as a number. A successful completion (a default-constructed code) is \<open>None\<close>.
\<close>

datatype error_code =
    operation_aborted
  | timed_out
  | eof
  | connection_reset
  | broken_pipe
  | bad_descriptor
  | invalid_argument_ec
  | channel_closed
  | channel_cancelled
  | other_error int

text \<open>
  Exceptions as values. \<open>unknown_exception\<close> is what only a \<open>catch (...)\<close> handler sees:
  an object not derived from \<open>std::exception\<close>.
\<close>

datatype exn =
    runtime_error string
  | system_error error_code string
  | dispatch_denied_error string
  | connection_rejected_error string
  | handshake_timeout_error
  | invalid_argument string
  | cereal_exception string
  | unknown_exception

type_synonym 'a result = "exn + 'a"

definition is_std_exception :: "exn \<Rightarrow> bool" where
  "is_std_exception e \<longleftrightarrow> e \<noteq> unknown_exception"

text \<open>A fallible step that also returns a new state either threw or delivered a value.\<close>

lemma result_pair_cases [case_names Throw Value]:
  obtains e s where "f = (Inl e, s)" | v s where "f = (Inr v, s)"
  by (metis prod.exhaust sum.exhaust)

section \<open>Decimal printing\<close>

text \<open>\<open>std::to_string\<close> on an unsigned value.\<close>

definition digit_char :: "nat \<Rightarrow> char" where
  "digit_char d = char_of (48 + d)"

fun to_string :: "nat \<Rightarrow> string" where
  "to_string n =
     (if n < 10 then [digit_char n] else to_string (n div 10) @ [digit_char (n mod 10)])"

declare to_string.simps [simp del]

text \<open>\<open>std::to_string\<close> on an \<open>int\<close>.\<close>

definition to_string_int :: "int \<Rightarrow> string" where
  "to_string_int z = (if z < 0 then ''-'' else []) @ to_string (nat \<bar>z\<bar>)"

definition is_digit_char :: "char \<Rightarrow> bool" where
  "is_digit_char c \<longleftrightarrow> (of_char c :: nat) \<in> {48..57}"

lemma digit_char_is_digit: "d < 10 \<Longrightarrow> is_digit_char (digit_char d)"
  by (simp add: is_digit_char_def digit_char_def)

lemma to_string_nonempty [simp]: "to_string n \<noteq> []"
  by (subst to_string.simps) simp

lemma to_string_digits: "c \<in> set (to_string n) \<Longrightarrow> is_digit_char c"
proof (induction n rule: to_string.induct)
  case (1 n)
  then show ?case
    by (cases "n < 10") (auto simp: to_string.simps [of n] digit_char_is_digit)
qed

lemma to_string_no_colon: "CHR '':'' \<notin> set (to_string n)"
proof
  assume "CHR '':'' \<in> set (to_string n)"
  then have "is_digit_char (CHR '':'')"
    by (rule to_string_digits)
  then show False
    by (simp add: is_digit_char_def)
qed

section \<open>The memory image of integers\<close>

text \<open>
  \<open>word_bytes_le n w\<close> is the little-endian image of the low \<open>n\<close> bytes of \<open>w\<close>;
  a big-endian host stores the same bytes in the opposite order.
\<close>

fun word_bytes_le :: "nat \<Rightarrow> 'a::len word \<Rightarrow> u8 list" where
  "word_bytes_le 0 w = []"
| "word_bytes_le (Suc n) w = ucast w # word_bytes_le n (drop_bit 8 w)"

fun bytes_word_le :: "u8 list \<Rightarrow> 'a::len word" where
  "bytes_word_le [] = 0"
| "bytes_word_le (b # bs) = ucast b OR push_bit 8 (bytes_word_le bs)"

definition mem_of_word :: "platform \<Rightarrow> nat \<Rightarrow> 'a::len word \<Rightarrow> u8 list" where
  "mem_of_word P n w =
     (if host_little_endian P then word_bytes_le n w else rev (word_bytes_le n w))"

definition word_of_mem :: "platform \<Rightarrow> u8 list \<Rightarrow> 'a::len word" where
  "word_of_mem P bs = bytes_word_le (if host_little_endian P then bs else rev bs)"

lemma length_word_bytes_le [simp, wire_simps]: "length (word_bytes_le n w) = n"
  by (induction n arbitrary: w) auto

lemma length_mem_of_word [simp, wire_simps]: "length (mem_of_word P n w) = n"
  by (simp add: mem_of_word_def)

lemma bytes_word_le_step:
  fixes w :: "'a::len word"
  shows "ucast (ucast w :: u8) OR push_bit 8 (take_bit n (drop_bit 8 w)) = take_bit (8 + n) w"
  by (rule bit_word_eqI)
     (auto simp: bit_or_iff bit_push_bit_iff bit_take_bit_iff bit_drop_bit_eq bit_ucast_iff)

lemma bytes_word_le_inverse: "bytes_word_le (word_bytes_le n w) = take_bit (8 * n) w"
  by (induction n arbitrary: w) (simp_all add: bytes_word_le_step)

lemma word64_bytes_roundtrip [simp, wire_simps]:
  "bytes_word_le (word_bytes_le 8 w) = (w :: u64)"
proof -
  have "take_bit 64 w = w"
    by (rule bit_word_eqI) (simp add: bit_take_bit_iff)
  then show ?thesis
    by (simp add: bytes_word_le_inverse)
qed

lemma word64_mem_roundtrip [simp, wire_simps]:
  "word_of_mem P (mem_of_word P 8 w) = (w :: u64)"
  by (simp add: word_of_mem_def mem_of_word_def)

text \<open>Eight bytes are the image of exactly one 64-bit value: reading is injective too.\<close>

lemma ucast_low_byte:
  fixes w :: u64 and b :: u8
  shows "ucast (ucast b OR push_bit 8 w :: u64) = b"
  by (rule bit_word_eqI) (auto simp: bit_or_iff bit_push_bit_iff bit_ucast_iff)

lemma drop_low_byte:
  fixes w :: u64 and b :: u8
  assumes "take_bit 56 w = w"
  shows "drop_bit 8 (ucast b OR push_bit 8 w :: u64) = w"
proof (rule bit_word_eqI)
  fix n assume "n < LENGTH(64)"
  have "bit w n \<Longrightarrow> n < 56"
    using assms by (metis bit_take_bit_iff)
  then show "bit (drop_bit 8 (ucast b OR push_bit 8 w :: u64)) n = bit w n"
    by (auto simp: bit_or_iff bit_push_bit_iff bit_drop_bit_eq bit_ucast_iff
             dest: bit_imp_le_length)
qed

lemma bytes_word_le_bound: "take_bit (8 * length bs) (bytes_word_le bs :: u64) = bytes_word_le bs"
proof (induction bs)
  case Nil
  then show ?case by simp
next
  case (Cons b bs)
  have IH: "bit (bytes_word_le bs :: u64) n \<Longrightarrow> n < 8 * length bs" for n
    using Cons.IH by (metis bit_take_bit_iff)
  show ?case
    by (rule bit_word_eqI)
       (auto simp: bit_take_bit_iff bit_or_iff bit_push_bit_iff bit_ucast_iff
             dest: IH bit_imp_le_length)
qed

lemma word_bytes_le_of_bytes:
  "length bs \<le> 8 \<Longrightarrow> word_bytes_le (length bs) (bytes_word_le bs :: u64) = bs"
proof (induction bs)
  case Nil
  then show ?case by simp
next
  case (Cons b bs)
  have "8 * length bs \<le> 56"
    using Cons.prems by simp
  then have "take_bit 56 (bytes_word_le bs :: u64) = bytes_word_le bs"
    by (metis bytes_word_le_bound min.absorb2 take_bit_take_bit)
  then have "drop_bit 8 (bytes_word_le (b # bs) :: u64) = bytes_word_le bs"
    by (simp only: bytes_word_le.simps drop_low_byte)
  with Cons show ?case
    by (simp add: ucast_low_byte del: drop_bit_or)
qed

lemma mem_word64_roundtrip:
  assumes "length bs = 8"
  shows "mem_of_word P 8 (word_of_mem P bs :: u64) = bs"
  using word_bytes_le_of_bytes [of bs] word_bytes_le_of_bytes [of "rev bs"] assms
  by (simp add: mem_of_word_def word_of_mem_def)

lemma unat_u64_bound: "unat (w :: u64) < 2 ^ 64"
proof -
  have "unsigned w < (2 ^ LENGTH(64) :: nat)"
    by (rule unsigned_less)
  then show ?thesis
    by simp
qed

section \<open>Lists\<close>

lemma take_append_exact [simp, wire_simps]: "length xs = n \<Longrightarrow> take n (xs @ ys) = xs"
  by simp

lemma drop_append_exact [simp, wire_simps]: "length xs = n \<Longrightarrow> drop n (xs @ ys) = ys"
  by simp

end
