(* ===== verification/Umap.thy ===== *)
theory Umap
  imports Prelude "HOL-Library.AList"
begin

text \<open>
  \<open>std::unordered_map\<close> as the components use it. A map is an association list with distinct
  keys, so that size, iteration and erasure compute; the locale \<open>unordered_map\<close> is the
  interface the components reason with, and it is interpreted on the list operations.
  Iteration order is not specified by the standard: no property may depend on it.
\<close>

type_synonym ('k, 'v) umap = "('k \<times> 'v) list"

definition um_empty :: "('k, 'v) umap" where
  "um_empty = []"

text \<open>\<open>m.find(k)\<close>: \<open>None\<close> is \<open>m.end()\<close>.\<close>

definition um_find :: "('k, 'v) umap \<Rightarrow> 'k \<Rightarrow> 'v option" where
  "um_find m k = map_of m k"

text \<open>\<open>m[k] = v\<close> and \<open>m.insert_or_assign(k, v)\<close>.\<close>

definition um_put :: "'k \<Rightarrow> 'v \<Rightarrow> ('k, 'v) umap \<Rightarrow> ('k, 'v) umap" where
  "um_put k v m = AList.update k v m"

definition um_erase :: "'k \<Rightarrow> ('k, 'v) umap \<Rightarrow> ('k, 'v) umap" where
  "um_erase k m = AList.delete k m"

definition um_size :: "('k, 'v) umap \<Rightarrow> nat" where
  "um_size m = length m"

definition um_ok :: "('k, 'v) umap \<Rightarrow> bool" where
  "um_ok m \<longleftrightarrow> distinct (map fst m)"

locale unordered_map =
  fixes empty :: "'m"
    and find :: "'m \<Rightarrow> 'k \<Rightarrow> 'v option"
    and put :: "'k \<Rightarrow> 'v \<Rightarrow> 'm \<Rightarrow> 'm"
    and erase :: "'k \<Rightarrow> 'm \<Rightarrow> 'm"
    and size :: "'m \<Rightarrow> nat"
    and ok :: "'m \<Rightarrow> bool"
  assumes find_empty: "find empty k = None"
    and find_put: "find (put k v m) k' = (if k' = k then Some v else find m k')"
    and find_erase: "ok m \<Longrightarrow> find (erase k m) k' = (if k' = k then None else find m k')"
    and size_card: "ok m \<Longrightarrow> size m = card (dom (find m))"
    and finite_keys: "finite (dom (find m))"
    and ok_empty: "ok empty"
    and ok_put: "ok m \<Longrightarrow> ok (put k v m)"
    and ok_erase: "ok m \<Longrightarrow> ok (erase k m)"
begin

lemma dom_put: "dom (find (put k v m)) = insert k (dom (find m))"
  by (auto simp: dom_def find_put)

lemma dom_erase: "ok m \<Longrightarrow> dom (find (erase k m)) = dom (find m) - {k}"
  by (auto simp: dom_def find_erase)

lemma size_empty: "size empty = 0"
  by (simp add: size_card ok_empty dom_def find_empty)

lemma size_put_fresh: "ok m \<Longrightarrow> find m k = None \<Longrightarrow> size (put k v m) = Suc (size m)"
  by (simp add: size_card ok_put dom_put finite_keys domIff)

lemma size_put_present: "ok m \<Longrightarrow> find m k = Some w \<Longrightarrow> size (put k v m) = size m"
proof -
  assume "ok m" and "find m k = Some w"
  moreover from this have "insert k (dom (find m)) = dom (find m)"
    by auto
  ultimately show ?thesis
    by (simp add: size_card ok_put dom_put)
qed

lemma size_erase_present: "ok m \<Longrightarrow> find m k = Some w \<Longrightarrow> Suc (size (erase k m)) = size m"
proof -
  assume ok: "ok m" and k: "find m k = Some w"
  from k have "k \<in> dom (find m)"
    by auto
  with ok show ?thesis
    by (metis card_Suc_Diff1 dom_erase finite_keys ok_erase size_card)
qed

lemma size_erase_absent: "ok m \<Longrightarrow> find m k = None \<Longrightarrow> size (erase k m) = size m"
  by (simp add: size_card ok_erase dom_erase domIff)

lemma size_zero_iff: "ok m \<Longrightarrow> size m = 0 \<longleftrightarrow> (\<forall>k. find m k = None)"
  using finite_keys [of m] by (auto simp: size_card dom_def)

end

lemma um_find_put [simp]: "um_find (um_put k v m) k' = (if k' = k then Some v else um_find m k')"
  by (simp add: um_find_def um_put_def update_conv')

lemma um_find_erase [simp]: "um_find (um_erase k m) k' = (if k' = k then None else um_find m k')"
  by (simp add: um_find_def um_erase_def delete_conv')

lemma um_find_empty [simp]: "um_find um_empty k = None"
  by (simp add: um_find_def um_empty_def)

lemma um_ok_empty [simp, intro]: "um_ok um_empty"
  by (simp add: um_ok_def um_empty_def)

lemma um_ok_put [simp, intro, inv_intros]: "um_ok m \<Longrightarrow> um_ok (um_put k v m)"
  by (simp add: um_ok_def um_put_def distinct_update)

lemma um_ok_erase [simp, intro, inv_intros]: "um_ok m \<Longrightarrow> um_ok (um_erase k m)"
  by (simp add: um_ok_def um_erase_def distinct_delete)

lemma finite_dom_um_find: "finite (dom (um_find m))"
  by (simp add: um_find_def [abs_def] finite_dom_map_of)

lemma um_size_card: "um_ok m \<Longrightarrow> um_size m = card (dom (um_find m))"
  using distinct_card [of "map fst m"]
  by (simp add: um_ok_def um_size_def um_find_def [abs_def] dom_map_of_conv_image_fst)

interpretation um: unordered_map um_empty um_find um_put um_erase um_size um_ok
  by unfold_locales (auto simp: um_size_card finite_dom_um_find)

lemma um_find_in_set: "um_ok m \<Longrightarrow> um_find m k = Some v \<longleftrightarrow> (k, v) \<in> set m"
  by (simp add: um_find_def um_ok_def)

end
