(* ===== verification/String_Hash.thy ===== *)
theory String_Hash
  imports Prelude
begin

text \<open>
  \<open>string_hash.hpp\<close>: FNV-1a hashing of method names. A method is addressed on the wire by the
  64-bit hash of its name, so the hash of a literal, of a \<open>std::string\<close> and of a C string
  must agree, on both ends of the connection. \<open>hash_impl\<close> walks a counted byte range,
  \<open>str_hash_impl\<close> a NUL-terminated one (\<open>None\<close> is a read past the end of the memory).
\<close>

section \<open>Definitions\<close>

text \<open>\<open>static_cast<H>(c)\<close> for a plain \<open>char\<close>: sign- or zero-extension, by platform.\<close>

definition char_cast :: "platform \<Rightarrow> u8 \<Rightarrow> 'h::len word" where
  "char_cast P c = (if char_is_signed P then scast c else ucast c)"

definition fnv_basis32 :: u32 where "fnv_basis32 = 2166136261"
definition fnv_prime32 :: u32 where "fnv_prime32 = 16777619"
definition fnv_basis64 :: u64 where "fnv_basis64 = 14695981039346656037"
definition fnv_prime64 :: u64 where "fnv_prime64 = 1099511628211"

fun hash_impl :: "platform \<Rightarrow> 'h::len word \<Rightarrow> u8 list \<Rightarrow> 'h word \<Rightarrow> 'h word" where
  "hash_impl P prime [] v = v"
| "hash_impl P prime (c # cs) v = hash_impl P prime cs ((v XOR char_cast P c) * prime)"

fun str_hash_impl :: "platform \<Rightarrow> 'h::len word \<Rightarrow> u8 list \<Rightarrow> 'h word \<Rightarrow> 'h word option" where
  "str_hash_impl P prime [] v = None"
| "str_hash_impl P prime (c # mem) v =
     (if c = 0 then Some v
      else str_hash_impl P prime mem ((v XOR char_cast P c) * prime))"

text \<open>\<open>fnv_hash::hash\<close> and \<open>fnv_hash::string_hash\<close>: a null pointer (\<open>None\<close>) hashes to 0.\<close>

definition fnv_hash :: "platform \<Rightarrow> 'h::len word \<Rightarrow> 'h word \<Rightarrow> u8 list option \<Rightarrow> 'h word" where
  "fnv_hash P prime basis p = (case p of None \<Rightarrow> 0 | Some bs \<Rightarrow> hash_impl P prime bs basis)"

definition fnv_string_hash ::
    "platform \<Rightarrow> 'h::len word \<Rightarrow> 'h word \<Rightarrow> u8 list option \<Rightarrow> 'h word option" where
  "fnv_string_hash P prime basis str =
     (case str of None \<Rightarrow> Some 0 | Some mem \<Rightarrow> str_hash_impl P prime mem basis)"

definition string_bytes :: "string \<Rightarrow> u8 list" where
  "string_bytes s = map of_char s"

text \<open>The \<open>string_hash\<close> constructors from a \<open>std::string\<close>, a literal and a C string.\<close>

definition shash64 :: "platform \<Rightarrow> string \<Rightarrow> u64" where
  "shash64 P s = fnv_hash P fnv_prime64 fnv_basis64 (Some (string_bytes s))"

definition shash32 :: "platform \<Rightarrow> string \<Rightarrow> u32" where
  "shash32 P s = fnv_hash P fnv_prime32 fnv_basis32 (Some (string_bytes s))"

text \<open>\<open>string_hash(const char (&s)[N])\<close>: the array has \<open>N\<close> elements, the last is the NUL.\<close>

definition shash64_literal :: "platform \<Rightarrow> u8 list \<Rightarrow> u64" where
  "shash64_literal P arr =
     fnv_hash P fnv_prime64 fnv_basis64 (Some (take (length arr - 1) arr))"

definition shash64_cstr :: "platform \<Rightarrow> u8 list option \<Rightarrow> u64 option" where
  "shash64_cstr P str = fnv_string_hash P fnv_prime64 fnv_basis64 str"

definition shash_is_valid :: "'h::len word \<Rightarrow> bool" where
  "shash_is_valid v \<longleftrightarrow> v \<noteq> 0"

text \<open>
  The class \<open>string_hash\<close> around such a value, with its comparison operators and its
  \<open>std::hash\<close>; a \<open>size_t\<close> has 64 bits. The literal operators take the
  characters of the literal without its terminator.
\<close>

datatype 'h string_hash = StringHash (m_value: 'h)

definition sh_eq :: "'h string_hash \<Rightarrow> 'h string_hash \<Rightarrow> bool" where
  "sh_eq lhs rhs \<longleftrightarrow> m_value lhs = m_value rhs"

definition sh_neq :: "'h string_hash \<Rightarrow> 'h string_hash \<Rightarrow> bool" where
  "sh_neq lhs rhs \<longleftrightarrow> m_value lhs \<noteq> m_value rhs"

definition sh_gt :: "'h::linorder string_hash \<Rightarrow> 'h string_hash \<Rightarrow> bool" where
  "sh_gt lhs rhs \<longleftrightarrow> m_value lhs > m_value rhs"

definition sh_lt :: "'h::linorder string_hash \<Rightarrow> 'h string_hash \<Rightarrow> bool" where
  "sh_lt lhs rhs \<longleftrightarrow> m_value lhs < m_value rhs"

definition make_string_hash :: "platform \<Rightarrow> 'h::len word \<Rightarrow> 'h word \<Rightarrow> u8 list option \<Rightarrow> 'h word string_hash" where
  "make_string_hash P prime basis str = StringHash (fnv_hash P prime basis str)"

definition sh32 :: "platform \<Rightarrow> u8 list \<Rightarrow> u32 string_hash" where
  "sh32 P str = StringHash (fnv_hash P fnv_prime32 fnv_basis32 (Some str))"

definition sh64 :: "platform \<Rightarrow> u8 list \<Rightarrow> u64 string_hash" where
  "sh64 P str = StringHash (fnv_hash P fnv_prime64 fnv_basis64 (Some str))"

definition std_hash :: "'h::len word string_hash \<Rightarrow> u64" where
  "std_hash sh = ucast (m_value sh)"

text \<open>The operators make the class a linear order.\<close>

instantiation string_hash :: (linorder) linorder
begin

definition less_eq_string_hash :: "'a string_hash \<Rightarrow> 'a string_hash \<Rightarrow> bool" where
  "lhs \<le> rhs \<longleftrightarrow> \<not> sh_gt lhs rhs"

definition less_string_hash :: "'a string_hash \<Rightarrow> 'a string_hash \<Rightarrow> bool" where
  "lhs < rhs \<longleftrightarrow> sh_lt lhs rhs"

instance
  by standard (auto simp: less_eq_string_hash_def less_string_hash_def sh_gt_def sh_lt_def intro: string_hash.expand)

end

lemma sh_eq_iff: "sh_eq a b \<longleftrightarrow> a = b" "sh_neq a b \<longleftrightarrow> a \<noteq> b"
  by (auto simp: sh_eq_def sh_neq_def intro: string_hash.expand)

section \<open>Composition\<close>

lemma hash_impl_append:
  "hash_impl P prime (xs @ ys) v = hash_impl P prime ys (hash_impl P prime xs v)"
  by (induction xs arbitrary: v) auto

lemma str_hash_impl_terminated:
  "0 \<notin> set cs \<Longrightarrow> str_hash_impl P prime (cs @ 0 # junk) v = Some (hash_impl P prime cs v)"
  by (induction cs arbitrary: v) auto

text \<open>
  C38: The ways to name a method agree: hashing the C string, the literal array and the
  \<open>std::string\<close> of the same NUL-free name gives one and the same call id, whatever follows the
  terminator in memory, and the literal operator wraps that id.
\<close>

theorem shash64_constructors_agree:
  assumes "0 \<notin> set (string_bytes s)"
  shows "shash64_cstr P (Some (string_bytes s @ 0 # junk)) = Some (shash64 P s)
    \<and> shash64_literal P (string_bytes s @ [0]) = shash64 P s
    \<and> sh64 P (string_bytes s) = StringHash (shash64 P s)"
  using assms
  by (simp add: sh64_def shash64_cstr_def fnv_string_hash_def str_hash_impl_terminated shash64_def
      fnv_hash_def shash64_literal_def)

theorem shash64_constructors_agree_witness:
  "shash64_cstr \<lparr>char_is_signed = True, host_little_endian = True\<rparr>
     (Some (string_bytes ''tick'' @ 0 # [7, 7])) =
   Some (shash64 \<lparr>char_is_signed = True, host_little_endian = True\<rparr> ''tick'')"
  using shash64_constructors_agree [of "''tick''" "\<lparr>char_is_signed = True, host_little_endian = True\<rparr>" "[7, 7]"]
  by (simp add: string_bytes_def)

text \<open>
  As a key of a hash table a \<open>shash64\<close> is its own hash: equal keys have equal hashes, and different
  keys never meet in one.
\<close>

lemma std_hash_separates: "std_hash (a :: u64 string_hash) = std_hash b \<longleftrightarrow> sh_eq a b"
  by (auto simp: sh_eq_iff std_hash_def intro: string_hash.expand)

lemma std_hash_separates32: "std_hash (a :: u32 string_hash) = std_hash b \<longleftrightarrow> sh_eq a b"
  unfolding sh_eq_iff
proof
  have "(ucast (ucast x :: u64) :: u32) = x" for x :: u32
    by (rule bit_word_eqI) (simp add: bit_unsigned_iff)
  moreover assume "std_hash a = std_hash b"
  ultimately show "a = b"
    by (metis std_hash_def string_hash.expand)
qed simp

section \<open>Collisions\<close>

text \<open>
  The FNV primes are odd, so multiplication by them is invertible modulo the word size and one
  hashing step loses nothing of the accumulated value.
\<close>

definition fnv_prime64_inverse :: u64 where
  "fnv_prime64_inverse = 14886173955864302971"

lemma fnv_prime64_invertible: "fnv_prime64 * fnv_prime64_inverse = 1"
  by (simp add: fnv_prime64_def fnv_prime64_inverse_def)

lemma mult_invertible_inj:
  fixes x y p q :: "'h::len word"
  assumes "p * q = 1" and "x * p = y * p"
  shows "x = y"
proof -
  have "x * (p * q) = y * (p * q)"
    using assms(2) by (metis mult.assoc)
  with assms(1) show ?thesis
    by simp
qed

lemma xor_cancel_right:
  fixes x y z :: "'h::len word"
  shows "x XOR z = y XOR z \<longleftrightarrow> x = y"
  by (metis xor.right_neutral bit.xor_self xor.assoc)

lemma xor_cancel_left:
  fixes x y z :: "'h::len word"
  shows "z XOR x = z XOR y \<longleftrightarrow> x = y"
  by (simp only: xor.commute [of z] xor_cancel_right)

lemma ucast_char_cast: "ucast (char_cast P c :: u64) = c"
proof (rule bit_word_eqI)
  fix n assume "n < LENGTH(8)"
  then show "bit (ucast (char_cast P c :: u64) :: u8) n = bit c n"
    by (cases "n = 7") (auto simp: char_cast_def bit_unsigned_iff bit_signed_iff min_def)
qed

lemma char_cast_inj: "(char_cast P c :: u64) = char_cast P d \<longleftrightarrow> c = d"
  by (metis ucast_char_cast)

lemma of_char_u8_inj: "(of_char c :: u8) = of_char d \<longleftrightarrow> c = d"
proof
  have unat: "unat (of_char x :: u8) = of_char x" for x
  proof -
    have "(of_char x :: u8) = of_nat (of_char x)"
      by (simp only: of_nat_of_char)
    moreover have "(of_char x :: nat) < 256"
      by (rule nat_of_char_less_256)
    ultimately show ?thesis
      by (simp add: unat_of_nat)
  qed
  assume "(of_char c :: u8) = of_char d"
  then have "(of_char c :: nat) = of_char d"
    by (metis unat)
  then show "c = d"
    by simp
qed simp

lemma hash_impl_inj_basis:
  assumes "prime * iprime = 1"
  shows "hash_impl P prime cs v = hash_impl P prime cs w \<longleftrightarrow> v = w"
proof (induction cs arbitrary: v w)
  case Nil
  then show ?case by simp
next
  case (Cons c cs)
  have "(v XOR char_cast P c) * prime = (w XOR char_cast P c) * prime \<longleftrightarrow> v = w"
    using mult_invertible_inj [OF assms] xor_cancel_right by metis
  with Cons show ?case
    by simp
qed

text \<open>
  Two method names of equal length that differ in exactly one character never share a call
  id: after the common prefix the states differ, and the common suffix cannot merge them again.
\<close>

theorem shash64_single_char_no_collision:
  assumes "c \<noteq> d"
  shows "shash64 P (pre @ c # suf) \<noteq> shash64 P (pre @ d # suf)"
proof -
  let ?v = "hash_impl P fnv_prime64 (string_bytes pre) fnv_basis64"
  have "(of_char c :: u8) \<noteq> of_char d"
    using assms by (simp add: of_char_u8_inj)
  then have "?v XOR char_cast P (of_char c) \<noteq> ?v XOR char_cast P (of_char d)"
    by (simp only: xor_cancel_left char_cast_inj not_False_eq_True)
  then have "(?v XOR char_cast P (of_char c)) * fnv_prime64 \<noteq> (?v XOR char_cast P (of_char d)) * fnv_prime64"
    by (auto dest: mult_invertible_inj [OF fnv_prime64_invertible])
  then show ?thesis
    by (simp add: shash64_def fnv_hash_def string_bytes_def hash_impl_append
        hash_impl_inj_basis [OF fnv_prime64_invertible])
qed

theorem shash64_single_char_no_collision_witness:
  "shash64 \<lparr>char_is_signed = True, host_little_endian = True\<rparr> ''get_a''
     \<noteq> shash64 \<lparr>char_is_signed = True, host_little_endian = True\<rparr> ''get_b''"
  using shash64_single_char_no_collision [of "CHR ''a''" "CHR ''b''" _ "''get_''" "[]"]
  by simp

section \<open>Platforms\<close>

text \<open>Sign extension changes nothing below 128.\<close>

lemma char_cast_ascii:
  assumes "\<not> bit c 7"
  shows "(char_cast P c :: u64) = ucast c"
proof -
  have high: "\<not> bit c n" if "7 \<le> n" for n
    using assms that bit_imp_le_length [of c n] by (cases "n = 7") auto
  then have "(scast c :: u64) = ucast c"
    by (intro bit_word_eqI) (auto simp: bit_signed_iff bit_unsigned_iff min_def)
  then show ?thesis
    by (simp add: char_cast_def)
qed

lemma hash_impl_ascii:
  "\<forall>c \<in> set cs. \<not> bit c 7 \<Longrightarrow> hash_impl P prime cs v = hash_impl P' prime cs (v :: u64)"
  by (induction cs arbitrary: v) (auto simp: char_cast_ascii)

text \<open>
  An ASCII method name has the same call id on every platform, so peers whose plain
  \<open>char\<close> is signed (x86) and peers whose \<open>char\<close> is unsigned (ARM) address the same
  method.
\<close>

theorem shash64_ascii_platform_independent:
  assumes "\<forall>c \<in> set (string_bytes s). \<not> bit c 7"
  shows "shash64 P s = shash64 P' s"
  using assms by (simp add: shash64_def fnv_hash_def hash_impl_ascii)

theorem shash64_ascii_platform_independent_witness:
  "shash64 \<lparr>char_is_signed = True, host_little_endian = True\<rparr> ''add'' =
   shash64 \<lparr>char_is_signed = False, host_little_endian = True\<rparr> ''add''"
  by (rule shash64_ascii_platform_independent)
     (simp add: string_bytes_def bit_iff_odd)

text \<open>
  For a name with a byte above 127 (here the UTF-8 bytes of an accented letter) the call id
  depends on the signedness of \<open>char\<close>: two platforms disagree about which method is meant.
\<close>

theorem shash64_non_ascii_platform_dependent:
  "shash64 \<lparr>char_is_signed = True, host_little_endian = e\<rparr> [CHR 0xC3, CHR 0xA9]
     \<noteq> shash64 \<lparr>char_is_signed = False, host_little_endian = e'\<rparr> [CHR 0xC3, CHR 0xA9]"
  by (simp add: shash64_def fnv_hash_def string_bytes_def char_cast_def fnv_basis64_def
      fnv_prime64_def)

end
