(* ===== verification/Security.thy ===== *)
theory Security
  imports Prelude
begin

text \<open>
  \<open>security.hpp\<close>: the token-bucket rate limiter, the limits and TLS knobs, the identity a
  request carries (\<open>client_context\<close>), method visibility, the result of the authorisation
  callback, and the thread-local pointer to the context of the running call.

  A \<open>double\<close> is a real number here: rounding and NaN are outside the model. A
  \<open>steady_clock::time_point\<close> is its tick count in nanoseconds; the count 0 is the
  default-constructed value the code uses as "never refilled".
\<close>

section \<open>Token bucket\<close>

record token_bucket =
  capacity :: real
  refill_per_sec :: real
  tokens :: real
  last_refill :: int

definition default_token_bucket :: token_bucket where
  "default_token_bucket = \<lparr>capacity = 0, refill_per_sec = 0, tokens = 0, last_refill = 0\<rparr>"

definition seconds_between :: "int \<Rightarrow> int \<Rightarrow> real" where
  "seconds_between t0 t1 = of_int (t1 - t0) / 1000000000"

definition refill :: "int \<Rightarrow> token_bucket \<Rightarrow> token_bucket" where
  "refill now b =
     (if last_refill b = 0 then b\<lparr>last_refill := now, tokens := capacity b\<rparr>
      else b\<lparr>tokens := min (capacity b)
                 (tokens b + seconds_between (last_refill b) now * refill_per_sec b),
             last_refill := now\<rparr>)"

definition try_take :: "real \<Rightarrow> int \<Rightarrow> token_bucket \<Rightarrow> bool \<times> token_bucket" where
  "try_take cost now b =
     (let b' = refill now b in
      if capacity b' \<le> 0 then (True, b')
      else if tokens b' \<ge> cost then (True, b'\<lparr>tokens := tokens b' - cost\<rparr>)
      else (False, b'))"

text \<open>A run of calls at the given clock readings: how many were granted, and the bucket left.\<close>

fun grants :: "(int \<Rightarrow> 'b \<Rightarrow> bool \<times> 'b) \<Rightarrow> int list \<Rightarrow> 'b \<Rightarrow> nat \<times> 'b" where
  "grants acquire [] b = (0, b)"
| "grants acquire (t # ts) b =
     (let (ok, b') = acquire t b; (n, b'') = grants acquire ts b'
      in ((if ok then Suc n else n), b''))"

section \<open>Limits and identities\<close>

record session_limits =
  max_message_bytes :: u64
  idle_timeout :: int
  message_read_timeout :: int
  request_burst :: real
  request_rate_ps :: real

text \<open>Timeouts are in milliseconds.\<close>

definition default_session_limits :: session_limits where
  "default_session_limits =
     \<lparr>max_message_bytes = push_bit 20 8, idle_timeout = 5 * 60 * 1000,
      message_read_timeout = 60 * 1000, request_burst = 200, request_rate_ps = 1000\<rparr>"

record tls_config =
  require_client_cert :: bool
  verify_server_cert :: bool
  tls13_only :: bool

definition default_tls_config :: tls_config where
  "default_tls_config =
     \<lparr>require_client_cert = True, verify_server_cert = True, tls13_only = True\<rparr>"

record session_info =
  info_peer_fingerprint :: string
  info_peer_address :: string
  session_token :: nat

text \<open>
  The data members of \<open>client_context\<close>. Its three setter callbacks are bound to the calling
  session; a handler's use of them is a list of \<open>ctx_action\<close>s the session then carries out.
\<close>

record client_context =
  ctx_peer_fingerprint :: string
  ctx_peer_address :: string
  ctx_peer_ip :: string
  ctx_logical_session_id :: string
  ctx_logical_device_id :: string
  ctx_logical_role :: int

datatype ctx_action =
    set_logical_session_id string
  | set_logical_device_id string
  | set_logical_role int

datatype visibility = public | authenticated | admin

record auth_result =
  allow :: bool
  is_admin :: bool
  deny_reason :: string

text \<open>
  The application's authorisation callback; \<open>'app\<close> is the application's own state. It is a
  \<open>std::function\<close> of the application, so it may throw instead of giving a verdict.
\<close>

type_synonym 'app auth_callback = "client_context \<Rightarrow> string \<Rightarrow> 'app \<Rightarrow> auth_result result \<times> 'app"

record server_limits =
  max_concurrent_sessions :: nat
  max_sessions_per_ip :: nat
  accept_burst_per_ip :: real
  accept_refill_per_ip_per_s :: real
  max_concurrent_handshakes :: nat

definition default_server_limits :: server_limits where
  "default_server_limits =
     \<lparr>max_concurrent_sessions = 1000, max_sessions_per_ip = 8, accept_burst_per_ip = 20,
      accept_refill_per_ip_per_s = 1, max_concurrent_handshakes = 256\<rparr>"

section \<open>The thread-local call context\<close>

text \<open>
  \<open>detail::current_ctx\<close> is one pointer per thread: a map from threads to the identity of the
  context object it points to. Constructing a \<open>current_call_context_scope\<close> saves the pointer
  of the constructing thread and replaces it; the destructor, on whatever thread it runs, stores
  the saved pointer back.
\<close>

type_synonym ctx_threads = "nat \<Rightarrow> nat option"

definition current_call_context :: "nat \<Rightarrow> ctx_threads \<Rightarrow> nat option" where
  "current_call_context thr cur = cur thr"

definition scope_enter :: "nat \<Rightarrow> nat \<Rightarrow> ctx_threads \<Rightarrow> nat option \<times> ctx_threads" where
  "scope_enter thr ctx cur = (cur thr, cur(thr := Some ctx))"

definition scope_exit :: "nat \<Rightarrow> nat option \<Rightarrow> ctx_threads \<Rightarrow> ctx_threads" where
  "scope_exit thr prev cur = cur(thr := prev)"

section \<open>The rate limiter interface\<close>

text \<open>
  What a session (request rate) and the server (accept rate) rely on: a acquire at a later clock
  reading pays for itself from the level and from what the elapsed time refilled.
\<close>

locale rate_limiter =
  fixes acquire :: "int \<Rightarrow> 'b \<Rightarrow> bool \<times> 'b"
    and level :: "'b \<Rightarrow> real"
    and clock :: "'b \<Rightarrow> int"
    and rate :: "'b \<Rightarrow> real"
    and ok :: "'b \<Rightarrow> bool"
  assumes ok_take: "ok b \<Longrightarrow> clock b \<le> now \<Longrightarrow> ok (snd (acquire now b))"
    and clock_take: "ok b \<Longrightarrow> clock b \<le> now \<Longrightarrow> clock (snd (acquire now b)) = now"
    and rate_take: "rate (snd (acquire now b)) = rate b"
    and level_take: "ok b \<Longrightarrow> clock b \<le> now \<Longrightarrow>
      level (snd (acquire now b)) + (if fst (acquire now b) then 1 else 0)
        \<le> level b + seconds_between (clock b) now * rate b"
    and level_nonneg: "ok b \<Longrightarrow> 0 \<le> level b"
begin

lemma grants_bounded:
  assumes "ok b" and "sorted (clock b # ts)"
  shows "level (snd (grants acquire ts b)) + real (fst (grants acquire ts b))
    \<le> level b + seconds_between (clock b) (last (clock b # ts)) * rate b"
  using assms
proof (induction ts arbitrary: b)
  case Nil
  then show ?case by (simp add: seconds_between_def)
next
  case (Cons t ts)
  let ?b = "snd (acquire t b)"
  have t: "clock b \<le> t"
    using Cons.prems by simp
  have b: "ok ?b" "clock ?b = t" "rate ?b = rate b"
    using Cons.prems t by (simp_all add: ok_take clock_take rate_take)
  have step: "level ?b + (if fst (acquire t b) then 1 else 0)
      \<le> level b + seconds_between (clock b) t * rate b"
    using Cons.prems t by (intro level_take) simp_all
  have rest: "level (snd (grants acquire ts ?b)) + real (fst (grants acquire ts ?b))
      \<le> level ?b + seconds_between t (last (t # ts)) * rate b"
    using Cons.IH [of ?b] Cons.prems b by simp
  have time: "seconds_between (clock b) t * rate b + seconds_between t (last (t # ts)) * rate b
      = seconds_between (clock b) (last (clock b # t # ts)) * rate b"
    by (simp add: seconds_between_def field_simps)
  have eq: "grants acquire (t # ts) b =
      ((if fst (acquire t b) then Suc (fst (grants acquire ts ?b)) else fst (grants acquire ts ?b)),
       snd (grants acquire ts ?b))"
    by (simp add: case_prod_beta Let_def)
  show ?case
    using step rest time unfolding eq by (cases "fst (acquire t b)") simp_all
qed

lemma grants_rate_bound:
  assumes "ok b" and "sorted (clock b # ts)"
  shows "real (fst (grants acquire ts b))
    \<le> level b + seconds_between (clock b) (last (clock b # ts)) * rate b"
proof -
  have "ok (snd (grants acquire ts b))"
    using assms
  proof (induction ts arbitrary: b)
    case Nil
    then show ?case by simp
  next
    case (Cons t ts)
    have "clock b \<le> t"
      using Cons.prems by simp
    then have "ok (snd (acquire t b))" and "clock (snd (acquire t b)) = t"
      using Cons.prems by (simp_all add: ok_take clock_take)
    then have "ok (snd (grants acquire ts (snd (acquire t b))))"
      using Cons.prems by (intro Cons.IH) simp_all
    then show ?case
      by (simp add: case_prod_beta Let_def)
  qed
  then have "0 \<le> level (snd (grants acquire ts b))"
    by (rule level_nonneg)
  with grants_bounded [OF assms] show ?thesis
    by linarith
qed

end
section \<open>The token bucket is a rate limiter\<close>

definition bucket_ok :: "token_bucket \<Rightarrow> bool" where
  "bucket_ok b \<longleftrightarrow> 0 < capacity b \<and> 0 \<le> refill_per_sec b \<and> 0 \<le> tokens b
     \<and> tokens b \<le> capacity b \<and> 0 < last_refill b"

lemma bucket_ok_tokens: "bucket_ok b \<Longrightarrow> 0 \<le> tokens b"
  by (simp add: bucket_ok_def)

lemma seconds_between_nonneg: "t0 \<le> t1 \<Longrightarrow> 0 \<le> seconds_between t0 t1"
  by (simp add: seconds_between_def)

lemma refill_simps [simp]:
  "capacity (refill now b) = capacity b"
  "refill_per_sec (refill now b) = refill_per_sec b"
  "last_refill (refill now b) = now"
  by (simp_all add: refill_def)

lemma try_take_simps [simp]:
  "capacity (snd (try_take c now b)) = capacity b"
  "refill_per_sec (snd (try_take c now b)) = refill_per_sec b"
  "last_refill (snd (try_take c now b)) = now"
  by (simp_all add: try_take_def Let_def)

lemma refill_ok:
  assumes "bucket_ok b" and "last_refill b \<le> now"
  shows "bucket_ok (refill now b)"
    and "tokens b \<le> tokens (refill now b)"
    and "tokens (refill now b) \<le> tokens b + seconds_between (last_refill b) now * refill_per_sec b"
proof -
  have "0 \<le> seconds_between (last_refill b) now * refill_per_sec b"
    using assms by (simp add: bucket_ok_def seconds_between_nonneg)
  moreover have "last_refill b \<noteq> 0" "0 < now"
    using assms by (auto simp: bucket_ok_def)
  ultimately show "bucket_ok (refill now b)"
    and "tokens b \<le> tokens (refill now b)"
    and "tokens (refill now b) \<le> tokens b + seconds_between (last_refill b) now * refill_per_sec b"
    using assms(1) by (simp_all add: refill_def bucket_ok_def min_def)
qed

lemma try_take_ok [inv_intros]:
  assumes "bucket_ok b" and "last_refill b \<le> now"
  shows "bucket_ok (snd (try_take 1 now b))"
  using refill_ok(1) [OF assms] by (auto simp: try_take_def Let_def bucket_ok_def)

lemma try_take_pays:
  assumes "bucket_ok b" and "last_refill b \<le> now"
  shows "tokens (snd (try_take 1 now b)) + (if fst (try_take 1 now b) then 1 else 0)
    = tokens (refill now b)"
  using refill_ok(1) [OF assms] by (simp add: try_take_def Let_def bucket_ok_def)

interpretation tb: rate_limiter "try_take 1" tokens last_refill refill_per_sec bucket_ok
proof unfold_locales
  fix b now assume "bucket_ok b" "last_refill b \<le> now"
  then show "tokens (snd (try_take 1 now b)) + (if fst (try_take 1 now b) then 1 else 0)
      \<le> tokens b + seconds_between (last_refill b) now * refill_per_sec b"
    using try_take_pays refill_ok(3) by metis
qed (auto intro: try_take_ok bucket_ok_tokens)

lemma grants_Cons:
  "fst (grants f (t # ts) b) = (if fst (f t b) then 1 else 0) + fst (grants f ts (snd (f t b)))"
  "snd (grants f (t # ts) b) = snd (grants f ts (snd (f t b)))"
  by (simp_all add: case_prod_beta Let_def)

lemma fresh_refill:
  assumes "last_refill b = 0" and "0 < capacity b" and "0 \<le> refill_per_sec b" and "0 < now"
  shows "bucket_ok (refill now b)" and "tokens (refill now b) = capacity b"
  using assms by (simp_all add: refill_def bucket_ok_def)

lemma fresh_take:
  assumes "last_refill b = 0" and "1 \<le> capacity b" and "0 \<le> refill_per_sec b" and "0 < now"
  shows "fst (try_take 1 now b)"
    and "bucket_ok (snd (try_take 1 now b))"
    and "tokens (snd (try_take 1 now b)) = capacity b - 1"
  using assms by (simp_all add: try_take_def Let_def refill_def bucket_ok_def)

lemma fresh_bucket_bound:
  assumes fresh: "last_refill b = 0" and cap: "0 < capacity b" and rate: "0 \<le> refill_per_sec b"
    and t0: "0 < t0" and ts: "sorted (t0 # ts)"
  shows "real (fst (grants (try_take 1) (t0 # ts) b))
    \<le> capacity b + seconds_between t0 (last (t0 # ts)) * refill_per_sec b"
proof -
  let ?b = "snd (try_take 1 t0 b)"
  have r: "bucket_ok (refill t0 b)" "tokens (refill t0 b) = capacity b"
    using fresh_refill [OF fresh cap rate t0] by simp_all
  then have ok: "bucket_ok ?b"
    and pay: "tokens ?b + (if fst (try_take 1 t0 b) then 1 else 0) = capacity b"
    by (auto simp: try_take_def Let_def bucket_ok_def)
  have "real (fst (grants (try_take 1) ts ?b))
      \<le> tokens ?b + seconds_between t0 (last (t0 # ts)) * refill_per_sec b"
    using tb.grants_rate_bound [OF ok, of ts] ts by simp
  with pay show ?thesis
    unfolding grants_Cons by (simp split: if_splits)
qed

text \<open>
  Rate limit: from a fresh bucket, however the calls are spaced, the number of granted calls
  never exceeds the burst capacity plus what the elapsed time refilled.
\<close>

theorem token_bucket_rate_bound:
  assumes fresh: "last_refill b = 0" and cap: "0 < capacity b" and rate: "0 \<le> refill_per_sec b"
    and t0: "0 < t0" and ts: "sorted (t0 # ts)"
  shows "real (fst (grants (try_take 1) (t0 # ts) b))
    \<le> capacity b + seconds_between t0 (last (t0 # ts)) * refill_per_sec b"
  by (rule fresh_bucket_bound [OF assms])

theorem token_bucket_rate_bound_witness:
  "real (fst (grants (try_take 1) [1, 1, 1, 1000000001]
      \<lparr>capacity = 2, refill_per_sec = 1, tokens = 0, last_refill = 0\<rparr>)) \<le> 3"
  using token_bucket_rate_bound
    [of "\<lparr>capacity = 2, refill_per_sec = 1, tokens = 0, last_refill = 0\<rparr>" 1 "[1, 1, 1000000001]"]
  by (simp add: seconds_between_def)

lemma grants_within_tokens:
  assumes "bucket_ok b" and "sorted (last_refill b # ts)" and "real (length ts) \<le> tokens b"
  shows "fst (grants (try_take 1) ts b) = length ts"
  using assms
proof (induction ts arbitrary: b)
  case Nil
  then show ?case by simp
next
  case (Cons t ts)
  have t: "last_refill b \<le> t"
    using Cons.prems by simp
  have r: "bucket_ok (refill t b)" "tokens b \<le> tokens (refill t b)"
    using refill_ok [OF Cons.prems(1) t] by simp_all
  have "1 \<le> tokens (refill t b)"
    using Cons.prems(3) r by simp
  with r have g: "fst (try_take 1 t b)"
    and l: "tokens (snd (try_take 1 t b)) = tokens (refill t b) - 1"
    by (auto simp: try_take_def Let_def bucket_ok_def)
  have "fst (grants (try_take 1) ts (snd (try_take 1 t b))) = length ts"
    using Cons.prems r l try_take_ok [OF Cons.prems(1) t] by (intro Cons.IH) auto
  with g show ?case
    unfolding grants_Cons by simp
qed

text \<open>
  Burst guarantee: a fresh bucket grants every one of the first calls as long as they do not
  outnumber the capacity, so a peer within its burst allowance is never throttled.
\<close>

theorem token_bucket_burst_granted:
  assumes "last_refill b = 0" and "0 \<le> refill_per_sec b"
    and "0 < t0" and "sorted (t0 # ts)" and "real (length (t0 # ts)) \<le> capacity b"
  shows "fst (grants (try_take 1) (t0 # ts) b) = length (t0 # ts)"
proof -
  have "1 \<le> capacity b"
    using assms(5) by simp
  from fresh_take [OF assms(1) this assms(2,3)]
  have "fst (grants (try_take 1) ts (snd (try_take 1 t0 b))) = length ts"
    using assms by (intro grants_within_tokens) auto
  with fresh_take(1) [OF assms(1) \<open>1 \<le> capacity b\<close> assms(2,3)] show ?thesis
    unfolding grants_Cons by simp
qed

theorem token_bucket_burst_granted_witness:
  "fst (grants (try_take 1) [5, 5, 9]
      \<lparr>capacity = 3, refill_per_sec = 1 / 100, tokens = 0, last_refill = 0\<rparr>) = 3"
  using token_bucket_burst_granted
    [of "\<lparr>capacity = 3, refill_per_sec = 1 / 100, tokens = 0, last_refill = 0\<rparr>" 5 "[5, 9]"]
  by simp

lemma try_take_disabled: "capacity b \<le> 0 \<Longrightarrow> fst (try_take c now b)"
  by (simp add: try_take_def Let_def)

section \<open>Scopes of the call context\<close>

text \<open>Scopes that nest on one thread restore the pointer they found.\<close>

lemma scope_nested_restores:
  "scope_enter thr a cur = (p, cur1) \<Longrightarrow> scope_enter thr b cur1 = (q, cur2) \<Longrightarrow>
   scope_exit thr p (scope_exit thr q cur2) = cur"
  by (auto simp: scope_enter_def scope_exit_def)

text \<open>
  Scopes of two coroutines that interleave on one thread do not nest: when the coroutine that
  entered first also leaves first, the pointer finally left behind is the context of the call that
  ended first, an object that no longer exists.
\<close>

theorem scope_interleaved_dangles:
  assumes "scope_enter thr a cur = (p, cur1)" and "scope_enter thr b cur1 = (q, cur2)"
  shows "current_call_context thr (scope_exit thr q (scope_exit thr p cur2)) = Some a"
  using assms by (auto simp: scope_enter_def scope_exit_def current_call_context_def)

theorem scope_interleaved_dangles_witness:
  "current_call_context 0 (scope_exit 0 (Some 1) (scope_exit 0 None ((\<lambda>_. None)(0 := Some 2)))) = Some 1"
  by (rule scope_interleaved_dangles [of 0 1 "\<lambda>_. None" _ "(\<lambda>_. None)(0 := Some 1)" 2])
     (simp_all add: scope_enter_def)

end
