(* ===== verification/Encoder.thy ===== *)
theory Encoder
  imports Prelude
begin

text \<open>
  \<open>message.hpp\<close> and \<open>encoder.hpp\<close>: the bounded input archive that guards decoding against
  forged container sizes, and the message encoder built on it.

  cereal is a library the sources only call, so it is a parameter. The functions cereal runs to
  load a value of some C++ type are arbitrary programs over the primitives the archive offers
  (\<open>loader\<close>: a number, a size tag, a block of binary data), and the bytes cereal's output archive
  writes for a value are an arbitrary function (\<open>save\<close>). The archive's primitives themselves
  are the repository's own code and are defined here.
\<close>

section \<open>The input stream and the archive\<close>

text \<open>
  The input stream over the frame: its bytes and the read position. \<open>seekable\<close> is whether
  position queries succeed on it; \<open>tellg\<close> yields -1 where they fail.
\<close>

record istream =
  contents :: buffer_type
  pos :: nat
  seekable :: bool

definition tellg :: "istream \<Rightarrow> int" where
  "tellg s = (if seekable s then int (pos s) else - 1)"

text \<open>\<open>rdbuf()->sgetn\<close>: as many of the requested bytes as there are.\<close>

definition sgetn :: "nat \<Rightarrow> istream \<Rightarrow> buffer_type \<times> istream" where
  "sgetn n s =
     (let bs = take n (drop (pos s) (contents s)) in (bs, s\<lparr>pos := pos s + length bs\<rparr>))"

record archive =
  ar_stream :: istream
  ar_total :: nat
  convert_endianness :: u8

text \<open>cereal's \<open>swap_bytes<N>\<close> on one element is a parameter of the environment.\<close>

record cereal_env =
  env_platform :: platform
  swap_bytes :: "buffer_type \<Rightarrow> buffer_type"
  out_header :: buffer_type

fun swap_chunks :: "(buffer_type \<Rightarrow> buffer_type) \<Rightarrow> nat \<Rightarrow> nat \<Rightarrow> buffer_type \<Rightarrow> buffer_type" where
  "swap_chunks sw 0 n bs = bs"
| "swap_chunks sw (Suc k) n bs = sw (take n bs) @ swap_chunks sw k n (drop n bs)"

text \<open>
  \<open>loadBinary<DataSize>(data, size)\<close>: the loop swaps one element of \<open>DataSize\<close> bytes at a
  time; \<open>size\<close> is a multiple of it in every instantiation.
\<close>

definition loadBinary :: "cereal_env \<Rightarrow> nat \<Rightarrow> nat \<Rightarrow> archive \<Rightarrow> buffer_type result \<times> archive" where
  "loadBinary E dsize sz ar =
     (let (data, s') = sgetn sz (ar_stream ar); ar' = ar\<lparr>ar_stream := s'\<rparr> in
      if length data \<noteq> sz
      then (Inl (cereal_exception (''Failed to read '' @ to_string sz
              @ '' bytes from input stream! Read '' @ to_string (length data))), ar')
      else if convert_endianness ar \<noteq> 0
      then (Inr (swap_chunks (swap_bytes E) (sz div dsize) dsize data), ar')
      else (Inr data, ar'))"

definition bounded :: "archive \<Rightarrow> bool" where
  "bounded ar \<longleftrightarrow> ar_total ar > 0"

definition remaining_bytes :: "archive \<Rightarrow> nat" where
  "remaining_bytes ar =
     (let p = tellg (ar_stream ar); consumed = (if p < 0 then ar_total ar else nat p)
      in if ar_total ar > consumed then ar_total ar - consumed else 0)"

text \<open>The archive's constructor: measure the frame, then consume the endianness byte.\<close>

definition make_archive :: "cereal_env \<Rightarrow> istream \<Rightarrow> archive result" where
  "make_archive E s =
     (let start = tellg s;
          total = (if start \<ge> 0 then length (contents s) else 0);
          ar = \<lparr>ar_stream = s, ar_total = total, convert_endianness = 0\<rparr>
      in case loadBinary E 1 1 ar of
           (Inl e, _) \<Rightarrow> Inl e
         | (Inr bs, ar') \<Rightarrow>
             Inr (ar'\<lparr>convert_endianness :=
                    (if host_little_endian (env_platform E) then 1 else 0) XOR hd bs\<rparr>))"

text \<open>Loading an arithmetic value of \<open>n\<close> bytes, and a size tag with the bound.\<close>

definition load_arithmetic :: "cereal_env \<Rightarrow> nat \<Rightarrow> archive \<Rightarrow> buffer_type result \<times> archive" where
  "load_arithmetic E n ar = loadBinary E n n ar"

definition load_size_tag :: "cereal_env \<Rightarrow> archive \<Rightarrow> u64 result \<times> archive" where
  "load_size_tag E ar =
     (case load_arithmetic E 8 ar of
        (Inl e, ar') \<Rightarrow> (Inl e, ar')
      | (Inr bs, ar') \<Rightarrow>
          let sz = word_of_mem (env_platform E) bs in
          if bounded ar' \<and> sz > of_nat (remaining_bytes ar') + 64
          then (Inl (cereal_exception
                  ''grlx-rpc: container size prefix exceeds frame bounds (rejected pre-allocation)''), ar')
          else (Inr sz, ar'))"

definition load_binary_data :: "cereal_env \<Rightarrow> nat \<Rightarrow> nat \<Rightarrow> archive \<Rightarrow> buffer_type result \<times> archive" where
  "load_binary_data E elem sz ar = loadBinary E elem sz ar"

section \<open>Loaders: what cereal does with the primitives\<close>

datatype 'v loader =
    Return 'v
  | Throw exn
  | LoadArithmetic nat "buffer_type \<Rightarrow> 'v loader"
  | LoadSizeTag "u64 \<Rightarrow> 'v loader"
  | LoadBinaryData nat nat "buffer_type \<Rightarrow> 'v loader"

primrec run_loader :: "cereal_env \<Rightarrow> 'v loader \<Rightarrow> archive \<Rightarrow> 'v result \<times> archive" where
  "run_loader E (Return v) ar = (Inr v, ar)"
| "run_loader E (Throw e) ar = (Inl e, ar)"
| "run_loader E (LoadArithmetic n k) ar =
     (case load_arithmetic E n ar of (Inl e, ar') \<Rightarrow> (Inl e, ar')
      | (Inr bs, ar') \<Rightarrow> run_loader E (k bs) ar')"
| "run_loader E (LoadSizeTag k) ar =
     (case load_size_tag E ar of (Inl e, ar') \<Rightarrow> (Inl e, ar')
      | (Inr n, ar') \<Rightarrow> run_loader E (k n) ar')"
| "run_loader E (LoadBinaryData el n k) ar =
     (case load_binary_data E el n ar of (Inl e, ar') \<Rightarrow> (Inl e, ar')
      | (Inr bs, ar') \<Rightarrow> run_loader E (k bs) ar')"

text \<open>
  The container sizes a run hands to cereal, each with the number of frame bytes left when it was
  handed over: cereal resizes the container to exactly this size before reading an element.
\<close>

primrec granted_sizes :: "cereal_env \<Rightarrow> 'v loader \<Rightarrow> archive \<Rightarrow> (u64 \<times> nat) list" where
  "granted_sizes E (Return v) ar = []"
| "granted_sizes E (Throw e) ar = []"
| "granted_sizes E (LoadArithmetic n k) ar =
     (case load_arithmetic E n ar of (Inl e, ar') \<Rightarrow> []
      | (Inr bs, ar') \<Rightarrow> granted_sizes E (k bs) ar')"
| "granted_sizes E (LoadSizeTag k) ar =
     (case load_size_tag E ar of (Inl e, ar') \<Rightarrow> []
      | (Inr n, ar') \<Rightarrow> (n, remaining_bytes ar') # granted_sizes E (k n) ar')"
| "granted_sizes E (LoadBinaryData el n k) ar =
     (case load_binary_data E el n ar of (Inl e, ar') \<Rightarrow> []
      | (Inr bs, ar') \<Rightarrow> granted_sizes E (k bs) ar')"

section \<open>Messages\<close>

text \<open>
  A C++ argument or result type, as far as the encoder uses it: its default-constructed value, how
  cereal loads and saves it, and what a load that threw leaves in the object.
\<close>

record 'v ctype =
  default_value :: 'v
  load_prog :: "'v loader"
  save :: "'v \<Rightarrow> buffer_type option"
  after_throw :: "buffer_type \<Rightarrow> 'v"

text \<open>
  \<open>message_request::serialize\<close> folds the archive over the argument tuple
  (\<open>for_each_arg\<close>), left to right; an exception stops it where it is.
\<close>

fun load_args :: "cereal_env \<Rightarrow> 'v ctype list \<Rightarrow> archive \<Rightarrow> bool \<times> 'v list \<times> archive" where
  "load_args E [] ar = (True, [], ar)"
| "load_args E (t # ts) ar =
     (case run_loader E (load_prog t) ar of
        (Inl e, ar') \<Rightarrow> (False, after_throw t (drop (pos (ar_stream ar)) (contents (ar_stream ar)))
                              # map default_value ts, ar')
      | (Inr v, ar') \<Rightarrow> (let (ok, vs, ar'') = load_args E ts ar' in (ok, v # vs, ar'')))"

fun save_args :: "'v ctype list \<Rightarrow> 'v list \<Rightarrow> buffer_type option" where
  "save_args [] [] = Some []"
| "save_args (t # ts) (v # vs) =
     (case save t v of None \<Rightarrow> None
      | Some b \<Rightarrow> (case save_args ts vs of None \<Rightarrow> None | Some bs \<Rightarrow> Some (b @ bs)))"
| "save_args _ _ = None"

text \<open>
  \<open>generic_message_encoder\<close>: a void response is a message of no values, any other response
  a message of one. \<open>encode\<close> leaves the caller's buffer empty when it fails.
\<close>

definition buffer_stream :: "buffer_type \<Rightarrow> istream" where
  "buffer_stream buf = \<lparr>contents = buf, pos = 0, seekable = True\<rparr>"

definition decode_message :: "cereal_env \<Rightarrow> 'v ctype list \<Rightarrow> buffer_type \<Rightarrow> bool \<times> 'v list" where
  "decode_message E ts buf =
     (if length buf > 0
      then case make_archive E (buffer_stream buf) of
             Inl e \<Rightarrow> (False, map default_value ts)
           | Inr ar \<Rightarrow> (let (ok, vs, ar') = load_args E ts ar in (ok, vs))
      else (False, map default_value ts))"

definition encode_message :: "cereal_env \<Rightarrow> 'v ctype list \<Rightarrow> 'v list \<Rightarrow> bool \<times> buffer_type" where
  "encode_message E ts vs =
     (case save_args ts vs of None \<Rightarrow> (False, []) | Some bs \<Rightarrow> (True, out_header E @ bs))"

section \<open>The size guard\<close>

lemma sgetn_contents [simp]:
  "contents (snd (sgetn n s)) = contents s" "seekable (snd (sgetn n s)) = seekable s"
  by (simp_all add: sgetn_def Let_def)

lemma pos_sgetn: "pos (snd (sgetn n s)) = pos s + length (fst (sgetn n s))"
  by (simp add: sgetn_def Let_def)

lemma fst_sgetn: "fst (sgetn n s) = take n (drop (pos s) (contents s))"
  by (simp add: sgetn_def Let_def)

lemma loadBinary_frame:
  assumes "loadBinary E d n ar = (r, ar')"
  shows "ar_total ar' = ar_total ar" "convert_endianness ar' = convert_endianness ar"
    "contents (ar_stream ar') = contents (ar_stream ar)"
    "seekable (ar_stream ar') = seekable (ar_stream ar)"
    "r = Inr bs \<Longrightarrow> pos (ar_stream ar') = pos (ar_stream ar) + n"
    "r = Inr bs \<Longrightarrow> pos (ar_stream ar) \<le> length (contents (ar_stream ar)) \<Longrightarrow>
       pos (ar_stream ar') \<le> length (contents (ar_stream ar))"
proof -
  have "ar' = ar\<lparr>ar_stream := snd (sgetn n (ar_stream ar))\<rparr>"
    using assms by (auto simp: loadBinary_def Let_def case_prod_beta split: if_splits)
  then show "ar_total ar' = ar_total ar" "convert_endianness ar' = convert_endianness ar"
    "contents (ar_stream ar') = contents (ar_stream ar)"
    "seekable (ar_stream ar') = seekable (ar_stream ar)"
    "r = Inr bs \<Longrightarrow> pos (ar_stream ar') = pos (ar_stream ar) + n"
    "r = Inr bs \<Longrightarrow> pos (ar_stream ar) \<le> length (contents (ar_stream ar)) \<Longrightarrow>
       pos (ar_stream ar') \<le> length (contents (ar_stream ar))"
    using assms
    by (auto simp: loadBinary_def Let_def case_prod_beta pos_sgetn fst_sgetn split: if_splits)
qed

text \<open>An archive that measured its frame, with \<open>p\<close> bytes of it consumed at least.\<close>

definition measured :: "nat \<Rightarrow> nat \<Rightarrow> archive \<Rightarrow> bool" where
  "measured len p ar \<longleftrightarrow> seekable (ar_stream ar) \<and> ar_total ar = len \<and> 0 < len
     \<and> length (contents (ar_stream ar)) = len
     \<and> p \<le> pos (ar_stream ar) \<and> pos (ar_stream ar) \<le> len"

lemma measured_loadBinary:
  assumes "measured len p ar" and "loadBinary E d n ar = (Inr bs, ar')"
  shows "measured len (p + n) ar'"
  using assms loadBinary_frame [OF assms(2)] by (simp add: measured_def)

lemma measured_mono: "measured len p ar \<Longrightarrow> q \<le> p \<Longrightarrow> measured len q ar"
  by (simp add: measured_def)

lemma remaining_measured: "measured len p ar \<Longrightarrow> remaining_bytes ar + p \<le> len"
  by (auto simp: measured_def remaining_bytes_def tellg_def Let_def)

lemma load_size_tag_frame:
  assumes "measured len p ar" and "load_size_tag E ar = (Inr n, ar')"
  shows "measured len (p + 8) ar'"
  using assms measured_loadBinary [of len p ar E 8 8]
  by (auto simp: load_size_tag_def load_arithmetic_def Let_def split: prod.splits sum.splits if_splits)

lemma load_size_tag_guard:
  assumes "measured len p ar" and "load_size_tag E ar = (Inr n, ar')" and "len + 64 < 2 ^ 64"
  shows "unat n \<le> remaining_bytes ar' + 64"
proof -
  have m: "measured len (p + 8) ar'"
    using load_size_tag_frame [OF assms(1,2)] .
  then have "remaining_bytes ar' + 64 < 2 ^ 64"
    using remaining_measured [OF m] assms(3) by linarith
  moreover have "n \<le> of_nat (remaining_bytes ar') + 64"
    using assms(2) m
    by (auto simp: load_size_tag_def load_arithmetic_def Let_def bounded_def measured_def not_less
        split: prod.splits sum.splits if_splits)
  ultimately show ?thesis
    by (simp add: word_le_nat_alt unat_word_ariths unat_of_nat)
qed

lemma granted_sizes_guard:
  assumes "measured len p ar" and "len + 64 < 2 ^ 64" and "(n, r) \<in> set (granted_sizes E prog ar)"
  shows "unat n \<le> r + 64 \<and> r + p + 8 \<le> len"
  using assms
proof (induction prog arbitrary: ar p)
  case (LoadArithmetic m k)
  from LoadArithmetic.prems(3) obtain bs ar' where l: "loadBinary E m m ar = (Inr bs, ar')"
    and in': "(n, r) \<in> set (granted_sizes E (k bs) ar')"
    by (cases "loadBinary E m m ar" rule: result_pair_cases) (simp_all add: load_arithmetic_def)
  have "measured len p ar'"
    using measured_loadBinary [OF LoadArithmetic.prems(1) l] by (rule measured_mono) simp
  from LoadArithmetic.IH [OF _ this LoadArithmetic.prems(2) in'] show ?case
    by simp
next
  case (LoadSizeTag k)
  from LoadSizeTag.prems(3) obtain sz ar' where l: "load_size_tag E ar = (Inr sz, ar')"
    and in': "(n, r) = (sz, remaining_bytes ar') \<or> (n, r) \<in> set (granted_sizes E (k sz) ar')"
    by (cases "load_size_tag E ar" rule: result_pair_cases) auto
  have m: "measured len (p + 8) ar'"
    using load_size_tag_frame [OF LoadSizeTag.prems(1) l] .
  from in' show ?case
  proof
    assume "(n, r) = (sz, remaining_bytes ar')"
    then show ?thesis
      using load_size_tag_guard [OF LoadSizeTag.prems(1) l LoadSizeTag.prems(2)]
        remaining_measured [OF m] by auto
  next
    assume "(n, r) \<in> set (granted_sizes E (k sz) ar')"
    from LoadSizeTag.IH [OF _ measured_mono [OF m] LoadSizeTag.prems(2) this, of p] show ?thesis
      by simp
  qed
next
  case (LoadBinaryData el m k)
  from LoadBinaryData.prems(3) obtain bs ar' where l: "loadBinary E el m ar = (Inr bs, ar')"
    and in': "(n, r) \<in> set (granted_sizes E (k bs) ar')"
    by (cases "loadBinary E el m ar" rule: result_pair_cases) (simp_all add: load_binary_data_def)
  have "measured len p ar'"
    using measured_loadBinary [OF LoadBinaryData.prems(1) l] by (rule measured_mono) simp
  from LoadBinaryData.IH [OF _ this LoadBinaryData.prems(2) in'] show ?case
    by simp
qed simp_all

lemma measured_loadBinary_keep:
  "measured len p ar \<Longrightarrow> loadBinary E d n ar = (Inr bs, ar') \<Longrightarrow> measured len p ar'"
  by (rule measured_mono [OF measured_loadBinary le_add1])

lemma measured_size_tag_keep:
  "measured len p ar \<Longrightarrow> load_size_tag E ar = (Inr n, ar') \<Longrightarrow> measured len p ar'"
  by (rule measured_mono [OF load_size_tag_frame le_add1])

lemma run_loader_measured:
  assumes "measured len p ar" and "run_loader E prog ar = (Inr v, ar')"
  shows "measured len p ar'"
  using assms
proof (induction prog arbitrary: ar)
  case (LoadArithmetic m k)
  then show ?case
    by (cases "loadBinary E m m ar" rule: result_pair_cases)
       (auto simp: load_arithmetic_def dest: measured_loadBinary_keep)
next
  case (LoadSizeTag k)
  then show ?case
    by (cases "load_size_tag E ar" rule: result_pair_cases) (auto dest: measured_size_tag_keep)
next
  case (LoadBinaryData el m k)
  then show ?case
    by (cases "loadBinary E el m ar" rule: result_pair_cases)
       (auto simp: load_binary_data_def dest: measured_loadBinary_keep)
qed simp_all

text \<open>The sizes handed to cereal while the arguments of one message are decoded.\<close>

fun granted_args :: "cereal_env \<Rightarrow> 'v ctype list \<Rightarrow> archive \<Rightarrow> (u64 \<times> nat) list" where
  "granted_args E [] ar = []"
| "granted_args E (t # ts) ar =
     granted_sizes E (load_prog t) ar @
     (case run_loader E (load_prog t) ar of (Inl e, ar') \<Rightarrow> []
      | (Inr v, ar') \<Rightarrow> granted_args E ts ar')"

definition decode_sizes :: "cereal_env \<Rightarrow> 'v ctype list \<Rightarrow> buffer_type \<Rightarrow> (u64 \<times> nat) list" where
  "decode_sizes E ts buf =
     (case make_archive E (buffer_stream buf) of Inl e \<Rightarrow> [] | Inr ar \<Rightarrow> granted_args E ts ar)"

lemma granted_args_guard:
  assumes "measured len p ar" and "len + 64 < 2 ^ 64" and "(n, r) \<in> set (granted_args E ts ar)"
  shows "unat n \<le> r + 64 \<and> r + p + 8 \<le> len"
  using assms
proof (induction ts arbitrary: ar)
  case (Cons t ts)
  show ?case
  proof (cases "(n, r) \<in> set (granted_sizes E (load_prog t) ar)")
    case True
    then show ?thesis
      by (rule granted_sizes_guard [OF Cons.prems(1,2)])
  next
    case False
    with Cons.prems(3) obtain v ar' where l: "run_loader E (load_prog t) ar = (Inr v, ar')"
      and in': "(n, r) \<in> set (granted_args E ts ar')"
      by (cases "run_loader E (load_prog t) ar" rule: result_pair_cases) auto
    show ?thesis
      using run_loader_measured [OF Cons.prems(1) l] Cons.prems(2) in' by (rule Cons.IH)
  qed
qed simp

lemma make_archive_measured:
  assumes "make_archive E (buffer_stream buf) = Inr ar"
  shows "measured (length buf) 1 ar"
proof -
  let ?ar = "\<lparr>ar_stream = buffer_stream buf, ar_total = length buf, convert_endianness = 0\<rparr>"
  obtain bs ar' where l: "loadBinary E 1 1 ?ar = (Inr bs, ar')"
    and ar: "\<exists>c. ar = ar'\<lparr>convert_endianness := c\<rparr>"
    using assms
    by (cases "loadBinary E 1 1 ?ar" rule: result_pair_cases)
       (auto simp: make_archive_def Let_def tellg_def buffer_stream_def)
  have "buf \<noteq> []"
    using l by (auto simp: loadBinary_def sgetn_def Let_def buffer_stream_def split: if_splits)
  then have "measured (length buf) 0 ?ar"
    by (simp add: measured_def buffer_stream_def)
  from measured_loadBinary [OF this l] ar show ?thesis
    by (auto simp: measured_def)
qed

text \<open>
  C14: The allocation guard: whatever cereal does to load the arguments, and however the frame was
  forged, every container size it is handed while decoding a frame is at most the number of bytes
  still in the frame plus 64, and so at most the frame length plus 55.
\<close>

theorem decode_container_sizes_bounded:
  assumes "length buf + 64 < 2 ^ 64" and "(n, r) \<in> set (decode_sizes E ts buf)"
  shows "unat n \<le> r + 64 \<and> unat n \<le> length buf + 55"
proof -
  obtain ar where ar: "make_archive E (buffer_stream buf) = Inr ar"
    and "(n, r) \<in> set (granted_args E ts ar)"
    using assms(2) by (cases "make_archive E (buffer_stream buf)") (auto simp: decode_sizes_def)
  then show ?thesis
    using granted_args_guard [OF make_archive_measured [OF ar] assms(1)] by fastforce
qed

section \<open>Round trips\<close>

text \<open>
  \<open>loads_as E cv t bs v\<close>: in an archive with conversion flag \<open>cv\<close> that stands at the bytes
  \<open>bs\<close>, wherever in the frame they are, cereal's load function for the type \<open>t\<close> delivers
  \<open>v\<close> and consumes exactly \<open>bs\<close>. This is what is asked of a cereal type pair by the
  message round trip, and it is proved below for integers and strings.
\<close>

definition advance :: "nat \<Rightarrow> archive \<Rightarrow> archive" where
  "advance n ar = ar\<lparr>ar_stream := (ar_stream ar)\<lparr>pos := pos (ar_stream ar) + n\<rparr>\<rparr>"

definition stands_at :: "u8 \<Rightarrow> buffer_type \<Rightarrow> archive \<Rightarrow> bool" where
  "stands_at cv bs ar \<longleftrightarrow> convert_endianness ar = cv \<and> seekable (ar_stream ar)
     \<and> ar_total ar = length (contents (ar_stream ar)) \<and> ar_total ar + 64 < 2 ^ 64
     \<and> pos (ar_stream ar) \<le> ar_total ar
     \<and> take (length bs) (drop (pos (ar_stream ar)) (contents (ar_stream ar))) = bs"

definition loads_as :: "cereal_env \<Rightarrow> u8 \<Rightarrow> 'v ctype \<Rightarrow> buffer_type \<Rightarrow> 'v \<Rightarrow> bool" where
  "loads_as E cv t bs v \<longleftrightarrow>
     (\<forall>ar. stands_at cv bs ar \<longrightarrow> run_loader E (load_prog t) ar = (Inr v, advance (length bs) ar))"

lemma stands_at_append:
  assumes "stands_at cv (xs @ ys) ar"
  shows "stands_at cv xs ar" and "stands_at cv ys (advance (length xs) ar)"
proof -
  let ?rest = "drop (pos (ar_stream ar)) (contents (ar_stream ar))"
  have eq: "take (length xs + length ys) ?rest = xs @ ys"
    using assms by (simp add: stands_at_def)
  have xs: "take (length xs) ?rest = xs"
    using arg_cong [OF eq, of "take (length xs)"] by simp
  have ys: "take (length ys) (drop (length xs) ?rest) = ys"
    using arg_cong [OF eq, of "drop (length xs)"] by (simp add: drop_take)
  have len: "length xs \<le> length ?rest"
    using arg_cong [OF xs, of length] by simp
  show "stands_at cv xs ar"
    using assms xs by (simp add: stands_at_def)
  show "stands_at cv ys (advance (length xs) ar)"
    using assms ys len by (auto simp: stands_at_def advance_def add.commute)
qed

lemma loadBinary_native:
  assumes "stands_at 0 bs ar"
  shows "loadBinary E d (length bs) ar = (Inr bs, advance (length bs) ar)"
  using assms by (simp add: stands_at_def loadBinary_def sgetn_def Let_def advance_def)

lemma loadBinary_swapped:
  assumes "stands_at cv bs ar" and "cv \<noteq> 0"
  shows "loadBinary E d (length bs) ar =
    (Inr (swap_chunks (swap_bytes E) (length bs div d) d bs), advance (length bs) ar)"
  using assms by (simp add: stands_at_def loadBinary_def sgetn_def Let_def advance_def)

abbreviation saves_and_loads :: "cereal_env \<Rightarrow> u8 \<Rightarrow> 'v ctype \<Rightarrow> 'v \<Rightarrow> bool" where
  "saves_and_loads E cv t v \<equiv> \<exists>b. save t v = Some b \<and> loads_as E cv t b v"

lemma load_args_reads_back:
  assumes "list_all2 (saves_and_loads E cv) ts vs" and "save_args ts vs = Some out"
    and "stands_at cv out ar"
  shows "load_args E ts ar = (True, vs, advance (length out) ar)"
  using assms
proof (induction ts vs arbitrary: out ar rule: list_all2_induct)
  case Nil
  then show ?case by (simp add: advance_def)
next
  case (Cons t ts v vs)
  then obtain b bs where b: "save t v = Some b" "loads_as E cv t b v"
    and bs: "save_args ts vs = Some bs" and out: "out = b @ bs"
    by (auto split: option.splits)
  have hd: "run_loader E (load_prog t) ar = (Inr v, advance (length b) ar)"
    using b Cons.prems(2) stands_at_append(1) by (fastforce simp: out loads_as_def)
  have "load_args E ts (advance (length b) ar) = (True, vs, advance (length bs) (advance (length b) ar))"
    using bs Cons.prems(2) by (intro Cons.IH stands_at_append(2)) (simp_all add: out)
  with hd show ?case
    by (simp add: out advance_def add.assoc)
qed

lemma saves_and_loads_save_args:
  "list_all2 (saves_and_loads E cv) ts vs \<Longrightarrow> \<exists>out. save_args ts vs = Some out"
  by (induction ts vs rule: list_all2_induct) auto

text \<open>The header byte of the writer and the byte order of the reader fix the conversion flag.\<close>

definition conversion :: "cereal_env \<Rightarrow> u8 \<Rightarrow> u8" where
  "conversion E h = (if host_little_endian (env_platform E) then 1 else 0) XOR h"

lemma make_archive_header:
  assumes "length bs + 65 < 2 ^ 64"
  shows "\<exists>ar. make_archive E (buffer_stream (h # bs)) = Inr ar \<and> stands_at (conversion E h) bs ar"
  using assms
  by (simp add: make_archive_def loadBinary_def sgetn_def tellg_def buffer_stream_def Let_def
      stands_at_def conversion_def)

text \<open>
  A sender and a receiver of one message agree (\<open>compatible\<close>): every argument can be saved, its
  bytes load back as the same value under the conversion flag that the sender's header byte causes
  at the receiver, and the message fits the 64-bit size arithmetic.
\<close>

definition compatible :: "cereal_env \<Rightarrow> cereal_env \<Rightarrow> 'v ctype list \<Rightarrow> 'v list \<Rightarrow> bool" where
  "compatible S R ts vs \<longleftrightarrow> (\<exists>h. out_header S = [h]
     \<and> list_all2 (\<lambda>t v. \<exists>b. save t v = Some b \<and> loads_as R (conversion R h) t b v) ts vs
     \<and> (\<forall>out. save_args ts vs = Some out \<longrightarrow> length out + 65 < 2 ^ 64))"

lemma compatible_decode:
  assumes "compatible S R ts vs"
  shows "fst (encode_message S ts vs)"
    and "decode_message R ts (snd (encode_message S ts vs)) = (True, vs)"
proof -
  obtain h out where h: "out_header S = [h]" and all: "list_all2 (saves_and_loads R (conversion R h)) ts vs"
    and out: "save_args ts vs = Some out" and len: "length out + 65 < 2 ^ 64"
    using assms saves_and_loads_save_args by (fastforce simp: compatible_def)
  show "fst (encode_message S ts vs)"
    by (simp add: encode_message_def out)
  obtain ar where "make_archive R (buffer_stream (h # out)) = Inr ar"
    and "stands_at (conversion R h) out ar"
    using make_archive_header [OF len] by blast
  with load_args_reads_back [OF all out]
  show "decode_message R ts (snd (encode_message S ts vs)) = (True, vs)"
    by (simp add: decode_message_def encode_message_def out h)
qed

section \<open>The encoder interface\<close>

text \<open>
  What the dispatcher, the client and the server use of an encoder: messages between compatible
  peers come back unchanged.
\<close>

locale message_encoder =
  fixes encode :: "'t list \<Rightarrow> 'v list \<Rightarrow> bool \<times> buffer_type"
    and decode :: "'t list \<Rightarrow> buffer_type \<Rightarrow> bool \<times> 'v list"
    and agrees :: "'t list \<Rightarrow> 'v list \<Rightarrow> bool"
  assumes encode_ok: "agrees ts vs \<Longrightarrow> fst (encode ts vs)"
    and decode_encode: "agrees ts vs \<Longrightarrow> decode ts (snd (encode ts vs)) = (True, vs)"
begin

lemma encode_inj:
  assumes "agrees ts vs" and "agrees ts ws" and "snd (encode ts vs) = snd (encode ts ws)"
  shows "vs = ws"
proof -
  have "(True, vs) = decode ts (snd (encode ts vs))"
    by (rule decode_encode [OF assms(1), symmetric])
  also have "\<dots> = decode ts (snd (encode ts ws))"
    by (simp only: assms(3))
  also have "\<dots> = (True, ws)"
    by (rule decode_encode [OF assms(2)])
  finally show ?thesis
    by simp
qed

lemma decode_args: "agrees ts vs \<Longrightarrow> snd (decode ts (snd (encode ts vs))) = vs"
  by (simp add: decode_encode)

end

interpretation enc: message_encoder "encode_message S" "decode_message R" "compatible S R"
  for S R
proof unfold_locales
  show "fst (encode_message S ts vs)" if "compatible S R ts vs" for ts and vs :: "'a list"
    using that by (rule compatible_decode(1))
  show "decode_message R ts (snd (encode_message S ts vs)) = (True, vs)"
    if "compatible S R ts vs" for ts and vs :: "'a list"
    using that by (rule compatible_decode(2))
qed

section \<open>Integers and strings\<close>

text \<open>
  Two concrete instances of the type parameter, as cereal documents their wire form: a 64-bit
  integer is its memory image, a string is a size tag followed by its characters. \<open>Ps\<close> is the
  sender's platform, \<open>Pr\<close> the receiver's.
\<close>

datatype wire_value = WU64 u64 | WString buffer_type

definition u64_ctype :: "platform \<Rightarrow> platform \<Rightarrow> wire_value ctype" where
  "u64_ctype Ps Pr =
     \<lparr>default_value = WU64 0,
      load_prog = LoadArithmetic 8 (\<lambda>bs. Return (WU64 (word_of_mem Pr bs))),
      save = (\<lambda>v. case v of WU64 w \<Rightarrow> Some (mem_of_word Ps 8 w) | _ \<Rightarrow> None),
      after_throw = (\<lambda>_. WU64 0)\<rparr>"

definition string_ctype :: "platform \<Rightarrow> platform \<Rightarrow> wire_value ctype" where
  "string_ctype Ps Pr =
     \<lparr>default_value = WString [],
      load_prog = LoadSizeTag (\<lambda>n. LoadBinaryData 1 (unat n) (\<lambda>bs. Return (WString bs))),
      save = (\<lambda>v. case v of WString cs \<Rightarrow> Some (mem_of_word Ps 8 (of_nat (length cs) :: u64) @ cs)
                 | _ \<Rightarrow> None),
      after_throw = (\<lambda>_. WString [])\<rparr>"

definition header_byte :: "platform \<Rightarrow> u8" where
  "header_byte P = (if host_little_endian P then 1 else 0)"

lemma conversion_header_byte:
  "conversion R (header_byte Ps) =
     (if host_little_endian Ps = host_little_endian (env_platform R) then 0 else 1)"
  by (simp add: conversion_def header_byte_def)

lemma swap_single: "length bs = n \<Longrightarrow> 0 < n \<Longrightarrow> swap_chunks sw 1 n bs = sw bs"
  by simp

lemma swap_bytes_one: "length bs = k \<Longrightarrow> swap_chunks rev k 1 bs = bs"
proof (induction k arbitrary: bs)
  case (Suc k)
  then obtain b bs' where "bs = b # bs'"
    by (cases bs) auto
  with Suc show ?case
    by simp
qed simp

lemma word_of_mem_swapped:
  "host_little_endian Ps \<noteq> host_little_endian Pr \<Longrightarrow>
   word_of_mem Pr (rev (mem_of_word Ps 8 w)) = (w :: u64)"
  by (auto simp: word_of_mem_def mem_of_word_def)

lemma word_of_mem_same:
  "host_little_endian Ps = host_little_endian Pr \<Longrightarrow>
   word_of_mem Pr (mem_of_word Ps 8 w) = (w :: u64)"
  by (simp add: word_of_mem_def mem_of_word_def)

lemma load_u64:
  assumes "swap_bytes R = rev"
    and at: "stands_at (conversion R (header_byte Ps)) (mem_of_word Ps 8 (w :: u64)) ar"
  shows "\<exists>bs. load_arithmetic R 8 ar = (Inr bs, advance 8 ar) \<and> word_of_mem (env_platform R) bs = w"
proof (cases "host_little_endian Ps = host_little_endian (env_platform R)")
  case True
  then have "load_arithmetic R 8 ar = (Inr (mem_of_word Ps 8 w), advance 8 ar)"
    using loadBinary_native [of "mem_of_word Ps 8 w" ar R 8] at
    by (simp add: conversion_header_byte load_arithmetic_def)
  with True show ?thesis
    by (simp add: word_of_mem_same)
next
  case False
  then have "load_arithmetic R 8 ar = (Inr (rev (mem_of_word Ps 8 w)), advance 8 ar)"
    using loadBinary_swapped [of "1" "mem_of_word Ps 8 w" ar R 8] at assms(1)
    by (simp add: conversion_header_byte load_arithmetic_def)
  with False show ?thesis
    by (simp add: word_of_mem_swapped)
qed

lemma u64_loads_as:
  assumes "swap_bytes R = rev"
  shows "loads_as R (conversion R (header_byte Ps)) (u64_ctype Ps (env_platform R))
    (mem_of_word Ps 8 w) (WU64 w)"
  using load_u64 [OF assms] by (fastforce simp: loads_as_def u64_ctype_def)

lemma stands_at_fits: "stands_at cv bs ar \<Longrightarrow> pos (ar_stream ar) + length bs \<le> ar_total ar"
proof -
  assume at: "stands_at cv bs ar"
  then have eq: "take (length bs) (drop (pos (ar_stream ar)) (contents (ar_stream ar))) = bs"
    by (simp only: stands_at_def)
  have "length bs \<le> length (contents (ar_stream ar)) - pos (ar_stream ar)"
    using arg_cong [OF eq, of length] by simp
  with at show ?thesis
    by (auto simp: stands_at_def)
qed

lemma load_size_tag_honest:
  assumes "swap_bytes R = rev"
    and at: "stands_at (conversion R (header_byte Ps)) (mem_of_word Ps 8 (of_nat (length cs) :: u64) @ cs) ar"
  shows "load_size_tag R ar = (Inr (of_nat (length cs)), advance 8 ar)"
proof -
  obtain bs where l: "load_arithmetic R 8 ar = (Inr bs, advance 8 ar)"
    and w: "word_of_mem (env_platform R) bs = (of_nat (length cs) :: u64)"
    using load_u64 [OF assms(1) stands_at_append(1) [OF at]] by blast
  have fits: "pos (ar_stream ar) + 8 + length cs \<le> ar_total ar" and big: "ar_total ar + 64 < 2 ^ 64"
    using stands_at_fits [OF at] at by (simp_all add: stands_at_def)
  have rem: "remaining_bytes (advance 8 ar) = ar_total ar - (pos (ar_stream ar) + 8)"
    using at by (simp add: remaining_bytes_def advance_def tellg_def stands_at_def Let_def nat_add_distrib)
  define r where "r = remaining_bytes (advance 8 ar)"
  have "length cs \<le> r" and "r + 64 < 2 ^ 64"
    using fits big by (simp_all add: rem r_def)
  then have "\<not> (of_nat (length cs) :: u64) > of_nat r + 64"
    by (simp add: word_less_nat_alt unat_word_ariths unat_of_nat)
  with l w show ?thesis
    by (simp add: load_size_tag_def r_def)
qed

lemma load_chars:
  assumes "swap_bytes R = rev" and "stands_at (conversion R (header_byte Ps)) cs ar"
  shows "load_binary_data R 1 (length cs) ar = (Inr cs, advance (length cs) ar)"
proof (cases "conversion R (header_byte Ps) = 0")
  case True
  with assms loadBinary_native [of cs ar R 1] show ?thesis
    by (simp add: load_binary_data_def)
next
  case False
  with assms loadBinary_swapped [of "conversion R (header_byte Ps)" cs ar R 1] show ?thesis
    by (simp only: load_binary_data_def div_by_1 swap_bytes_one simp_thms)
qed

lemma string_loads_as:
  assumes "swap_bytes R = rev"
  shows "loads_as R (conversion R (header_byte Ps)) (string_ctype Ps (env_platform R))
    (mem_of_word Ps 8 (of_nat (length cs) :: u64) @ cs) (WString cs)"
  unfolding loads_as_def
proof (intro allI impI)
  fix ar
  assume at: "stands_at (conversion R (header_byte Ps)) (mem_of_word Ps 8 (of_nat (length cs) :: u64) @ cs) ar"
  have "length cs < 2 ^ 64"
    using stands_at_fits [OF at] at by (simp add: stands_at_def)
  then have "unat (of_nat (length cs) :: u64) = length cs"
    by (simp add: unat_of_nat)
  moreover have "load_binary_data R 1 (length cs) (advance 8 ar) = (Inr cs, advance (length cs) (advance 8 ar))"
    using load_chars [OF assms] stands_at_append(2) [OF at] by simp
  ultimately show "run_loader R (load_prog (string_ctype Ps (env_platform R))) ar =
      (Inr (WString cs), advance (length (mem_of_word Ps 8 (of_nat (length cs) :: u64) @ cs)) ar)"
    using load_size_tag_honest [OF assms at]
    by (simp add: string_ctype_def advance_def add.assoc)
qed

fun wire_ctype :: "platform \<Rightarrow> platform \<Rightarrow> wire_value \<Rightarrow> wire_value ctype" where
  "wire_ctype Ps Pr (WU64 w) = u64_ctype Ps Pr"
| "wire_ctype Ps Pr (WString cs) = string_ctype Ps Pr"

text \<open>The number of bytes a value occupies.\<close>

fun wire_size :: "wire_value \<Rightarrow> nat" where
  "wire_size (WU64 w) = 8"
| "wire_size (WString cs) = 8 + length cs"

lemma wire_value_saves_and_loads:
  assumes "swap_bytes R = rev"
  shows "saves_and_loads R (conversion R (header_byte Ps)) (wire_ctype Ps (env_platform R) v) v"
  using u64_loads_as [OF assms] string_loads_as [OF assms]
  by (cases v) (simp_all add: u64_ctype_def string_ctype_def)

lemma wire_values_size:
  "save_args (map (wire_ctype Ps Pr) vs) vs = Some out \<Longrightarrow> length out = sum_list (map wire_size vs)"
proof (induction vs arbitrary: out)
  case (Cons v vs)
  then show ?case
    by (cases v) (auto simp: u64_ctype_def string_ctype_def split: option.splits)
qed simp

lemma wire_values_compatible:
  assumes "swap_bytes R = rev" and "out_header S = [header_byte (env_platform S)]"
    and "sum_list (map wire_size vs) + 65 < 2 ^ 64"
  shows "compatible S R (map (wire_ctype (env_platform S) (env_platform R)) vs) vs"
proof -
  have "list_all2 (saves_and_loads R (conversion R (header_byte (env_platform S))))
      (map (wire_ctype (env_platform S) (env_platform R)) vs) vs"
    using wire_value_saves_and_loads [OF assms(1)]
    by (simp add: list_all2_map1 list.rel_refl)
  with assms(2,3) wire_values_size show ?thesis
    unfolding compatible_def by fastforce
qed


text \<open>A little-endian sender and a big-endian receiver.\<close>

definition le_env :: cereal_env where
  "le_env = \<lparr>env_platform = \<lparr>char_is_signed = True, host_little_endian = True\<rparr>,
             swap_bytes = rev, out_header = [1]\<rparr>"

definition be_env :: cereal_env where
  "be_env = \<lparr>env_platform = \<lparr>char_is_signed = False, host_little_endian = False\<rparr>,
             swap_bytes = rev, out_header = [0]\<rparr>"


theorem decode_container_sizes_bounded_witness:
  "unat (2 :: u64) \<le> length ([1, 2, 0, 0, 0, 0, 0, 0, 0, 104, 105] :: buffer_type) + 55"
proof -
  let ?buf = "[1, 2, 0, 0, 0, 0, 0, 0, 0, 104, 105] :: buffer_type"
  have "(2, 2) \<in> set (decode_sizes le_env [string_ctype (env_platform le_env) (env_platform le_env)] ?buf)"
    by code_simp
  then show ?thesis
    using decode_container_sizes_bounded [of ?buf 2 2 le_env] by simp
qed

text \<open>A forged prefix (here one million characters in an eleven-byte frame) is refused.\<close>

lemma forged_size_refused:
  "fst (decode_message le_env [string_ctype (env_platform le_env) (env_platform le_env)]
     [1, 64, 66, 15, 0, 0, 0, 0, 0, 104, 105]) = False"
  by code_simp

end
