(* ===== verification/Dispatcher.thy ===== *)
theory Dispatcher
  imports Umap String_Hash Security Encoder
begin

text \<open>
  \<open>dispatcher.hpp\<close>: the method table, the authorisation gate and the stubs that decode the
  arguments, run the handler and encode its result. Handlers and the authorisation callback are
  application code: arbitrary functions of the application's state \<open>'app\<close>. A handler also sees
  what \<open>current_call_context()\<close> yields on its thread, and its uses of the context's setters are
  returned as a list.
\<close>

section \<open>Definitions\<close>

type_synonym ('v, 'app) handler_fun =
  "client_context option \<Rightarrow> 'v list \<Rightarrow> 'app \<Rightarrow> 'v result \<times> ctx_action list \<times> 'app"

record ('v, 'app) call =
  call_is_async :: bool
  arg_types :: "'v ctype list"
  ret_type :: "'v ctype option"
  the_call :: "('v, 'app) handler_fun"

record ('v, 'app) method_entry =
  entry_name :: string
  vis :: visibility
  handler :: "('v, 'app) call"

record ('v, 'app) dispatcher =
  dispatch_table :: "(u64, ('v, 'app) method_entry) umap"
  disp_auth_callback :: "'app auth_callback option"

type_synonym ('a, 'app) outcome = "'a result \<times> ctx_action list \<times> 'app"

definition dispatch_denied :: "string \<Rightarrow> exn" where
  "dispatch_denied reason = dispatch_denied_error (''dispatch denied: '' @ reason)"

definition empty_dispatcher :: "('v, 'app) dispatcher" where
  "empty_dispatcher = \<lparr>dispatch_table = um_empty, disp_auth_callback = None\<rparr>"

text \<open>
  The move constructor: the new dispatcher, and what is left of the source, a valid state the
  standard does not specify.
\<close>

definition move_dispatcher ::
    "('v, 'app) dispatcher \<Rightarrow> ('v, 'app) dispatcher \<Rightarrow> ('v, 'app) dispatcher \<times> ('v, 'app) dispatcher" where
  "move_dispatcher left other =
     (\<lparr>dispatch_table = dispatch_table other, disp_auth_callback = disp_auth_callback other\<rparr>, left)"

text \<open>\<open>message_response<ReturnT>\<close>: nothing for \<open>void\<close>, the result otherwise.\<close>

definition encode_response :: "cereal_env \<Rightarrow> 'v ctype option \<Rightarrow> 'v \<Rightarrow> buffer_type" where
  "encode_response E rt v =
     snd (case rt of None \<Rightarrow> encode_message E ([] :: 'v ctype list) [] | Some t \<Rightarrow> encode_message E [t] [v])"

text \<open>
  \<open>dispatch_sync\<close> and \<open>dispatch_async_impl\<close> run the same steps (the second awaits the
  handler). The boolean results of \<open>decode\<close> and \<open>encode\<close> are not looked at.
\<close>

definition dispatch_sync ::
    "cereal_env \<Rightarrow> ('v, 'app) call \<Rightarrow> client_context option \<Rightarrow> buffer_type \<Rightarrow> 'app \<Rightarrow>
     (buffer_type, 'app) outcome" where
  "dispatch_sync E c cur buf app =
     (let (ok, args) = decode_message E (arg_types c) buf in
      case the_call c cur args app of
        (Inl e, acts, app') \<Rightarrow> (Inl e, acts, app')
      | (Inr v, acts, app') \<Rightarrow> (Inr (encode_response E (ret_type c) v), acts, app'))"

text \<open>The virtual functions of \<open>call\<close> and of its specialisation for awaitables.\<close>

definition call_dispatch ::
    "cereal_env \<Rightarrow> ('v, 'app) call \<Rightarrow> client_context option \<Rightarrow> buffer_type \<Rightarrow> 'app \<Rightarrow>
     (buffer_type, 'app) outcome" where
  "call_dispatch E c cur buf app =
     (if call_is_async c
      then (Inl (runtime_error ''Synchronous dispatch called on async function''), [], app)
      else dispatch_sync E c cur buf app)"

definition call_dispatch_async ::
    "cereal_env \<Rightarrow> ('v, 'app) call \<Rightarrow> client_context option \<Rightarrow> buffer_type \<Rightarrow> 'app \<Rightarrow>
     (buffer_type, 'app) outcome" where
  "call_dispatch_async E c cur buf app = dispatch_sync E c cur buf app"

definition find_entry_or_throw ::
    "('v, 'app) dispatcher \<Rightarrow> u64 \<Rightarrow> ('v, 'app) method_entry result" where
  "find_entry_or_throw d func_index =
     (case um_find (dispatch_table d) func_index of
        None \<Rightarrow> Inl (runtime_error (''Handler not found: '' @ to_string (unat func_index)
                     @ '' table has '' @ to_string (um_size (dispatch_table d)) @ '' entries''))
      | Some entry \<Rightarrow> Inr entry)"

definition enforce_auth ::
    "('v, 'app) dispatcher \<Rightarrow> ('v, 'app) method_entry \<Rightarrow> client_context \<Rightarrow> 'app \<Rightarrow>
     unit result \<times> 'app" where
  "enforce_auth d entry ctx app =
     (if vis entry = public then (Inr (), app)
      else case disp_auth_callback d of
        None \<Rightarrow> (Inr (), app)
      | Some cb \<Rightarrow>
          (case cb ctx (entry_name entry) app of
             (Inl e, app') \<Rightarrow> (Inl e, app')
           | (Inr r, app') \<Rightarrow>
               if \<not> allow r
               then (Inl (dispatch_denied (if deny_reason r = [] then ''denied'' else deny_reason r)), app')
               else if vis entry = admin \<and> \<not> is_admin r
               then (Inl (dispatch_denied (''admin required for '' @ [CHR 0x27] @ entry_name entry
                       @ [CHR 0x27])), app')
               else (Inr (), app')))"

text \<open>
  The four overloads of \<open>dispatch\<close> and \<open>dispatch_async\<close>: the ones without a
  \<open>client_context\<close> apply no gate.
\<close>

definition dispatch ::
    "cereal_env \<Rightarrow> ('v, 'app) dispatcher \<Rightarrow> u64 \<Rightarrow> buffer_type \<Rightarrow> client_context option \<Rightarrow> 'app \<Rightarrow>
     (buffer_type, 'app) outcome" where
  "dispatch E d func_index buf cur app =
     (case find_entry_or_throw d func_index of
        Inl e \<Rightarrow> (Inl e, [], app)
      | Inr entry \<Rightarrow> call_dispatch E (handler entry) cur buf app)"

definition dispatch_ctx ::
    "cereal_env \<Rightarrow> ('v, 'app) dispatcher \<Rightarrow> u64 \<Rightarrow> buffer_type \<Rightarrow> client_context \<Rightarrow>
     client_context option \<Rightarrow> 'app \<Rightarrow> (buffer_type, 'app) outcome" where
  "dispatch_ctx E d func_index buf ctx cur app =
     (case find_entry_or_throw d func_index of
        Inl e \<Rightarrow> (Inl e, [], app)
      | Inr entry \<Rightarrow>
          (case enforce_auth d entry ctx app of
             (Inl e, app') \<Rightarrow> (Inl e, [], app')
           | (Inr _, app') \<Rightarrow> call_dispatch E (handler entry) cur buf app'))"

definition dispatch_async ::
    "cereal_env \<Rightarrow> ('v, 'app) dispatcher \<Rightarrow> u64 \<Rightarrow> buffer_type \<Rightarrow> client_context option \<Rightarrow> 'app \<Rightarrow>
     (buffer_type, 'app) outcome" where
  "dispatch_async E d func_index buf cur app =
     (case find_entry_or_throw d func_index of
        Inl e \<Rightarrow> (Inl e, [], app)
      | Inr entry \<Rightarrow> call_dispatch_async E (handler entry) cur buf app)"

definition dispatch_async_ctx ::
    "cereal_env \<Rightarrow> ('v, 'app) dispatcher \<Rightarrow> u64 \<Rightarrow> buffer_type \<Rightarrow> client_context \<Rightarrow>
     client_context option \<Rightarrow> 'app \<Rightarrow> (buffer_type, 'app) outcome" where
  "dispatch_async_ctx E d func_index buf ctx cur app =
     (case find_entry_or_throw d func_index of
        Inl e \<Rightarrow> (Inl e, [], app)
      | Inr entry \<Rightarrow>
          (case enforce_auth d entry ctx app of
             (Inl e, app') \<Rightarrow> (Inl e, [], app')
           | (Inr _, app') \<Rightarrow> call_dispatch_async E (handler entry) cur buf app'))"

definition is_async :: "('v, 'app) dispatcher \<Rightarrow> u64 \<Rightarrow> bool" where
  "is_async d func_index =
     (case um_find (dispatch_table d) func_index of
        Some entry \<Rightarrow> call_is_async (handler entry) | None \<Rightarrow> False)"

definition attach_impl ::
    "platform \<Rightarrow> string \<Rightarrow> visibility \<Rightarrow> ('v, 'app) call \<Rightarrow> ('v, 'app) dispatcher \<Rightarrow>
     ('v, 'app) dispatcher" where
  "attach_impl P func_name v h d =
     d\<lparr>dispatch_table := um_put (shash64 P func_name)
          \<lparr>entry_name = func_name, vis = v, handler = h\<rparr> (dispatch_table d)\<rparr>"

definition attach_vis ::
    "platform \<Rightarrow> string \<Rightarrow> visibility \<Rightarrow> ('v, 'app) call \<Rightarrow> ('v, 'app) dispatcher \<Rightarrow>
     ('v, 'app) dispatcher" where
  "attach_vis P func_name v h d = attach_impl P func_name v h d"

definition attach ::
    "platform \<Rightarrow> string \<Rightarrow> ('v, 'app) call \<Rightarrow> ('v, 'app) dispatcher \<Rightarrow> ('v, 'app) dispatcher" where
  "attach P func_name h d = attach_vis P func_name authenticated h d"

definition set_auth_callback ::
    "'app auth_callback option \<Rightarrow> ('v, 'app) dispatcher \<Rightarrow> ('v, 'app) dispatcher" where
  "set_auth_callback cb d = d\<lparr>disp_auth_callback := cb\<rparr>"

definition has_auth_callback :: "('v, 'app) dispatcher \<Rightarrow> bool" where
  "has_auth_callback d \<longleftrightarrow> disp_auth_callback d \<noteq> None"

section \<open>The table\<close>

text \<open>Every entry is filed under the hash of its own name.\<close>

definition dispatcher_ok :: "platform \<Rightarrow> ('v, 'app) dispatcher \<Rightarrow> bool" where
  "dispatcher_ok P d \<longleftrightarrow> um_ok (dispatch_table d)
     \<and> (\<forall>k e. um_find (dispatch_table d) k = Some e \<longrightarrow> k = shash64 P (entry_name e))"

lemma empty_dispatcher_ok: "dispatcher_ok P empty_dispatcher"
  by (simp add: dispatcher_ok_def empty_dispatcher_def)

lemma attach_ok [inv_intros]: "dispatcher_ok P d \<Longrightarrow> dispatcher_ok P (attach_vis P n v h d)"
  by (auto simp: dispatcher_ok_def attach_vis_def attach_impl_def)

lemma set_auth_callback_ok [inv_intros]: "dispatcher_ok P d \<Longrightarrow> dispatcher_ok P (set_auth_callback cb d)"
  by (simp add: dispatcher_ok_def set_auth_callback_def)

text \<open>The abstract view: a registry of methods by name.\<close>

definition methods :: "platform \<Rightarrow> ('v, 'app) dispatcher \<Rightarrow> string \<Rightarrow> ('v, 'app) method_entry option" where
  "methods P d n =
     (case um_find (dispatch_table d) (shash64 P n) of
        Some e \<Rightarrow> if entry_name e = n then Some e else None | None \<Rightarrow> None)"

text \<open>
  C36: Registration refines a registry by name: after \<open>attach\<close> the name is bound to exactly the
  new handler and visibility, a method whose name hashes to the same call id is silently evicted,
  and every other method is untouched; the table invariant is kept and the number of methods grows
  by one exactly when no entry had this call id.
\<close>

theorem attach_refines_registry:
  assumes "dispatcher_ok P d"
  shows "methods P (attach_vis P n v h d) =
      (\<lambda>m. if m = n then Some \<lparr>entry_name = n, vis = v, handler = h\<rparr>
           else if shash64 P m = shash64 P n then None else methods P d m)
    \<and> dispatcher_ok P (attach_vis P n v h d)
    \<and> um_size (dispatch_table (attach_vis P n v h d)) =
        (if um_find (dispatch_table d) (shash64 P n) = None
         then Suc (um_size (dispatch_table d)) else um_size (dispatch_table d))"
proof -
  have ok: "um_ok (dispatch_table d)"
    using assms by (simp add: dispatcher_ok_def)
  have "methods P (attach_vis P n v h d) m =
      (if m = n then Some \<lparr>entry_name = n, vis = v, handler = h\<rparr>
       else if shash64 P m = shash64 P n then None else methods P d m)" for m
    by (simp add: methods_def attach_vis_def attach_impl_def)
  moreover have "um_size (dispatch_table (attach_vis P n v h d)) =
      (if um_find (dispatch_table d) (shash64 P n) = None
       then Suc (um_size (dispatch_table d)) else um_size (dispatch_table d))"
    using um.size_put_fresh [OF ok] um.size_put_present [OF ok]
    by (auto simp: attach_vis_def attach_impl_def)
  ultimately show ?thesis
    using attach_ok [OF assms] by blast
qed

definition sample_platform :: platform where
  "sample_platform = \<lparr>char_is_signed = True, host_little_endian = True\<rparr>"

text \<open>A handler that triples its argument and counts its invocations in the application state.\<close>

definition triple_call :: "(wire_value, nat) call" where
  "triple_call =
     \<lparr>call_is_async = False,
      arg_types = [u64_ctype sample_platform sample_platform],
      ret_type = Some (u64_ctype sample_platform sample_platform),
      the_call = (\<lambda>cur args n. (case args of [WU64 x] \<Rightarrow> (Inr (WU64 (3 * x)), [], Suc n)
                                | _ \<Rightarrow> (Inl unknown_exception, [], n)))\<rparr>"

theorem attach_refines_registry_witness:
  "methods sample_platform (attach_vis sample_platform ''triple'' public triple_call empty_dispatcher) ''triple''
     = Some \<lparr>entry_name = ''triple'', vis = public, handler = triple_call\<rparr>"
  using attach_refines_registry [OF empty_dispatcher_ok, of sample_platform "''triple''" public triple_call]
  by simp

section \<open>The authorisation gate\<close>

text \<open>What a method's visibility demands of the application's verdict.\<close>

definition verdict_allows :: "visibility \<Rightarrow> auth_result \<Rightarrow> bool" where
  "verdict_allows v r \<longleftrightarrow> allow r \<and> (v = admin \<longrightarrow> is_admin r)"

definition authorised ::
    "('v, 'app) dispatcher \<Rightarrow> ('v, 'app) method_entry \<Rightarrow> client_context \<Rightarrow> 'app \<Rightarrow> bool" where
  "authorised d entry ctx app =
     (vis entry = public \<or>
      (case disp_auth_callback d of None \<Rightarrow> True
       | Some cb \<Rightarrow>
           (case fst (cb ctx (entry_name entry) app) of
              Inl e \<Rightarrow> False | Inr r \<Rightarrow> verdict_allows (vis entry) r)))"

text \<open>What stops an unauthorised call: the callback's own exception, or a denial.\<close>

definition gate_refuses ::
    "('v, 'app) dispatcher \<Rightarrow> ('v, 'app) method_entry \<Rightarrow> client_context \<Rightarrow> 'app \<Rightarrow> exn \<Rightarrow> bool" where
  "gate_refuses d entry ctx app e \<longleftrightarrow>
     (\<exists>cb. disp_auth_callback d = Some cb
        \<and> (case fst (cb ctx (entry_name entry) app) of
             Inl e' \<Rightarrow> e = e' | Inr r \<Rightarrow> \<exists>reason. e = dispatch_denied reason))"

text \<open>The application state after the gate: the callback may have changed it.\<close>

definition after_gate ::
    "('v, 'app) dispatcher \<Rightarrow> ('v, 'app) method_entry \<Rightarrow> client_context \<Rightarrow> 'app \<Rightarrow> 'app" where
  "after_gate d entry ctx app =
     (if vis entry = public then app
      else case disp_auth_callback d of None \<Rightarrow> app
           | Some cb \<Rightarrow> snd (cb ctx (entry_name entry) app))"

lemma enforce_auth_spec:
  "\<exists>r. enforce_auth d entry ctx app = (r, after_gate d entry ctx app)
     \<and> (case r of Inr u \<Rightarrow> authorised d entry ctx app
        | Inl e \<Rightarrow> \<not> authorised d entry ctx app \<and> gate_refuses d entry ctx app e)"
  by (auto simp: enforce_auth_def authorised_def after_gate_def verdict_allows_def gate_refuses_def
      split: option.splits prod.splits sum.splits)

lemma enforce_auth_Inr:
  "authorised d entry ctx app \<Longrightarrow> enforce_auth d entry ctx app = (Inr (), after_gate d entry ctx app)"
  using enforce_auth_spec [of d entry ctx app] by (cases "fst (enforce_auth d entry ctx app)") auto

lemma enforce_auth_Inl:
  "\<not> authorised d entry ctx app \<Longrightarrow>
   \<exists>e. enforce_auth d entry ctx app = (Inl e, after_gate d entry ctx app) \<and> gate_refuses d entry ctx app e"
  using enforce_auth_spec [of d entry ctx app] by (cases "fst (enforce_auth d entry ctx app)") auto

text \<open>
  C13: The gate decides: through the overloads that carry a client context, a registered method's
  handler runs exactly when the call is authorised. Otherwise the result is a
  \<open>dispatch_denied_error\<close>, or the exception the callback itself threw, and the application
  state is what the callback alone left, so the handler was never entered; if authorised, the
  result is the handler's.
\<close>

theorem auth_gate_decides:
  assumes "um_find (dispatch_table d) func_index = Some entry"
  shows "dispatch_ctx E d func_index buf ctx cur app =
      (if authorised d entry ctx app
       then call_dispatch E (handler entry) cur buf (after_gate d entry ctx app)
       else (Inl (projl (fst (enforce_auth d entry ctx app))), [], after_gate d entry ctx app))
    \<and> dispatch_async_ctx E d func_index buf ctx cur app =
      (if authorised d entry ctx app
       then call_dispatch_async E (handler entry) cur buf (after_gate d entry ctx app)
       else (Inl (projl (fst (enforce_auth d entry ctx app))), [], after_gate d entry ctx app))
    \<and> (\<not> authorised d entry ctx app \<longrightarrow>
         gate_refuses d entry ctx app (projl (fst (enforce_auth d entry ctx app))))"
proof (cases "authorised d entry ctx app")
  case True
  with assms show ?thesis
    by (simp add: dispatch_ctx_def dispatch_async_ctx_def find_entry_or_throw_def enforce_auth_Inr)
next
  case False
  with assms enforce_auth_Inl [OF False] show ?thesis
    by (auto simp: dispatch_ctx_def dispatch_async_ctx_def find_entry_or_throw_def)
qed

definition anon_ctx :: client_context where
  "anon_ctx = \<lparr>ctx_peer_fingerprint = [], ctx_peer_address = [], ctx_peer_ip = [],
               ctx_logical_session_id = [], ctx_logical_device_id = [], ctx_logical_role = - 1\<rparr>"

definition deny_all :: "nat auth_callback" where
  "deny_all ctx name n = (Inr \<lparr>allow = False, is_admin = False, deny_reason = ''nope''\<rparr>, n)"

definition sample_dispatcher :: "visibility \<Rightarrow> (wire_value, nat) dispatcher" where
  "sample_dispatcher v =
     set_auth_callback (Some deny_all)
       (attach_vis sample_platform ''triple'' v triple_call empty_dispatcher)"

lemma sample_dispatcher_find:
  "um_find (dispatch_table (sample_dispatcher v)) (shash64 sample_platform ''triple'') =
     Some \<lparr>entry_name = ''triple'', vis = v, handler = triple_call\<rparr>"
  by (simp add: sample_dispatcher_def set_auth_callback_def attach_vis_def attach_impl_def)

theorem auth_gate_decides_witness:
  "snd (snd (dispatch_ctx le_env (sample_dispatcher admin) (shash64 sample_platform ''triple'') [1] anon_ctx None 0)) = 0"
  using auth_gate_decides [OF sample_dispatcher_find [of admin], of le_env "[1]" anon_ctx None 0]
  by (simp add: authorised_def after_gate_def sample_dispatcher_def set_auth_callback_def deny_all_def
      verdict_allows_def)

text \<open>
  Public methods never consult the callback: their dispatch does not depend on whether a
  callback is installed or what it would answer.
\<close>

theorem public_bypasses_callback:
  assumes "um_find (dispatch_table d) func_index = Some entry" and "vis entry = public"
  shows "dispatch_ctx E (set_auth_callback cb d) func_index buf ctx cur app =
    call_dispatch E (handler entry) cur buf app"
  using assms
  by (simp add: dispatch_ctx_def find_entry_or_throw_def enforce_auth_def set_auth_callback_def)

theorem public_bypasses_callback_witness:
  "dispatch_ctx le_env (set_auth_callback None (sample_dispatcher public))
     (shash64 sample_platform ''triple'') [1] anon_ctx None 0 =
   call_dispatch le_env triple_call None [1] 0"
  using public_bypasses_callback [OF sample_dispatcher_find [of public], of le_env None "[1]" anon_ctx None 0]
  by simp

text \<open>
  Without a callback every method is open: a dispatcher on which no callback was installed runs
  admin methods for any peer. The comment on \<open>server::set_auth_callback\<close> promises the opposite,
  that calls made before the callback is installed are denied.
\<close>

theorem no_callback_runs_admin_methods:
  assumes "um_find (dispatch_table d) func_index = Some entry" and "\<not> has_auth_callback d"
  shows "dispatch_ctx E d func_index buf ctx cur app = call_dispatch E (handler entry) cur buf app"
  using assms
  by (simp add: dispatch_ctx_def find_entry_or_throw_def enforce_auth_def has_auth_callback_def)

theorem no_callback_runs_admin_methods_witness:
  "dispatch_ctx le_env (attach_vis sample_platform ''triple'' admin triple_call empty_dispatcher)
     (shash64 sample_platform ''triple'') [1] anon_ctx None 0 =
   call_dispatch le_env triple_call None [1] 0"
  using no_callback_runs_admin_methods
    [of "attach_vis sample_platform ''triple'' admin triple_call empty_dispatcher"
        "shash64 sample_platform ''triple''" "\<lparr>entry_name = ''triple'', vis = admin, handler = triple_call\<rparr>"
        le_env "[1]" anon_ctx None 0]
  by (simp add: attach_vis_def attach_impl_def empty_dispatcher_def has_auth_callback_def)

section \<open>Calls\<close>

lemma dispatch_sync_roundtrip:
  assumes "compatible C S (arg_types c) vs" and "compatible S C [t] [v]" and "ret_type c = Some t"
    and "the_call c cur vs app = (Inr v, acts, app')"
  shows "\<exists>rsp. dispatch_sync S c cur (snd (encode_message C (arg_types c) vs)) app = (Inr rsp, acts, app')
    \<and> decode_message C [t] rsp = (True, [v])"
  using assms enc.decode_encode [OF assms(1)] enc.decode_encode [OF assms(2)]
  by (simp add: dispatch_sync_def encode_response_def)

text \<open>
  A call does what the handler does: arguments encoded by a compatible peer reach the handler
  unchanged, and its result, encoded into the response, decodes at the caller to the same value.
\<close>

theorem dispatch_sync_correct:
  assumes "compatible C S (arg_types c) vs" and "compatible S C [t] [v]" and "ret_type c = Some t"
    and "the_call c cur vs app = (Inr v, acts, app')"
  shows "\<exists>rsp. dispatch_sync S c cur (snd (encode_message C (arg_types c) vs)) app = (Inr rsp, acts, app')
    \<and> decode_message C [t] rsp = (True, [v])"
  by (rule dispatch_sync_roundtrip [OF assms])

lemma sample_compatible: "compatible le_env le_env [u64_ctype sample_platform sample_platform] [WU64 x]"
  using wire_values_compatible [of le_env le_env "[WU64 x]"]
  by (simp add: le_env_def header_byte_def sample_platform_def)

theorem dispatch_sync_correct_witness:
  "\<exists>rsp. dispatch_sync le_env triple_call None
      (snd (encode_message le_env [u64_ctype sample_platform sample_platform] [WU64 7])) 0 = (Inr rsp, [], 1)
    \<and> decode_message le_env [u64_ctype sample_platform sample_platform] rsp = (True, [WU64 21])"
  using dispatch_sync_correct [of le_env le_env triple_call "[WU64 7]"
      "u64_ctype sample_platform sample_platform" "WU64 21" None 0 "[]" 1]
  by (simp add: triple_call_def sample_compatible)

text \<open>
  A malformed request still runs the handler: the result of \<open>decode\<close> is ignored, so an empty
  (or truncated) body reaches the handler with default-constructed arguments.
\<close>

theorem undecodable_request_runs_handler:
  "fst (decode_message E (arg_types c) []) = False
   \<and> dispatch_sync E c cur [] app =
      (case the_call c cur (map default_value (arg_types c)) app of
         (Inl e, acts, app') \<Rightarrow> (Inl e, acts, app')
       | (Inr v, acts, app') \<Rightarrow> (Inr (encode_response E (ret_type c) v), acts, app'))"
  by (simp add: dispatch_sync_def decode_message_def)

lemma undecodable_request_example:
  "snd (snd (dispatch_sync le_env triple_call None [] 0)) = 1"
  by (simp add: dispatch_sync_def decode_message_def triple_call_def u64_ctype_def)

text \<open>An unknown call id is an error that names it, and nothing of the application runs.\<close>

lemma unknown_method:
  assumes "um_find (dispatch_table d) k = None"
  shows "\<exists>msg. dispatch E d k buf cur app = (Inl (runtime_error msg), [], app)
    \<and> dispatch_ctx E d k buf ctx cur app = (Inl (runtime_error msg), [], app)
    \<and> dispatch_async_ctx E d k buf ctx cur app = (Inl (runtime_error msg), [], app)"
  using assms
  by (auto simp: dispatch_def dispatch_ctx_def dispatch_async_ctx_def find_entry_or_throw_def)

end
