(* ===== verification/Asio.thy ===== *)
theory Asio
  imports Prelude
begin

text \<open>
  Boost.Asio is a library the sources call: its channels and streams are parameters. Each is a
  record of operations on an opaque state type; an operation's result is what the awaiting
  coroutine sees when it resumes. What the code relies on is stated by the predicates below, which
  transcribe the library's documentation, and appears as a named hypothesis wherever it is used.
\<close>

section \<open>Channels\<close>

text \<open>
  \<open>asio::experimental::concurrent_channel\<close>. \<open>ch_async_receive\<close> is \<open>None\<close> while the
  receiver has to wait.
\<close>

record ('ch, 'it) channel_ops =
  ch_make :: "nat \<Rightarrow> 'ch"
  ch_try_send :: "'it \<Rightarrow> 'ch \<Rightarrow> bool \<times> 'ch"
  ch_async_send :: "'it \<Rightarrow> 'ch \<Rightarrow> error_code option \<times> 'ch"
  ch_async_receive :: "'ch \<Rightarrow> ((error_code + 'it) \<times> 'ch) option"
  ch_cancel :: "'ch \<Rightarrow> 'ch"
  ch_close :: "'ch \<Rightarrow> 'ch"

text \<open>
  First-in first-out delivery: a send that succeeds appends to what is buffered, one that fails
  changes nothing and is the only outcome on a closed channel; a receive takes the oldest item.
\<close>

definition fifo_channel :: "('ch, 'it) channel_ops \<Rightarrow> ('ch \<Rightarrow> 'it list) \<Rightarrow> ('ch \<Rightarrow> bool) \<Rightarrow> bool" where
  "fifo_channel C buffered opened \<longleftrightarrow>
     (\<forall>n. buffered (ch_make C n) = [] \<and> opened (ch_make C n))
   \<and> (\<forall>x c ok c'. ch_try_send C x c = (ok, c') \<longrightarrow>
        buffered c' = (if ok then buffered c @ [x] else buffered c) \<and> opened c' = opened c
        \<and> (ok \<longrightarrow> opened c))
   \<and> (\<forall>x c ec c'. ch_async_send C x c = (ec, c') \<longrightarrow>
        buffered c' = (if ec = None then buffered c @ [x] else buffered c) \<and> opened c' = opened c
        \<and> (ec = None \<longrightarrow> opened c))
   \<and> (\<forall>c x c'. ch_async_receive C c = Some (Inr x, c') \<longrightarrow>
        buffered c = x # buffered c' \<and> opened c' = opened c)
   \<and> (\<forall>c e c'. ch_async_receive C c = Some (Inl e, c') \<longrightarrow>
        buffered c' = buffered c \<and> opened c' = opened c)
   \<and> (\<forall>c. buffered (ch_cancel C c) = buffered c \<and> opened (ch_cancel C c) = opened c)
   \<and> (\<forall>c. buffered (ch_close C c) = buffered c \<and> \<not> opened (ch_close C c))"

text \<open>A receive on an open channel with a buffered item completes with it.\<close>

definition prompt_channel :: "('ch, 'it) channel_ops \<Rightarrow> ('ch \<Rightarrow> 'it list) \<Rightarrow> ('ch \<Rightarrow> bool) \<Rightarrow> bool" where
  "prompt_channel C buffered opened \<longleftrightarrow>
     (\<forall>c x xs. opened c \<longrightarrow> buffered c = x # xs \<longrightarrow> (\<exists>c'. ch_async_receive C c = Some (Inr x, c')))
   \<and> (\<forall>c x. opened c \<longrightarrow> buffered c = [] \<longrightarrow> fst (ch_async_send C x c) = None)"

text \<open>
  A receive on a closed channel never waits; without a buffered item it completes with an error.
\<close>

definition closing_channel :: "('ch, 'it) channel_ops \<Rightarrow> ('ch \<Rightarrow> 'it list) \<Rightarrow> ('ch \<Rightarrow> bool) \<Rightarrow> bool" where
  "closing_channel C buffered opened \<longleftrightarrow>
     (\<forall>c. \<not> opened c \<longrightarrow> ch_async_receive C c \<noteq> None)
   \<and> (\<forall>c. \<not> opened c \<longrightarrow> buffered c = [] \<longrightarrow> (\<exists>e c'. ch_async_receive C c = Some (Inl e, c')))"

lemma closing_receive:
  "closing_channel C buffered opened \<Longrightarrow> \<not> opened c \<Longrightarrow> \<exists>r c'. ch_async_receive C c = Some (r, c')"
  by (simp add: closing_channel_def)

lemma closing_receive_empty:
  "closing_channel C buffered opened \<Longrightarrow> \<not> opened c \<Longrightarrow> buffered c = [] \<Longrightarrow>
   \<exists>e c'. ch_async_receive C c = Some (Inl e, c')"
  by (simp add: closing_channel_def)

lemma fifo_make:
  "fifo_channel C buffered opened \<Longrightarrow> buffered (ch_make C n) = [] \<and> opened (ch_make C n)"
  by (simp add: fifo_channel_def)

lemma fifo_try_send:
  "fifo_channel C buffered opened \<Longrightarrow> ch_try_send C x c = (ok, c') \<Longrightarrow>
   buffered c' = (if ok then buffered c @ [x] else buffered c) \<and> opened c' = opened c \<and> (ok \<longrightarrow> opened c)"
  by (simp add: fifo_channel_def)

lemma fifo_async_send:
  "fifo_channel C buffered opened \<Longrightarrow> ch_async_send C x c = (ec, c') \<Longrightarrow>
   buffered c' = (if ec = None then buffered c @ [x] else buffered c) \<and> opened c' = opened c
   \<and> (ec = None \<longrightarrow> opened c)"
  by (simp add: fifo_channel_def)

lemma fifo_receive:
  "fifo_channel C buffered opened \<Longrightarrow> ch_async_receive C c = Some (Inr x, c') \<Longrightarrow>
   buffered c = x # buffered c' \<and> opened c' = opened c"
  by (simp add: fifo_channel_def)

lemma fifo_receive_error:
  "fifo_channel C buffered opened \<Longrightarrow> ch_async_receive C c = Some (Inl e, c') \<Longrightarrow>
   buffered c' = buffered c \<and> opened c' = opened c"
  by (simp add: fifo_channel_def)

lemma fifo_cancel:
  "fifo_channel C buffered opened \<Longrightarrow> buffered (ch_cancel C c) = buffered c \<and> opened (ch_cancel C c) = opened c"
  by (simp add: fifo_channel_def)

lemma fifo_close:
  "fifo_channel C buffered opened \<Longrightarrow> buffered (ch_close C c) = buffered c \<and> \<not> opened (ch_close C c)"
  by (simp add: fifo_channel_def)

lemmas fifo_laws = fifo_make fifo_try_send fifo_async_send fifo_receive fifo_receive_error
  fifo_cancel fifo_close

text \<open>
  A channel that satisfies the contract: its buffered items, its capacity and whether it is open.
  It instantiates the parameter where a closed example is evaluated.
\<close>

type_synonym 'it list_channel = "'it list \<times> nat \<times> bool"

definition lc_buffered :: "'it list_channel \<Rightarrow> 'it list" where
  "lc_buffered c = fst c"

definition lc_open :: "'it list_channel \<Rightarrow> bool" where
  "lc_open c = snd (snd c)"

definition list_channel_ops :: "('it list_channel, 'it) channel_ops" where
  "list_channel_ops =
     \<lparr>ch_make = (\<lambda>n. ([], n, True)),
      ch_try_send = (\<lambda>x (q, n, op). if op \<and> length q < n then (True, (q @ [x], n, op)) else (False, (q, n, op))),
      ch_async_send = (\<lambda>x (q, n, op). if op then (None, (q @ [x], n, op)) else (Some channel_closed, (q, n, op))),
      ch_async_receive = (\<lambda>(q, n, op). case q of x # q' \<Rightarrow> Some (Inr x, (q', n, op))
          | [] \<Rightarrow> if op then None else Some (Inl channel_closed, (q, n, op))),
      ch_cancel = (\<lambda>c. c),
      ch_close = (\<lambda>(q, n, op). (q, n, False))\<rparr>"

lemma list_channel_fifo: "fifo_channel list_channel_ops lc_buffered lc_open"
  by (auto simp: fifo_channel_def list_channel_ops_def lc_buffered_def lc_open_def
      split: if_splits list.splits)

lemma list_channel_prompt: "prompt_channel list_channel_ops lc_buffered lc_open"
  by (auto simp: prompt_channel_def list_channel_ops_def lc_buffered_def lc_open_def)

lemma list_channel_closing: "closing_channel list_channel_ops lc_buffered lc_open"
  by (auto simp: closing_channel_def list_channel_ops_def lc_buffered_def lc_open_def split: list.splits)

section \<open>Streams\<close>

text \<open>
  The socket or TLS stream under a session. \<open>st_async_read n t\<close> is
  \<open>async_read\<close> with \<open>transfer_exactly(n)\<close> cancelled after \<open>t\<close> milliseconds;
  \<open>st_close\<close> is the shutdown-and-close of the lowest layer.
\<close>

record 'st stream_ops =
  st_async_read :: "nat \<Rightarrow> int \<Rightarrow> 'st \<Rightarrow> (error_code option \<times> buffer_type) \<times> 'st"
  st_async_write :: "buffer_type \<Rightarrow> 'st \<Rightarrow> error_code option \<times> 'st"
  st_is_open :: "'st \<Rightarrow> bool"
  st_close :: "'st \<Rightarrow> 'st"

text \<open>Bytes arrive in order, a read that succeeds takes exactly what it was asked for, no read
  touches the bytes written, and a write that succeeds appends.\<close>

definition byte_stream :: "'st stream_ops \<Rightarrow> ('st \<Rightarrow> buffer_type) \<Rightarrow> ('st \<Rightarrow> buffer_type) \<Rightarrow> bool" where
  "byte_stream I incoming outgoing \<longleftrightarrow>
     (\<forall>n t s bs s'. st_async_read I n t s = ((None, bs), s') \<longrightarrow>
        length bs = n \<and> incoming s = bs @ incoming s' \<and> outgoing s' = outgoing s)
   \<and> (\<forall>n t s r s'. st_async_read I n t s = (r, s') \<longrightarrow> outgoing s' = outgoing s)
   \<and> (\<forall>bs s s'. st_async_write I bs s = (None, s') \<longrightarrow>
        outgoing s' = outgoing s @ bs \<and> incoming s' = incoming s)
   \<and> (\<forall>s. incoming (st_close I s) = [] \<and> outgoing (st_close I s) = outgoing s)"

text \<open>Bytes that are there are read before the deadline.\<close>

definition prompt_stream :: "'st stream_ops \<Rightarrow> ('st \<Rightarrow> buffer_type) \<Rightarrow> bool" where
  "prompt_stream I incoming \<longleftrightarrow>
     (\<forall>n t s. n \<le> length (incoming s) \<longrightarrow> (\<exists>bs s'. st_async_read I n t s = ((None, bs), s')))"

lemma byte_stream_read:
  "byte_stream I incoming outgoing \<Longrightarrow> st_async_read I n t s = ((None, bs), s') \<Longrightarrow>
   length bs = n \<and> incoming s = bs @ incoming s' \<and> outgoing s' = outgoing s"
  by (simp add: byte_stream_def)

lemma byte_stream_write:
  "byte_stream I incoming outgoing \<Longrightarrow> st_async_write I bs s = (None, s') \<Longrightarrow>
   outgoing s' = outgoing s @ bs \<and> incoming s' = incoming s"
  by (simp add: byte_stream_def)

lemma byte_stream_read_outgoing:
  "byte_stream I incoming outgoing \<Longrightarrow> st_async_read I n t s = (r, s') \<Longrightarrow> outgoing s' = outgoing s"
  unfolding byte_stream_def by blast

lemma byte_stream_close:
  "byte_stream I incoming outgoing \<Longrightarrow> incoming (st_close I s) = [] \<and> outgoing (st_close I s) = outgoing s"
  by (simp add: byte_stream_def)

lemma prompt_read:
  assumes "byte_stream I incoming outgoing" and "prompt_stream I incoming"
    and "incoming s = bs @ rest" and "length bs = n"
  shows "\<exists>s'. st_async_read I n t s = ((None, bs), s') \<and> incoming s' = rest \<and> outgoing s' = outgoing s"
proof -
  have "n \<le> length (incoming s)"
    using assms(3,4) by simp
  then obtain bs' s' where r: "st_async_read I n t s = ((None, bs'), s')"
    using assms(2) unfolding prompt_stream_def by blast
  note d = byte_stream_read [OF assms(1) r]
  have "bs' @ incoming s' = bs @ rest"
    using d assms(3) by simp
  then have "bs' = bs \<and> incoming s' = rest"
    by (rule iffD1 [OF append_eq_append_conv, rotated]) (simp add: d assms(4))
  with r d show ?thesis
    by simp
qed

text \<open>
  A closed stream stays closed, whatever is tried on it: a read of at least one byte fails, and so
  does a write.
\<close>

definition closing_stream :: "'st stream_ops \<Rightarrow> bool" where
  "closing_stream I \<longleftrightarrow> (\<forall>s. \<not> st_is_open I (st_close I s))
   \<and> (\<forall>n t s r s'. \<not> st_is_open I s \<longrightarrow> st_async_read I n t s = (r, s') \<longrightarrow>
        \<not> st_is_open I s' \<and> (0 < n \<longrightarrow> fst r \<noteq> None))
   \<and> (\<forall>bs s ec s'. \<not> st_is_open I s \<longrightarrow> st_async_write I bs s = (ec, s') \<longrightarrow> \<not> st_is_open I s' \<and> ec \<noteq> None)"

text \<open>An open stream to a peer that keeps reading accepts every write.\<close>

definition draining_stream :: "'st stream_ops \<Rightarrow> bool" where
  "draining_stream I \<longleftrightarrow>
     (\<forall>bs s. st_is_open I s \<longrightarrow> (\<exists>s'. st_async_write I bs s = (None, s') \<and> st_is_open I s'))"

lemma closing_stream_close: "closing_stream I \<Longrightarrow> \<not> st_is_open I (st_close I s)"
  by (simp add: closing_stream_def)

lemma closing_stream_read:
  assumes "closing_stream I" and "\<not> st_is_open I s" and "st_async_read I n t s = (r, s')"
  shows "\<not> st_is_open I s'" and "0 < n \<Longrightarrow> fst r \<noteq> None"
  using assms unfolding closing_stream_def by blast+

lemma closing_stream_write:
  assumes "closing_stream I" and "\<not> st_is_open I s" and "st_async_write I bs s = (ec, s')"
  shows "\<not> st_is_open I s'" and "ec \<noteq> None"
  using assms unfolding closing_stream_def by blast+

text \<open>A stream that satisfies the contract: the bytes to come, the bytes written, open or not.\<close>

type_synonym mem_stream = "buffer_type \<times> buffer_type \<times> bool"

definition ms_incoming :: "mem_stream \<Rightarrow> buffer_type" where
  "ms_incoming s = (if snd (snd s) then fst s else [])"

definition ms_outgoing :: "mem_stream \<Rightarrow> buffer_type" where
  "ms_outgoing s = fst (snd s)"

definition mem_stream_ops :: "mem_stream stream_ops" where
  "mem_stream_ops =
     \<lparr>st_async_read = (\<lambda>n t (i, out, op).
          if n = 0 then ((None, []), (i, out, op))
          else if \<not> op then ((Some bad_descriptor, []), (i, out, op))
          else if n \<le> length i then ((None, take n i), (drop n i, out, op))
          else ((Some eof, i), ([], out, op))),
      st_async_write = (\<lambda>bs (i, out, op). if op then (None, (i, out @ bs, op)) else (Some bad_descriptor, (i, out, op))),
      st_is_open = (\<lambda>(i, out, op). op),
      st_close = (\<lambda>(i, out, op). (i, out, False))\<rparr>"

lemma mem_stream_bytes: "byte_stream mem_stream_ops ms_incoming ms_outgoing"
  by (auto simp: byte_stream_def mem_stream_ops_def ms_incoming_def ms_outgoing_def split: if_splits)

lemma mem_stream_prompt: "prompt_stream mem_stream_ops ms_incoming"
  by (auto simp: prompt_stream_def mem_stream_ops_def ms_incoming_def split: if_splits)

lemma mem_stream_closing: "closing_stream mem_stream_ops"
  by (auto simp: closing_stream_def mem_stream_ops_def split: if_splits)

lemma mem_stream_draining: "draining_stream mem_stream_ops"
  by (auto simp: draining_stream_def mem_stream_ops_def)

end
