(* ===== verification/Async_Manager.thy ===== *)
theory Async_Manager
  imports Umap Asio
begin

text \<open>
  \<open>async_manager.hpp\<close>: the table of calls in flight. Each call has a token that travels in the
  request header and a one-slot channel that carries the result back to the waiting coroutine.
  Channels are shared between the table and the waiter (\<open>shared_ptr\<close>), so they live in a heap
  and the table holds references; \<open>'rc\<close> is the library's channel state.
\<close>

section \<open>Definitions\<close>

type_synonym op_result = "error_code option \<times> buffer_type"

record 'rc async_manager =
  next_token :: u64
  channels :: "(u64, nat) umap"
  chan_heap :: "nat \<Rightarrow> 'rc"
  chan_count :: nat

type_synonym 'rc rsp_ops = "('rc, op_result) channel_ops"

definition make_async_manager :: "(nat \<Rightarrow> 'rc) \<Rightarrow> 'rc async_manager" where
  "make_async_manager heap =
     \<lparr>next_token = 1, channels = um_empty, chan_heap = heap, chan_count = 0\<rparr>"

definition generate_token :: "'rc async_manager \<Rightarrow> u64 \<times> 'rc async_manager" where
  "generate_token m = (next_token m, m\<lparr>next_token := next_token m + 1\<rparr>)"

definition create_channel :: "'rc rsp_ops \<Rightarrow> 'rc async_manager \<Rightarrow> nat \<times> 'rc async_manager" where
  "create_channel C m =
     (chan_count m, m\<lparr>chan_heap := (chan_heap m)(chan_count m := ch_make C 1),
                      chan_count := Suc (chan_count m)\<rparr>)"

text \<open>The token and the channel reference: an \<open>operation_token\<close>.\<close>

definition create_operation :: "'rc rsp_ops \<Rightarrow> 'rc async_manager \<Rightarrow> (u64 \<times> nat) \<times> 'rc async_manager" where
  "create_operation C m =
     (let (token, m1) = generate_token m; (ch, m2) = create_channel C m1
      in ((token, ch), m2\<lparr>channels := um_put token ch (channels m2)\<rparr>))"

text \<open>
  \<open>register_handler\<close> registers in the same way and spawns a coroutine that waits on the new
  channel; \<open>(ch, h)\<close> is that coroutine. \<open>run_waiter\<close> is what it does when the channel
  completes.
\<close>

definition register_handler ::
    "'rc rsp_ops \<Rightarrow> 'h \<Rightarrow> 'rc async_manager \<Rightarrow> u64 \<times> (nat \<times> 'h) \<times> 'rc async_manager" where
  "register_handler C h m =
     (let (token, m1) = generate_token m; (ch, m2) = create_channel C m1
      in (token, (ch, h), m2\<lparr>channels := um_put token ch (channels m2)\<rparr>))"

definition run_waiter :: "(op_result \<Rightarrow> 'a) \<Rightarrow> error_code + op_result \<Rightarrow> 'a" where
  "run_waiter h r = (case r of Inr (ec, buf) \<Rightarrow> h (ec, buf) | Inl channel_ec \<Rightarrow> h (Some channel_ec, []))"

text \<open>\<open>async_operation(token, completion_token)\<close> captures its token and does not use it.\<close>

definition async_operation ::
    "'rc rsp_ops \<Rightarrow> u64 \<Rightarrow> 'h \<Rightarrow> 'rc async_manager \<Rightarrow> (nat \<times> 'h) \<times> 'rc async_manager" where
  "async_operation C token h m = (let (t, w, m') = register_handler C h m in (w, m'))"

definition complete_operation ::
    "'rc rsp_ops \<Rightarrow> u64 \<Rightarrow> error_code option \<Rightarrow> buffer_type \<Rightarrow> 'rc async_manager \<Rightarrow>
     bool result \<times> 'rc async_manager" where
  "complete_operation C token ec res m =
     (case um_find (channels m) token of
        None \<Rightarrow> (Inr False, m)
      | Some ch \<Rightarrow>
          let m1 = m\<lparr>channels := um_erase token (channels m)\<rparr>;
              (sec, c') = ch_async_send C (ec, res) (chan_heap m1 ch);
              m2 = m1\<lparr>chan_heap := (chan_heap m1)(ch := c')\<rparr>
          in case sec of None \<Rightarrow> (Inr True, m2) | Some e \<Rightarrow> (Inl (system_error e []), m2))"

definition complete_operation_ok ::
    "'rc rsp_ops \<Rightarrow> u64 \<Rightarrow> buffer_type \<Rightarrow> 'rc async_manager \<Rightarrow> bool result \<times> 'rc async_manager" where
  "complete_operation_ok C token res m = complete_operation C token None res m"

definition complete_operation_with_error ::
    "'rc rsp_ops \<Rightarrow> u64 \<Rightarrow> error_code \<Rightarrow> 'rc async_manager \<Rightarrow> bool result \<times> 'rc async_manager" where
  "complete_operation_with_error C token ec m = complete_operation C token (Some ec) [] m"

definition has_operation :: "u64 \<Rightarrow> 'rc async_manager \<Rightarrow> bool" where
  "has_operation token m \<longleftrightarrow> um_find (channels m) token \<noteq> None"

definition pending_operations_count :: "'rc async_manager \<Rightarrow> nat" where
  "pending_operations_count m = um_size (channels m)"

fun cancel_channels :: "'rc rsp_ops \<Rightarrow> (u64 \<times> nat) list \<Rightarrow> (nat \<Rightarrow> 'rc) \<Rightarrow> (nat \<Rightarrow> 'rc)" where
  "cancel_channels C [] heap = heap"
| "cancel_channels C ((token, ch) # rest) heap =
     cancel_channels C rest (heap(ch := ch_close C (ch_cancel C (heap ch))))"

definition cancel_all_operations :: "'rc rsp_ops \<Rightarrow> 'rc async_manager \<Rightarrow> 'rc async_manager" where
  "cancel_all_operations C m =
     (let channels_copy = channels m; m1 = m\<lparr>channels := um_empty\<rparr>
      in m1\<lparr>chan_heap := cancel_channels C channels_copy (chan_heap m1)\<rparr>)"

section \<open>Invariant\<close>

text \<open>
  Tokens in the table were issued before the next one (as long as the 64-bit counter has not
  wrapped), every reference is to an allocated channel, and no two calls share a channel.
\<close>

definition manager_ok :: "'rc async_manager \<Rightarrow> bool" where
  "manager_ok m \<longleftrightarrow> um_ok (channels m) \<and> 1 \<le> next_token m
     \<and> (\<forall>t ch. um_find (channels m) t = Some ch \<longrightarrow> 1 \<le> t \<and> t < next_token m \<and> ch < chan_count m)
     \<and> inj_on (um_find (channels m)) (dom (um_find (channels m)))"

text \<open>The counter has room for one more token.\<close>

definition token_room :: "'rc async_manager \<Rightarrow> bool" where
  "token_room m \<longleftrightarrow> next_token m \<noteq> - 1"

lemma make_async_manager_ok: "manager_ok (make_async_manager heap)"
  by (simp add: manager_ok_def make_async_manager_def dom_def)

lemma create_operation_eq:
  "create_operation C m =
     ((next_token m, chan_count m),
      m\<lparr>next_token := next_token m + 1, chan_heap := (chan_heap m)(chan_count m := ch_make C 1),
        chan_count := Suc (chan_count m), channels := um_put (next_token m) (chan_count m) (channels m)\<rparr>)"
  by (simp add: create_operation_def generate_token_def create_channel_def Let_def)

lemma create_operation_registers: "create_operation C m = ((t, ch), m') \<Longrightarrow> um_find (channels m') t = Some ch"
  by (auto simp: create_operation_eq)

lemma token_incr:
  assumes "(n :: u64) \<noteq> - 1"
  shows "n < n + 1"
proof -
  have "n + 1 \<noteq> 0"
    using assms by (simp add: add_eq_0_iff2)
  then have "unat (1 + n) = Suc (unat n)"
    by (intro unatSuc) (simp add: add.commute)
  then show ?thesis
    by (simp add: word_less_nat_alt add.commute)
qed

lemma create_operation_ok [inv_intros]:
  assumes "manager_ok m" and "token_room m" and "create_operation C m = ((t, ch), m')"
  shows "manager_ok m'"
proof -
  have incr: "next_token m < next_token m + 1"
    using assms(2) by (intro token_incr) (simp add: token_room_def)
  have m': "m' = m\<lparr>next_token := next_token m + 1, chan_heap := (chan_heap m)(chan_count m := ch_make C 1),
        chan_count := Suc (chan_count m), channels := um_put (next_token m) (chan_count m) (channels m)\<rparr>"
    using assms(3) by (auto simp: create_operation_eq)
  have old: "um_find (channels m) s = Some c \<Longrightarrow> 1 \<le> s \<and> s < next_token m \<and> c < chan_count m" for s c
    using assms(1) by (simp add: manager_ok_def)
  have "inj_on (um_find (channels m')) (dom (um_find (channels m')))"
  proof (rule inj_onI)
    fix x y assume "x \<in> dom (um_find (channels m'))" "um_find (channels m') x = um_find (channels m') y"
    then obtain c where "um_find (channels m') x = Some c" "um_find (channels m') y = Some c"
      by (metis domD)
    then show "x = y"
      using old assms(1) by (auto simp: m' manager_ok_def inj_on_def dom_def split: if_splits)
  qed
  moreover have "1 \<le> next_token m + 1"
    using assms(1) incr unfolding manager_ok_def by (meson less_imp_le order_trans)
  moreover have "1 \<le> s \<and> s < next_token m' \<and> c < chan_count m'" if "um_find (channels m') s = Some c" for s c
  proof (cases "s = next_token m")
    case True
    with that incr assms(1) show ?thesis
      by (auto simp: m' manager_ok_def)
  next
    case False
    with that have "1 \<le> s \<and> s < next_token m \<and> c < chan_count m"
      by (intro old) (simp add: m')
    with incr show ?thesis
      by (auto simp: m' intro: order.strict_trans)
  qed
  ultimately show ?thesis
    using assms(1) by (auto simp: manager_ok_def m')
qed

lemma inj_on_um_erase:
  assumes "inj_on (um_find m) (dom (um_find m))"
  shows "inj_on (um_find (um_erase k m)) (dom (um_find (um_erase k m)))"
  using assms by (auto simp: inj_on_def dom_def split: if_splits)

lemma complete_operation_frame:
  assumes "complete_operation C t ec res m = (r, m')"
  shows "next_token m' = next_token m" and "chan_count m' = chan_count m"
    and "channels m' = (if has_operation t m then um_erase t (channels m) else channels m)"
    and "um_find (channels m) t \<noteq> Some c \<Longrightarrow> chan_heap m' c = chan_heap m c"
  using assms
  by (auto simp: complete_operation_def has_operation_def Let_def case_prod_beta split: option.splits)

lemma complete_operation_keeps_ok [inv_intros]:
  assumes "manager_ok m" and "complete_operation C t ec res m = (r, m')"
  shows "manager_ok m'"
proof -
  note f = complete_operation_frame [OF assms(2)]
  show ?thesis
    using assms(1) inj_on_um_erase [of "channels m" t] by (auto simp: manager_ok_def f split: if_splits)
qed

lemma cancel_all_ok [inv_intros]: "manager_ok m \<Longrightarrow> manager_ok (cancel_all_operations C m)"
  by (simp add: manager_ok_def cancel_all_operations_def Let_def dom_def)

section \<open>The interface of the session\<close>

text \<open>
  What a session asks of its table of pending calls: a new call gets a token no pending call has,
  a completion hits exactly the call with that token and only once, tearing down leaves none.
\<close>

locale pending_calls =
  fixes create :: "'m \<Rightarrow> 'tok \<times> 'm"
    and complete :: "'tok \<Rightarrow> 'r \<Rightarrow> 'm \<Rightarrow> bool result \<times> 'm"
    and cancel_all :: "'m \<Rightarrow> 'm"
    and pending :: "'m \<Rightarrow> 'tok set"
    and ok :: "'m \<Rightarrow> bool"
    and room :: "'m \<Rightarrow> bool"
  assumes create_fresh: "ok m \<Longrightarrow> create m = (t, m') \<Longrightarrow> t \<notin> pending m"
    and create_pending: "ok m \<Longrightarrow> create m = (t, m') \<Longrightarrow> pending m' = insert t (pending m)"
    and create_ok: "ok m \<Longrightarrow> room m \<Longrightarrow> create m = (t, m') \<Longrightarrow> ok m'"
    and complete_pending: "ok m \<Longrightarrow> complete t r m = (res, m') \<Longrightarrow> pending m' = pending m - {t}"
    and complete_unknown: "ok m \<Longrightarrow> t \<notin> pending m \<Longrightarrow> complete t r m = (Inr False, m)"
    and complete_known: "ok m \<Longrightarrow> t \<in> pending m \<Longrightarrow> complete t r m = (res, m') \<Longrightarrow> res \<noteq> Inr False"
    and complete_ok: "ok m \<Longrightarrow> complete t r m = (res, m') \<Longrightarrow> ok m'"
    and cancel_pending: "ok m \<Longrightarrow> pending (cancel_all m) = {}"
    and cancel_ok: "ok m \<Longrightarrow> ok (cancel_all m)"
begin

lemma complete_twice:
  assumes "ok m" and "complete t r m = (res, m')"
  shows "complete t r' m' = (Inr False, m')"
  using complete_ok [OF assms] complete_pending [OF assms] by (intro complete_unknown) auto

lemma complete_after_cancel: "ok m \<Longrightarrow> complete t r (cancel_all m) = (Inr False, cancel_all m)"
  by (rule complete_unknown) (simp_all add: cancel_ok cancel_pending)

lemma complete_other:
  assumes "ok m" and "complete t r m = (res, m')" and "s \<noteq> t"
  shows "s \<in> pending m' \<longleftrightarrow> s \<in> pending m"
  using complete_pending [OF assms(1,2)] assms(3) by simp

end

definition pending_tokens :: "'rc async_manager \<Rightarrow> u64 set" where
  "pending_tokens m = dom (um_find (channels m))"

definition create_token :: "'rc rsp_ops \<Rightarrow> 'rc async_manager \<Rightarrow> u64 \<times> 'rc async_manager" where
  "create_token C m = (let ((t, ch), m') = create_operation C m in (t, m'))"

definition complete_with ::
    "'rc rsp_ops \<Rightarrow> u64 \<Rightarrow> op_result \<Rightarrow> 'rc async_manager \<Rightarrow> bool result \<times> 'rc async_manager" where
  "complete_with C t r m = complete_operation C t (fst r) (snd r) m"

interpretation am: pending_calls "create_token C" "complete_with C"
    "cancel_all_operations C" pending_tokens manager_ok token_room
  for C :: "'rc rsp_ops"
proof unfold_locales
  fix m m' :: "'rc async_manager" and t :: u64
  assume ok: "manager_ok m" and c: "create_token C m = (t, m')"
  then have t: "t = next_token m" and m': "m' = snd (create_operation C m)"
    by (auto simp: create_token_def create_operation_eq)
  show "t \<notin> pending_tokens m"
    using ok by (auto simp: t pending_tokens_def manager_ok_def)
  show "pending_tokens m' = insert t (pending_tokens m)"
    by (simp add: t m' pending_tokens_def create_operation_eq um.dom_put)
  show "manager_ok m'" if "token_room m"
    using create_operation_ok [OF ok that] by (simp add: m' create_operation_eq)
next
  fix m m' :: "'rc async_manager" and t and r :: op_result and res
  assume ok: "manager_ok m"
  show "pending_tokens m' = pending_tokens m - {t}" if c: "complete_with C t r m = (res, m')"
    using c ok complete_operation_frame(3) [of C t "fst r" "snd r" m res m']
    by (auto simp: complete_with_def pending_tokens_def has_operation_def manager_ok_def um.dom_erase)
  show "manager_ok m'" if c: "complete_with C t r m = (res, m')"
    using complete_operation_keeps_ok [OF ok, of C t "fst r" "snd r" res m'] c
    by (simp add: complete_with_def)
  show "complete_with C t r m = (Inr False, m)" if "t \<notin> pending_tokens m"
    using that by (simp add: complete_with_def pending_tokens_def complete_operation_def domIff)
  show "res \<noteq> Inr False" if "t \<in> pending_tokens m" and "complete_with C t r m = (res, m')"
    using that by (auto simp: complete_with_def pending_tokens_def complete_operation_def Let_def case_prod_beta
        split: option.splits)
next
  fix m :: "'rc async_manager"
  assume "manager_ok m"
  then show "manager_ok (cancel_all_operations C m)"
    by (rule cancel_all_ok)
  show "pending_tokens (cancel_all_operations C m) = {}"
    by (simp add: pending_tokens_def cancel_all_operations_def Let_def dom_def)
qed

section \<open>Interleaved use of the table\<close>

text \<open>
  The reader, the callers and the teardown use one table concurrently; each operation holds the
  mutex, so an execution is a sequence of whole operations.
\<close>

datatype am_event =
    Create
  | Complete u64 "error_code option" buffer_type

fun am_apply :: "'rc rsp_ops \<Rightarrow> am_event \<Rightarrow> 'rc async_manager \<Rightarrow> 'rc async_manager" where
  "am_apply C Create m = snd (create_operation C m)"
| "am_apply C (Complete t ec res) m = snd (complete_operation C t ec res m)"

fun am_run :: "'rc rsp_ops \<Rightarrow> am_event list \<Rightarrow> 'rc async_manager \<Rightarrow> 'rc async_manager" where
  "am_run C [] m = m"
| "am_run C (e # es) m = am_run C es (am_apply C e m)"

definition leaves_token :: "u64 \<Rightarrow> am_event \<Rightarrow> bool" where
  "leaves_token t e = (case e of Create \<Rightarrow> True | Complete s ec res \<Rightarrow> s \<noteq> t)"

text \<open>Room for as many tokens as the events can draw.\<close>

definition room_for :: "nat \<Rightarrow> 'rc async_manager \<Rightarrow> bool" where
  "room_for n m \<longleftrightarrow> unat (next_token m) + n < 2 ^ 64"

definition waiting_at :: "u64 \<Rightarrow> nat \<Rightarrow> 'rc \<Rightarrow> 'rc async_manager \<Rightarrow> bool" where
  "waiting_at t ch c m \<longleftrightarrow> manager_ok m \<and> um_find (channels m) t = Some ch \<and> chan_heap m ch = c"

lemma room_for_token_room: "room_for (Suc n) m \<Longrightarrow> token_room m"
  by (auto simp: room_for_def token_room_def unsigned_minus_1_eq_mask mask_eq_exp_minus_1)

lemma room_for_create:
  assumes "room_for (Suc n) m"
  shows "room_for n (snd (create_operation C m))"
proof -
  have "unat (next_token m + 1) = unat (next_token m) + 1"
    using assms by (simp add: room_for_def unat_word_ariths)
  then show ?thesis
    using assms by (simp add: room_for_def create_operation_eq)
qed

lemma room_for_complete: "room_for (Suc n) m \<Longrightarrow> room_for n (snd (complete_operation C t ec res m))"
  by (cases "complete_operation C t ec res m")
     (auto simp: room_for_def dest: complete_operation_frame(1))

lemma waiting_at_create:
  assumes "waiting_at t ch c m" and "token_room m"
  shows "waiting_at t ch c (snd (create_operation C m))"
proof -
  have "manager_ok (snd (create_operation C m))"
    using assms create_operation_ok [of m C] by (simp add: waiting_at_def create_operation_eq)
  moreover have "t \<noteq> next_token m" and "ch \<noteq> chan_count m"
    using assms(1) by (auto simp: waiting_at_def manager_ok_def)
  ultimately show ?thesis
    using assms(1) by (simp add: waiting_at_def create_operation_eq)
qed

lemma waiting_at_complete:
  assumes "waiting_at t ch c m" and "s \<noteq> t"
  shows "waiting_at t ch c (snd (complete_operation C s ec res m))"
proof (cases "complete_operation C s ec res m")
  case (Pair r m')
  note f = complete_operation_frame [OF Pair] and ok = complete_operation_keeps_ok [OF _ Pair]
  have "um_find (channels m) s \<noteq> Some ch"
    using assms by (auto simp: waiting_at_def manager_ok_def inj_on_def dom_def)
  with f(4) assms ok show ?thesis
    by (auto simp: Pair waiting_at_def f(3))
qed

lemma waiting_at_run:
  assumes "waiting_at t ch c m" and "\<forall>e \<in> set es. leaves_token t e" and "room_for (length es) m"
  shows "waiting_at t ch c (am_run C es m)"
  using assms
proof (induction es arbitrary: m)
  case Nil
  then show ?case by simp
next
  case (Cons e es)
  show ?case
  proof (cases e)
    case Create
    then show ?thesis
      using Cons.prems by (simp add: Cons.IH waiting_at_create room_for_create room_for_token_room)
  next
    case (Complete s ec res)
    then show ?thesis
      using Cons.prems by (simp add: Cons.IH waiting_at_complete room_for_complete leaves_token_def)
  qed
qed

section \<open>Delivery\<close>

lemma complete_waiting:
  assumes "fifo_channel C buffered opened" and "prompt_channel C buffered opened"
    and "waiting_at t ch c m" and "opened c" and "buffered c = []"
    and "complete_operation C t ec res m = (r, m')"
  shows "r = Inr True" and "buffered (chan_heap m' ch) = [(ec, res)]" and "opened (chan_heap m' ch)"
proof -
  obtain sec c' where send: "ch_async_send C (ec, res) c = (sec, c')"
    by force
  have "sec = None"
    using assms(2,4,5) send unfolding prompt_channel_def by (metis fst_conv)
  with send have send': "ch_async_send C (ec, res) c = (None, c')"
    by simp
  have "r = Inr True \<and> chan_heap m' ch = c'"
    using assms(3,6) send' by (auto simp: waiting_at_def complete_operation_def)
  with fifo_async_send [OF assms(1) send'] assms(4,5)
  show "r = Inr True" "buffered (chan_heap m' ch) = [(ec, res)]" "opened (chan_heap m' ch)"
    by simp_all
qed

lemma created_waiting:
  assumes "manager_ok m" and "token_room m" and "create_operation C m = ((t, ch), m1)"
  shows "waiting_at t ch (ch_make C 1) m1"
  using create_operation_ok [OF assms] assms(3) by (auto simp: waiting_at_def create_operation_eq)



lemma cancel_channels_closed:
  assumes "fifo_channel C buffered opened"
  shows "ch \<in> snd ` set ps \<or> \<not> opened (heap ch) \<Longrightarrow> \<not> opened (cancel_channels C ps heap ch)"
proof (induction ps arbitrary: heap)
  case (Cons p ps)
  then show ?case
    by (cases p) (auto simp: fifo_close [OF assms])
qed simp

lemma pending_closed:
  assumes "fifo_channel C buffered opened" and "manager_ok m" and "um_find (channels m) t = Some ch"
  shows "\<not> opened (chan_heap (cancel_all_operations C m) ch)"
proof -
  have "(t, ch) \<in> set (channels m)"
    using assms(2,3) um_find_in_set [of "channels m" t ch] by (simp add: manager_ok_def)
  then have "ch \<in> snd ` set (channels m)"
    by force
  then show ?thesis
    by (simp add: cancel_all_operations_def Let_def cancel_channels_closed [OF assms(1)])
qed

text \<open>
  Tearing the table down closes the channel of every pending call, leaves none pending and
  turns every later completion into a no-op that reports \<open>false\<close>.
\<close>

theorem cancel_all_releases_every_call:
  assumes "fifo_channel C buffered opened" and "manager_ok m" and "um_find (channels m) t = Some ch"
  shows "\<not> opened (chan_heap (cancel_all_operations C m) ch)
    \<and> pending_operations_count (cancel_all_operations C m) = 0
    \<and> (\<forall>s ec res. complete_operation C s ec res (cancel_all_operations C m)
          = (Inr False, cancel_all_operations C m))"
proof -
  have "\<not> opened (chan_heap (cancel_all_operations C m) ch)"
    by (rule pending_closed [OF assms])
  moreover have "complete_operation C s ec res (cancel_all_operations C m) = (Inr False, cancel_all_operations C m)"
    for s ec res
    using am.complete_after_cancel [OF assms(2), of C s "(ec, res)"] by (simp add: complete_with_def)
  ultimately show ?thesis
    by (simp add: pending_operations_count_def cancel_all_operations_def Let_def um_size_def um_empty_def)
qed

theorem cancel_all_releases_every_call_witness:
  "\<not> lc_open (chan_heap (cancel_all_operations list_channel_ops
       (snd (create_operation list_channel_ops (make_async_manager (\<lambda>_. ([], 0, False)))))) 0)"
proof -
  let ?m = "make_async_manager (\<lambda>_. ([], 0, False)) :: op_result list_channel async_manager"
  have "manager_ok (snd (create_operation list_channel_ops ?m))"
    by (rule create_operation_ok [OF make_async_manager_ok])
       (simp_all add: token_room_def make_async_manager_def create_operation_eq)
  moreover have "um_find (channels (snd (create_operation list_channel_ops ?m))) 1 = Some 0"
    by (simp add: create_operation_eq make_async_manager_def)
  ultimately show ?thesis
    using cancel_all_releases_every_call [OF list_channel_fifo] by blast
qed

text \<open>
  \<open>async_operation\<close> does not wait for the token it is given. Its waiter is registered under
  a token of its own, so completing the given token never delivers anything to it.
\<close>

theorem async_operation_ignores_its_token:
  assumes "fifo_channel C buffered opened" and "manager_ok m" and "token_room m"
    and "token \<noteq> next_token m"
    and "async_operation C token h m = ((ch, h'), m1)" and "complete_operation C token ec res m1 = (r, m2)"
  shows "um_find (channels m2) (next_token m) = Some ch \<and> buffered (chan_heap m2 ch) = []"
proof -
  have "create_operation C m = ((next_token m, ch), m1)"
    using assms(5) by (auto simp: async_operation_def register_handler_def create_operation_def Let_def
        generate_token_def split: prod.splits)
  from created_waiting [OF assms(2,3) this] have "waiting_at (next_token m) ch (ch_make C 1) m1" .
  from waiting_at_complete [OF this assms(4), of C ec res] show ?thesis
    using fifo_make [OF assms(1)] by (simp add: waiting_at_def assms(6))
qed

theorem async_operation_ignores_its_token_witness:
  "\<exists>m2. complete_operation list_channel_ops 1 None [7] (snd (async_operation list_channel_ops 1 ()
       (snd (create_operation list_channel_ops (make_async_manager (\<lambda>_. ([], 0, False))))))) = (Inr True, m2)
     \<and> lc_buffered (chan_heap m2 1) = []"
proof -
  let ?m0 = "make_async_manager (\<lambda>_. ([], 0, False)) :: op_result list_channel async_manager"
  let ?m = "snd (create_operation list_channel_ops ?m0)"
  have "manager_ok ?m"
    by (rule create_operation_ok [OF make_async_manager_ok])
       (simp_all add: token_room_def make_async_manager_def create_operation_eq)
  moreover have n: "next_token ?m = 2"
    by (simp add: create_operation_eq make_async_manager_def)
  moreover obtain ch h' m1 where a: "async_operation list_channel_ops 1 () ?m = ((ch, h'), m1)"
    by (metis prod.exhaust)
  moreover obtain r m2 where c: "complete_operation list_channel_ops 1 None [7] m1 = (r, m2)"
    by force
  ultimately have "lc_buffered (chan_heap m2 ch) = []"
    using async_operation_ignores_its_token [OF list_channel_fifo, of ?m 1 "()" ch h' m1] by (simp add: token_room_def)
  moreover have "ch = 1 \<and> r = Inr True"
    using a c by (auto simp: async_operation_def register_handler_def Let_def generate_token_def create_channel_def
        make_async_manager_def create_operation_eq complete_operation_def list_channel_ops_def split: option.splits)
  ultimately show ?thesis
    using a c by simp
qed

end
