(* ===== verification/Session.thy ===== *)
theory Session
  imports Dispatcher Async_Manager
begin

text \<open>
  \<open>session.hpp\<close>: one connection. A reader coroutine parses frames and hands them on, a writer
  coroutine drains the write channel into the stream, requests run as detached tasks and
  notifications on a strand. The state record has the data members; work posted to an executor is
  a list of tasks, and each resumption of a coroutine is one function on the state. The stream and
  the channels are the library's (operations in \<open>session_env\<close>), as are the texts of error codes
  and exceptions.
\<close>

section \<open>Frames\<close>

type_synonym header_type = "u64 list"

record write_item =
  wi_header :: header_type
  wi_body :: buffer_type

definition MAGIC_HEADER_NUMBER :: u64 where "MAGIC_HEADER_NUMBER = 0xBADC0FFEE"
definition MAGIC_HEADER_IDX :: nat where [simp]: "MAGIC_HEADER_IDX = 0"
definition MSG_SIZE_IDX :: nat where [simp]: "MSG_SIZE_IDX = 1"
definition MSG_TYPE_IDX :: nat where [simp]: "MSG_TYPE_IDX = 2"
definition CALL_ID_IDX :: nat where [simp]: "CALL_ID_IDX = 3"
definition USER_TOKEN_IDX :: nat where [simp]: "USER_TOKEN_IDX = 4"

datatype msg_type = nop | request | response | notification | error | ping | pong

fun msg_code :: "msg_type \<Rightarrow> u64" where
  "msg_code nop = 0"
| "msg_code request = 1"
| "msg_code response = 2"
| "msg_code notification = 3"
| "msg_code error = 4"
| "msg_code ping = 5"
| "msg_code pong = 6"

text \<open>
  \<open>static_cast<msg_type>(w >> 32)\<close>: the enumeration's underlying type is 32 bits wide;
  \<open>None\<close> is a value that no enumerator has.
\<close>

definition to_msg_type :: "u64 \<Rightarrow> msg_type option" where
  "to_msg_type w =
     (let v = (ucast (drop_bit 32 w) :: u32) in
      if v = 0 then Some nop else if v = 1 then Some request else if v = 2 then Some response
      else if v = 3 then Some notification else if v = 4 then Some error
      else if v = 5 then Some ping else if v = 6 then Some pong else None)"

fun msg_type_to_string :: "msg_type option \<Rightarrow> string" where
  "msg_type_to_string (Some nop) = ''nop''"
| "msg_type_to_string (Some request) = ''request''"
| "msg_type_to_string (Some response) = ''response''"
| "msg_type_to_string (Some notification) = ''notification''"
| "msg_type_to_string (Some error) = ''error''"
| "msg_type_to_string (Some ping) = ''ping''"
| "msg_type_to_string (Some pong) = ''pong''"
| "msg_type_to_string None = ''unknown''"

text \<open>The five assignments with which every outgoing header is filled.\<close>

definition make_header :: "msg_type \<Rightarrow> u64 \<Rightarrow> u64 \<Rightarrow> u64 \<Rightarrow> header_type" where
  "make_header mt sz call_id token =
     (replicate 5 0)[MAGIC_HEADER_IDX := MAGIC_HEADER_NUMBER, MSG_SIZE_IDX := sz,
       MSG_TYPE_IDX := push_bit 32 (msg_code mt), CALL_ID_IDX := call_id, USER_TOKEN_IDX := token]"

text \<open>The header goes over the wire as the memory image of its array.\<close>

definition header_bytes :: "platform \<Rightarrow> header_type \<Rightarrow> buffer_type" where
  "header_bytes P h = concat (map (mem_of_word P 8) h)"

fun header_of_bytes :: "platform \<Rightarrow> nat \<Rightarrow> buffer_type \<Rightarrow> header_type" where
  "header_of_bytes P 0 bs = []"
| "header_of_bytes P (Suc n) bs = word_of_mem P (take 8 bs) # header_of_bytes P n (drop 8 bs)"

definition frame_bytes :: "platform \<Rightarrow> write_item \<Rightarrow> buffer_type" where
  "frame_bytes P item = header_bytes P (wi_header item) @ wi_body item"

section \<open>State\<close>

type_synonym 'app notification_callback_type = "u64 \<Rightarrow> buffer_type \<Rightarrow> 'app \<Rightarrow> unit result \<times> 'app"

text \<open>
  A request task before its handler ran, and between the handler's outcome and the reply
  (\<open>None\<close> is \<open>send_error\<close>).
\<close>

datatype request_task =
    Spawned header_type buffer_type
  | Replying header_type "buffer_type option"

record ('st, 'wc, 'rc, 'app) session =
  stream :: 'st
  async_mgr :: "'rc async_manager"
  write_channel :: 'wc
  notification_callback :: "'app notification_callback_type option"
  is_closed :: bool
  limits :: session_limits
  peer_fingerprint :: string
  peer_address :: string
  peer_ip :: string
  logical_session_id :: string
  logical_device_id :: string
  logical_role :: int
  request_bucket :: token_bucket
  request_tasks :: "request_task list"
  notification_strand :: "(u64 \<times> buffer_type) list"
  logged :: "string list"

record ('st, 'wc, 'rc, 'v, 'app) session_env =
  cereal :: cereal_env
  st_ops :: "'st stream_ops"
  wc_ops :: "('wc, write_item) channel_ops"
  rc_ops :: "'rc rsp_ops"
  session_dispatcher :: "('v, 'app) dispatcher"
  ec_message :: "error_code \<Rightarrow> string"
  ec_category :: "error_code \<Rightarrow> string"
  ec_value :: "error_code \<Rightarrow> int"
  what :: "exn \<Rightarrow> string"

abbreviation env_plat :: "('st, 'wc, 'rc, 'v, 'app) session_env \<Rightarrow> platform" where
  "env_plat E \<equiv> env_platform (cereal E)"

text \<open>An error code as the coroutines log it: its message, category and value.\<close>

definition ec_details :: "('st, 'wc, 'rc, 'v, 'app) session_env \<Rightarrow> error_code \<Rightarrow> string" where
  "ec_details E ec =
     ec_message E ec @ '' [cat='' @ ec_category E ec @ '' val='' @ to_string_int (ec_value E ec) @ '']''"

text \<open>How a coroutine's loop goes on after one iteration.\<close>

datatype loop_status = Continue | Waiting | Exited

definition make_session ::
    "('st, 'wc, 'rc, 'v, 'app) session_env \<Rightarrow> 'st \<Rightarrow> (nat \<Rightarrow> 'rc) \<Rightarrow> session_limits \<Rightarrow>
     ('st, 'wc, 'rc, 'app) session" where
  "make_session E st heap lims =
     \<lparr>stream = st, async_mgr = make_async_manager heap, write_channel = ch_make (wc_ops E) 256,
      notification_callback = None, is_closed = False, limits = lims,
      peer_fingerprint = [], peer_address = [], peer_ip = [],
      logical_session_id = [], logical_device_id = [], logical_role = - 1,
      request_bucket = default_token_bucket\<lparr>capacity := request_burst lims, refill_per_sec := request_rate_ps lims\<rparr>,
      request_tasks = [], notification_strand = [], logged = []\<rparr>"

text \<open>The members the channel and the application set.\<close>

definition set_peer_fingerprint :: "string \<Rightarrow> ('st, 'wc, 'rc, 'app) session \<Rightarrow> ('st, 'wc, 'rc, 'app) session" where
  "set_peer_fingerprint fp s = s\<lparr>peer_fingerprint := fp\<rparr>"

definition set_peer_address :: "string \<Rightarrow> ('st, 'wc, 'rc, 'app) session \<Rightarrow> ('st, 'wc, 'rc, 'app) session" where
  "set_peer_address addr s = s\<lparr>peer_address := addr\<rparr>"

definition set_peer_ip :: "string \<Rightarrow> ('st, 'wc, 'rc, 'app) session \<Rightarrow> ('st, 'wc, 'rc, 'app) session" where
  "set_peer_ip ip s = s\<lparr>peer_ip := ip\<rparr>"

definition set_notification_callback ::
    "'app notification_callback_type option \<Rightarrow> ('st, 'wc, 'rc, 'app) session \<Rightarrow> ('st, 'wc, 'rc, 'app) session" where
  "set_notification_callback cb s = s\<lparr>notification_callback := cb\<rparr>"

fun apply_ctx_action :: "ctx_action \<Rightarrow> ('st, 'wc, 'rc, 'app) session \<Rightarrow> ('st, 'wc, 'rc, 'app) session" where
  "apply_ctx_action (set_logical_session_id i) s = s\<lparr>logical_session_id := i\<rparr>"
| "apply_ctx_action (set_logical_device_id i) s = s\<lparr>logical_device_id := i\<rparr>"
| "apply_ctx_action (set_logical_role r) s = s\<lparr>logical_role := r\<rparr>"

definition log_error_async :: "string \<Rightarrow> ('st, 'wc, 'rc, 'app) session \<Rightarrow> ('st, 'wc, 'rc, 'app) session" where
  "log_error_async message s = s\<lparr>logged := logged s @ [message]\<rparr>"

lemma log_error_async_simps [simp]:
  "stream (log_error_async m s) = stream s"
  "async_mgr (log_error_async m s) = async_mgr s"
  "write_channel (log_error_async m s) = write_channel s"
  "notification_callback (log_error_async m s) = notification_callback s"
  "is_closed (log_error_async m s) = is_closed s"
  "limits (log_error_async m s) = limits s"
  "peer_fingerprint (log_error_async m s) = peer_fingerprint s"
  "peer_address (log_error_async m s) = peer_address s"
  "peer_ip (log_error_async m s) = peer_ip s"
  "logical_session_id (log_error_async m s) = logical_session_id s"
  "logical_device_id (log_error_async m s) = logical_device_id s"
  "logical_role (log_error_async m s) = logical_role s"
  "request_bucket (log_error_async m s) = request_bucket s"
  "request_tasks (log_error_async m s) = request_tasks s"
  "notification_strand (log_error_async m s) = notification_strand s"
  by (simp_all add: log_error_async_def)

section \<open>Sending\<close>

definition queue_write ::
    "('st, 'wc, 'rc, 'v, 'app) session_env \<Rightarrow> header_type \<Rightarrow> buffer_type \<Rightarrow>
     ('st, 'wc, 'rc, 'app) session \<Rightarrow> unit result \<times> ('st, 'wc, 'rc, 'app) session" where
  "queue_write E h body s =
     (case ch_async_send (wc_ops E) \<lparr>wi_header = h, wi_body = body\<rparr> (write_channel s) of
        (None, c) \<Rightarrow> (Inr (), s\<lparr>write_channel := c\<rparr>)
      | (Some ec, c) \<Rightarrow> (Inl (system_error ec []), s\<lparr>write_channel := c\<rparr>))"

definition try_write ::
    "('st, 'wc, 'rc, 'v, 'app) session_env \<Rightarrow> header_type \<Rightarrow> buffer_type \<Rightarrow>
     ('st, 'wc, 'rc, 'app) session \<Rightarrow> bool \<times> ('st, 'wc, 'rc, 'app) session" where
  "try_write E h body s =
     (let (ok, c) = ch_try_send (wc_ops E) \<lparr>wi_header = h, wi_body = body\<rparr> (write_channel s)
      in (ok, s\<lparr>write_channel := c\<rparr>))"

text \<open>
  \<open>call\<close> up to its suspension: register the operation and queue the request. An exception of
  \<open>queue_write\<close> leaves the operation registered.
\<close>

definition call_begin ::
    "('st, 'wc, 'rc, 'v, 'app) session_env \<Rightarrow> string \<Rightarrow> buffer_type \<Rightarrow>
     ('st, 'wc, 'rc, 'app) session \<Rightarrow> (u64 \<times> nat) result \<times> ('st, 'wc, 'rc, 'app) session" where
  "call_begin E call_name req_buffer s =
     (let call_id = shash64 (env_plat E) call_name;
          ((token, ch), m) = create_operation (rc_ops E) (async_mgr s);
          req_header = make_header request (of_nat (length req_buffer)) call_id token
      in case queue_write E req_header req_buffer (s\<lparr>async_mgr := m\<rparr>) of
           (Inl e, s') \<Rightarrow> (Inl e, s')
         | (Inr _, s') \<Rightarrow> (Inr (token, ch), s'))"

text \<open>
  The timer handler (it runs only when the wait was not cancelled): if the call has not finished it
  records the timeout and cancels the channel.
\<close>

definition call_timer_fired ::
    "('st, 'wc, 'rc, 'v, 'app) session_env \<Rightarrow> nat \<Rightarrow> bool \<Rightarrow> ('st, 'wc, 'rc, 'app) session \<Rightarrow>
     bool \<times> ('st, 'wc, 'rc, 'app) session" where
  "call_timer_fired E ch finished s =
     (if finished then (False, s)
      else let m = async_mgr s
           in (True, s\<lparr>async_mgr := m\<lparr>chan_heap := (chan_heap m)(ch := ch_cancel (rc_ops E) (chan_heap m ch))\<rparr>\<rparr>))"

text \<open>\<open>call\<close> after its receive completed with \<open>r\<close>.\<close>

definition call_finish :: "string \<Rightarrow> bool \<Rightarrow> error_code + op_result \<Rightarrow> buffer_type result" where
  "call_finish call_name did_time_out r =
     (if did_time_out then Inl (runtime_error (''RPC call timeout: '' @ call_name))
      else case r of
        Inl channel_ec \<Rightarrow> Inl (system_error channel_ec ''RPC call failed'')
      | Inr (Some ec, buffer) \<Rightarrow>
          if ec = timed_out then Inl (runtime_error (''RPC call timeout: '' @ call_name))
          else Inl (system_error ec ''RPC call failed'')
      | Inr (None, buffer) \<Rightarrow> Inr buffer)"

text \<open>
  The completion of the receive a call waits in: with an item, with the error of a closed channel, or,
  once the timer has cancelled the channel, with \<open>channel_cancelled\<close>; \<open>None\<close> while it waits.
\<close>

definition call_receive ::
    "('st, 'wc, 'rc, 'v, 'app) session_env \<Rightarrow> string \<Rightarrow> bool \<Rightarrow> nat \<Rightarrow> ('st, 'wc, 'rc, 'app) session \<Rightarrow>
     (buffer_type result \<times> ('st, 'wc, 'rc, 'app) session) option" where
  "call_receive E call_name did_time_out ch s =
     (let m = async_mgr s in
      case ch_async_receive (rc_ops E) (chan_heap m ch) of
        None \<Rightarrow> if did_time_out then Some (call_finish call_name did_time_out (Inl channel_cancelled), s) else None
      | Some (r, c) \<Rightarrow> Some (call_finish call_name did_time_out r,
                          s\<lparr>async_mgr := m\<lparr>chan_heap := (chan_heap m)(ch := c)\<rparr>\<rparr>))"

definition notify ::
    "('st, 'wc, 'rc, 'v, 'app) session_env \<Rightarrow> string \<Rightarrow> buffer_type \<Rightarrow>
     ('st, 'wc, 'rc, 'app) session \<Rightarrow> unit result \<times> ('st, 'wc, 'rc, 'app) session" where
  "notify E call_name buffer s =
     queue_write E (make_header notification (of_nat (length buffer)) (shash64 (env_plat E) call_name) 0) buffer s"

definition try_ping ::
    "('st, 'wc, 'rc, 'v, 'app) session_env \<Rightarrow> ('st, 'wc, 'rc, 'app) session \<Rightarrow>
     bool \<times> ('st, 'wc, 'rc, 'app) session" where
  "try_ping E s = try_write E (make_header ping 0 0 0) [] s"

definition try_notify ::
    "('st, 'wc, 'rc, 'v, 'app) session_env \<Rightarrow> string \<Rightarrow> buffer_type \<Rightarrow>
     ('st, 'wc, 'rc, 'app) session \<Rightarrow> bool \<times> ('st, 'wc, 'rc, 'app) session" where
  "try_notify E call_name buffer s =
     try_write E (make_header notification (of_nat (length buffer)) (shash64 (env_plat E) call_name) 0) buffer s"

definition respond ::
    "('st, 'wc, 'rc, 'v, 'app) session_env \<Rightarrow> msg_type \<Rightarrow> header_type \<Rightarrow> buffer_type \<Rightarrow>
     ('st, 'wc, 'rc, 'app) session \<Rightarrow> unit result \<times> ('st, 'wc, 'rc, 'app) session" where
  "respond E msgtype related_msg rsp_buffer s =
     queue_write E (make_header msgtype (of_nat (length rsp_buffer))
        (related_msg ! CALL_ID_IDX) (related_msg ! USER_TOKEN_IDX)) rsp_buffer s"

section \<open>Teardown and the writer\<close>

text \<open>The em dash of the log texts, in UTF-8.\<close>

definition em_dash :: string where
  "em_dash = [CHR 0xE2, CHR 0x80, CHR 0x94]"

definition close ::
    "('st, 'wc, 'rc, 'v, 'app) session_env \<Rightarrow> ('st, 'wc, 'rc, 'app) session \<Rightarrow>
     ('st, 'wc, 'rc, 'app) session" where
  "close E s =
     (if is_closed s then s
      else let s1 = s\<lparr>is_closed := True\<rparr>;
               s2 = log_error_async (''rpc::session: close() '' @ em_dash @ '' tearing down (peer=''
                      @ peer_address s1 @ '')'') s1;
               s3 = s2\<lparr>write_channel := ch_close (wc_ops E) (write_channel s2)\<rparr>;
               s4 = s3\<lparr>async_mgr := cancel_all_operations (rc_ops E) (async_mgr s3)\<rparr>
           in s4\<lparr>stream := st_close (st_ops E) (stream s4)\<rparr>)"

definition msg_writer_step ::
    "('st, 'wc, 'rc, 'v, 'app) session_env \<Rightarrow> ('st, 'wc, 'rc, 'app) session \<Rightarrow>
     loop_status \<times> ('st, 'wc, 'rc, 'app) session" where
  "msg_writer_step E s =
     (case ch_async_receive (wc_ops E) (write_channel s) of
        None \<Rightarrow> (Waiting, s)
      | Some (Inl ec, c) \<Rightarrow> (Exited, close E (s\<lparr>write_channel := c\<rparr>))
      | Some (Inr item, c) \<Rightarrow>
          (case st_async_write (st_ops E) (frame_bytes (env_plat E) item) (stream s) of
             (None, st) \<Rightarrow> (Continue, s\<lparr>write_channel := c, stream := st\<rparr>)
           | (Some ec, st) \<Rightarrow>
               (Exited, close E (log_error_async (''msg_writer exiting (peer='' @ peer_address s
                  @ ''): '' @ ec_details E ec) (s\<lparr>write_channel := c, stream := st\<rparr>)))))"

definition dispatch_requests ::
    "('st, 'wc, 'rc, 'v, 'app) session_env \<Rightarrow> error_code option \<Rightarrow> ('st, 'wc, 'rc, 'app) session \<Rightarrow>
     bool \<times> ('st, 'wc, 'rc, 'app) session" where
  "dispatch_requests E nd_ec s =
     (if \<not> st_is_open (st_ops E) (stream s) then (False, s)
      else (True, case nd_ec of None \<Rightarrow> s
             | Some ec \<Rightarrow> log_error_async (''could not set TCP_NODELAY (peer='' @ peer_address s
                            @ ''): '' @ ec_message E ec) s))"

section \<open>The reader\<close>

definition deadline_read ::
    "('st, 'wc, 'rc, 'v, 'app) session_env \<Rightarrow> nat \<Rightarrow> int \<Rightarrow> ('st, 'wc, 'rc, 'app) session \<Rightarrow>
     buffer_type result \<times> ('st, 'wc, 'rc, 'app) session" where
  "deadline_read E sz timeout s =
     (case st_async_read (st_ops E) sz timeout (stream s) of
        ((Some ec, bs), st) \<Rightarrow>
          (Inl (system_error (if ec = operation_aborted then timed_out else ec) ''deadline_read''), s\<lparr>stream := st\<rparr>)
      | ((None, bs), st) \<Rightarrow> (Inr bs, s\<lparr>stream := st\<rparr>))"

definition dispatch_request ::
    "('st, 'wc, 'rc, 'v, 'app) session_env \<Rightarrow> int \<Rightarrow> header_type \<Rightarrow>
     ('st, 'wc, 'rc, 'app) session \<Rightarrow> unit result \<times> ('st, 'wc, 'rc, 'app) session" where
  "dispatch_request E now req_header s =
     (let req_size = req_header ! MSG_SIZE_IDX in
      if req_size > max_message_bytes (limits s)
      then (case respond E error req_header []
                   (log_error_async (''Rejecting oversized request: '' @ to_string (unat req_size)
                      @ '' > limit '' @ to_string (unat (max_message_bytes (limits s)))) s) of
              (Inl e, s') \<Rightarrow> (Inl e, s')
            | (Inr _, s') \<Rightarrow> (Inr (), close E s'))
      else
        let (ok, b) = try_take 1 now (request_bucket s); s1 = s\<lparr>request_bucket := b\<rparr> in
        if \<not> ok
        then (case deadline_read E (unat req_size) (message_read_timeout (limits s1))
                     (log_error_async ''Request rate limit exceeded'' s1) of
                (Inl e, s2) \<Rightarrow> (Inl e, s2)
              | (Inr _, s2) \<Rightarrow> respond E error req_header [] s2)
        else (case deadline_read E (unat req_size) (message_read_timeout (limits s1)) s1 of
                (Inl e, s2) \<Rightarrow> (Inl e, s2)
              | (Inr req_buffer, s2) \<Rightarrow>
                  (Inr (), s2\<lparr>request_tasks := request_tasks s2 @ [Spawned req_header req_buffer]\<rparr>)))"

definition run_complete ::
    "bool result \<times> 'rc async_manager \<Rightarrow> ('st, 'wc, 'rc, 'app) session \<Rightarrow>
     unit result \<times> ('st, 'wc, 'rc, 'app) session" where
  "run_complete rm s =
     (case rm of (Inl e, m) \<Rightarrow> (Inl e, s\<lparr>async_mgr := m\<rparr>) | (Inr _, m) \<Rightarrow> (Inr (), s\<lparr>async_mgr := m\<rparr>))"

definition handle_response ::
    "('st, 'wc, 'rc, 'v, 'app) session_env \<Rightarrow> header_type \<Rightarrow>
     ('st, 'wc, 'rc, 'app) session \<Rightarrow> unit result \<times> ('st, 'wc, 'rc, 'app) session" where
  "handle_response E resp_header s =
     (let rsp_size = resp_header ! MSG_SIZE_IDX in
      if rsp_size > max_message_bytes (limits s)
      then (Inr (), close E (log_error_async (''Rejecting oversized response: '' @ to_string (unat rsp_size)
              @ '' > limit '' @ to_string (unat (max_message_bytes (limits s)))) s))
      else case deadline_read E (unat rsp_size) (message_read_timeout (limits s)) s of
             (Inl e, s1) \<Rightarrow> (Inl e, s1)
           | (Inr rsp_buffer, s1) \<Rightarrow>
               run_complete (complete_operation_ok (rc_ops E) (resp_header ! USER_TOKEN_IDX) rsp_buffer (async_mgr s1)) s1)"

definition handle_notification ::
    "('st, 'wc, 'rc, 'v, 'app) session_env \<Rightarrow> header_type \<Rightarrow>
     ('st, 'wc, 'rc, 'app) session \<Rightarrow> unit result \<times> ('st, 'wc, 'rc, 'app) session" where
  "handle_notification E msg_header s =
     (let call_id = msg_header ! CALL_ID_IDX; req_size = msg_header ! MSG_SIZE_IDX in
      if req_size > max_message_bytes (limits s)
      then (Inr (), close E (log_error_async (''Rejecting oversized notification: '' @ to_string (unat req_size)
              @ '' > limit '' @ to_string (unat (max_message_bytes (limits s)))) s))
      else case deadline_read E (unat req_size) (message_read_timeout (limits s)) s of
             (Inl e, s1) \<Rightarrow> (Inl e, s1)
           | (Inr buffer, s1) \<Rightarrow>
               (Inr (), s1\<lparr>notification_strand := notification_strand s1 @ [(call_id, buffer)]\<rparr>))"

definition handle_error ::
    "('st, 'wc, 'rc, 'v, 'app) session_env \<Rightarrow> header_type \<Rightarrow>
     ('st, 'wc, 'rc, 'app) session \<Rightarrow> unit result \<times> ('st, 'wc, 'rc, 'app) session" where
  "handle_error E related_msg s =
     (let s0 = log_error_async ''Received error message'' s;
          err_size = related_msg ! MSG_SIZE_IDX;
          finish = (\<lambda>s1. run_complete (complete_operation_with_error (rc_ops E)
                      (related_msg ! USER_TOKEN_IDX) invalid_argument_ec (async_mgr s1)) s1)
      in if err_size > 0
         then if err_size > max_message_bytes (limits s0)
              then (Inr (), close E (log_error_async (''Rejecting oversized error frame: ''
                      @ to_string (unat err_size)) s0))
              else case deadline_read E (unat err_size) (message_read_timeout (limits s0)) s0 of
                     (Inl e, s1) \<Rightarrow> (Inl e, s1)
                   | (Inr scratch, s1) \<Rightarrow> finish s1
         else finish s0)"

text \<open>The handlers of \<open>msg_reader\<close>: log by kind of exception, then close.\<close>

definition reader_catch ::
    "('st, 'wc, 'rc, 'v, 'app) session_env \<Rightarrow> exn \<Rightarrow> ('st, 'wc, 'rc, 'app) session \<Rightarrow>
     ('st, 'wc, 'rc, 'app) session" where
  "reader_catch E e s =
     close E (log_error_async
       (case e of
          system_error ec m \<Rightarrow>
            if ec = eof \<or> ec = connection_reset \<or> ec = broken_pipe \<or> ec = operation_aborted
            then ''Connection closed: '' @ ec_message E ec
            else ''Unexpected error in msg_reader: '' @ ec_details E ec
        | _ \<Rightarrow> if is_std_exception e then ''Exception in msg_reader: '' @ what E e
               else ''Unknown exception in msg_reader'') s)"

definition reader_continue ::
    "('st, 'wc, 'rc, 'v, 'app) session_env \<Rightarrow> unit result \<times> ('st, 'wc, 'rc, 'app) session \<Rightarrow>
     loop_status \<times> ('st, 'wc, 'rc, 'app) session" where
  "reader_continue E rs =
     (case rs of (Inl e, s) \<Rightarrow> (Exited, reader_catch E e s) | (Inr _, s) \<Rightarrow> (Continue, s))"

definition msg_reader_frame ::
    "('st, 'wc, 'rc, 'v, 'app) session_env \<Rightarrow> int \<Rightarrow> header_type \<Rightarrow>
     ('st, 'wc, 'rc, 'app) session \<Rightarrow> loop_status \<times> ('st, 'wc, 'rc, 'app) session" where
  "msg_reader_frame E now msg_header s =
     (if MAGIC_HEADER_NUMBER \<noteq> msg_header ! MAGIC_HEADER_IDX
      then (Exited, close E (log_error_async
              (''Invalid magic header (stream desync) '' @ em_dash @ '' closing session'') s))
      else case to_msg_type (msg_header ! MSG_TYPE_IDX) of
        Some nop \<Rightarrow> (Continue, s)
      | Some ping \<Rightarrow> (Continue, snd (try_write E (make_header pong 0 0 0) [] s))
      | Some pong \<Rightarrow> (Continue, s)
      | Some request \<Rightarrow> reader_continue E (dispatch_request E now msg_header s)
      | Some response \<Rightarrow> reader_continue E (handle_response E msg_header s)
      | Some notification \<Rightarrow> reader_continue E (handle_notification E msg_header s)
      | Some error \<Rightarrow> reader_continue E (handle_error E msg_header s)
      | None \<Rightarrow> (Exited, close E (log_error_async (''Unknown message type ''
                  @ to_string (unat (ucast (drop_bit 32 (msg_header ! MSG_TYPE_IDX)) :: u32))
                  @ '' '' @ em_dash @ '' closing session'') s)))"

definition msg_reader_step ::
    "('st, 'wc, 'rc, 'v, 'app) session_env \<Rightarrow> int \<Rightarrow> ('st, 'wc, 'rc, 'app) session \<Rightarrow>
     loop_status \<times> ('st, 'wc, 'rc, 'app) session" where
  "msg_reader_step E now s =
     (case deadline_read E 40 (idle_timeout (limits s)) s of
        (Inl e, s1) \<Rightarrow> (Exited, reader_catch E e s1)
      | (Inr bs, s1) \<Rightarrow> msg_reader_frame E now (header_of_bytes (env_plat E) 5 bs) s1)"

section \<open>Detached work\<close>

definition request_ctx :: "('st, 'wc, 'rc, 'app) session \<Rightarrow> client_context" where
  "request_ctx s =
     \<lparr>ctx_peer_fingerprint = peer_fingerprint s, ctx_peer_address = peer_address s, ctx_peer_ip = peer_ip s,
      ctx_logical_session_id = logical_session_id s, ctx_logical_device_id = logical_device_id s,
      ctx_logical_role = logical_role s\<rparr>"

definition log_dispatch_error ::
    "('st, 'wc, 'rc, 'v, 'app) session_env \<Rightarrow> exn \<Rightarrow> ('st, 'wc, 'rc, 'app) session \<Rightarrow>
     ('st, 'wc, 'rc, 'app) session" where
  "log_dispatch_error E e s =
     log_error_async (if is_std_exception e then ''Request dispatch error: '' @ what E e
                      else ''Unknown request dispatch error'') s"

text \<open>
  The request task up to its reply: build the context, choose the overload, run the handler (which
  sees the context through \<open>current_call_context()\<close>), and reply or report.
\<close>

definition run_handler ::
    "('st, 'wc, 'rc, 'v, 'app) session_env \<Rightarrow> header_type \<Rightarrow> buffer_type \<Rightarrow>
     ('st, 'wc, 'rc, 'app) session \<Rightarrow> 'app \<Rightarrow>
     request_task \<times> ('st, 'wc, 'rc, 'app) session \<times> 'app" where
  "run_handler E req_header req_buffer s app =
     (let call_id = req_header ! CALL_ID_IDX; ctx = request_ctx s;
          (r, acts, app') =
            (if is_async (session_dispatcher E) call_id
             then dispatch_async_ctx (cereal E) (session_dispatcher E) call_id req_buffer ctx (Some ctx) app
             else dispatch_ctx (cereal E) (session_dispatcher E) call_id req_buffer ctx (Some ctx) app);
          s' = fold apply_ctx_action acts s
      in case r of
           Inr rsp_buffer \<Rightarrow> (Replying req_header (Some rsp_buffer), s', app')
         | Inl e \<Rightarrow> (Replying req_header None, log_dispatch_error E e s', app'))"

definition send_error_reply ::
    "('st, 'wc, 'rc, 'v, 'app) session_env \<Rightarrow> header_type \<Rightarrow>
     ('st, 'wc, 'rc, 'app) session \<Rightarrow> ('st, 'wc, 'rc, 'app) session" where
  "send_error_reply E req_header s = snd (respond E error req_header [] s)"

definition send_reply ::
    "('st, 'wc, 'rc, 'v, 'app) session_env \<Rightarrow> header_type \<Rightarrow> buffer_type option \<Rightarrow>
     ('st, 'wc, 'rc, 'app) session \<Rightarrow> ('st, 'wc, 'rc, 'app) session" where
  "send_reply E req_header rsp s =
     (case rsp of
        None \<Rightarrow> send_error_reply E req_header s
      | Some rsp_buffer \<Rightarrow>
          (case respond E response req_header rsp_buffer s of
             (Inr _, s') \<Rightarrow> s'
           | (Inl e, s') \<Rightarrow> send_error_reply E req_header (log_dispatch_error E e s')))"

text \<open>One step of the task at index \<open>i\<close> of the executor's list.\<close>

definition remove_nth :: "nat \<Rightarrow> 'a list \<Rightarrow> 'a list" where
  "remove_nth i xs = take i xs @ drop (Suc i) xs"

definition request_task_step ::
    "('st, 'wc, 'rc, 'v, 'app) session_env \<Rightarrow> nat \<Rightarrow> ('st, 'wc, 'rc, 'app) session \<Rightarrow> 'app \<Rightarrow>
     ('st, 'wc, 'rc, 'app) session \<times> 'app" where
  "request_task_step E i s app =
     (case request_tasks s ! i of
        Spawned h buf \<Rightarrow>
          (let (t, s', app') = run_handler E h buf s app
           in (s'\<lparr>request_tasks := (request_tasks s')[i := t]\<rparr>, app'))
      | Replying h rsp \<Rightarrow> (send_reply E h rsp (s\<lparr>request_tasks := remove_nth i (request_tasks s)\<rparr>), app))"

text \<open>
  The notification task. On the server side (no callback) it uses the overload of \<open>dispatch\<close>
  that takes no context. A strand thread has no call context, so there is nothing a handler
  could set.
\<close>

definition run_notification ::
    "('st, 'wc, 'rc, 'v, 'app) session_env \<Rightarrow> u64 \<Rightarrow> buffer_type \<Rightarrow>
     ('st, 'wc, 'rc, 'app) session \<Rightarrow> 'app \<Rightarrow> ('st, 'wc, 'rc, 'app) session \<times> 'app" where
  "run_notification E call_id buffer_data s app =
     (let (r, app') =
        (case notification_callback s of
           Some cb \<Rightarrow> cb call_id buffer_data app
         | None \<Rightarrow>
             (case dispatch (cereal E) (session_dispatcher E) call_id buffer_data None app of
                (Inl e, acts, app') \<Rightarrow> (Inl e, app') | (Inr rsp, acts, app') \<Rightarrow> (Inr (), app')))
      in case r of
           Inr _ \<Rightarrow> (s, app')
         | Inl e \<Rightarrow> (log_error_async (if is_std_exception e then ''Notification handling error: '' @ what E e
                      else ''Unknown notification handling error'') s, app'))"

definition notification_step ::
    "('st, 'wc, 'rc, 'v, 'app) session_env \<Rightarrow> ('st, 'wc, 'rc, 'app) session \<Rightarrow> 'app \<Rightarrow>
     ('st, 'wc, 'rc, 'app) session \<times> 'app" where
  "notification_step E s app =
     (case notification_strand s of
        [] \<Rightarrow> (s, app)
      | (call_id, buffer) # rest \<Rightarrow>
          run_notification E call_id buffer (s\<lparr>notification_strand := rest\<rparr>) app)"

end
