(* ===== verification/Channels.thy ===== *)
theory Channels
  imports Session
begin

text \<open>
  \<open>tcp_channel.hpp\<close> and \<open>ssl_channel.hpp\<close>: how a connection is accepted or made before there is
  a session. The acceptor, the resolver and OpenSSL are library code: what an operation of theirs
  reports is an argument. The server talks to both channels through the same three operations; the
  locale \<open>raw_acceptor\<close> is that interface for accepting, interpreted on both.
\<close>

section \<open>Addresses\<close>

record endpoint =
  ep_address :: string
  ep_port :: nat

definition endpoint_string :: "endpoint \<Rightarrow> string" where
  "endpoint_string ep = ep_address ep @ '':'' @ to_string (ep_port ep)"

definition find_char :: "char \<Rightarrow> string \<Rightarrow> nat option" where
  "find_char c s = (if c \<in> set s then Some (length (takeWhile (\<lambda>x. x \<noteq> c) s)) else None)"

definition rfind_char :: "char \<Rightarrow> string \<Rightarrow> nat option" where
  "rfind_char c s =
     (if c \<in> set s then Some (length s - 1 - length (takeWhile (\<lambda>x. x \<noteq> c) (rev s))) else None)"

definition parse_address :: "string \<Rightarrow> string \<times> string" where
  "parse_address address =
     (case rfind_char (CHR '':'') address of
        None \<Rightarrow> (address, ''0'')
      | Some colon_pos \<Rightarrow>
          if find_char (CHR '':'') address \<noteq> Some colon_pos then (address, ''0'')
          else (take colon_pos address, drop (colon_pos + 1) address))"

text \<open>\<open>ssl_channel::connect\<close> splits its address by itself.\<close>

definition ssl_parse_address :: "string \<Rightarrow> string \<times> string" where
  "ssl_parse_address address =
     (case rfind_char (CHR '':'') address of
        None \<Rightarrow> (address, ''0'')
      | Some colon_pos \<Rightarrow> (take colon_pos address, drop (colon_pos + 1) address))"

section \<open>Accepting\<close>

text \<open>
  A filter inspects the peer and may change its owner's state; a refusal carries a reason.
  The arguments of \<open>accept_raw\<close>: the acceptor's error, the installed filter, the peer
  (\<open>None\<close> when \<open>remote_endpoint\<close> failed).
\<close>

type_synonym 's conn_filter = "endpoint \<Rightarrow> 's \<Rightarrow> (bool \<times> string) \<times> 's"

definition connection_rejected :: "string \<Rightarrow> exn" where
  "connection_rejected reason = connection_rejected_error (''connection rejected: '' @ reason)"

definition tcp_accept_raw ::
    "error_code option \<Rightarrow> 's conn_filter option \<Rightarrow> endpoint option \<Rightarrow> 's \<Rightarrow> unit result \<times> 's" where
  "tcp_accept_raw acc pre_filter peer s =
     (case acc of Some ec \<Rightarrow> (Inl (system_error ec []), s)
      | None \<Rightarrow>
          (case (pre_filter, peer) of
             (Some f, Some ep) \<Rightarrow>
               (let ((ok, reason), s') = f ep s in
                if \<not> ok then (Inl (connection_rejected (if reason = [] then ''filter denied'' else reason)), s')
                else (Inr (), s'))
           | _ \<Rightarrow> (Inr (), s)))"

definition ssl_accept_raw ::
    "error_code option \<Rightarrow> 's conn_filter option \<Rightarrow> endpoint option \<Rightarrow> 's \<Rightarrow> unit result \<times> 's" where
  "ssl_accept_raw acc pre_filter peer s =
     (case acc of Some ec \<Rightarrow> (Inl (system_error ec []), s)
      | None \<Rightarrow>
          (case pre_filter of
             None \<Rightarrow> (Inr (), s)
           | Some f \<Rightarrow>
               (case peer of
                  None \<Rightarrow> (Inr (), s)
                | Some ep \<Rightarrow>
                    (let ((ok, reason), s') = f ep s in
                     if ok then (Inr (), s')
                     else (Inl (connection_rejected (if reason = [] then ''filter denied'' else reason)), s')))))"

section \<open>Handshakes\<close>

datatype handshake_race = HandshakeFinished "error_code option" | TimerFired

definition race_handshake :: "handshake_race \<Rightarrow> unit result" where
  "race_handshake r =
     (case r of
        HandshakeFinished None \<Rightarrow> Inr ()
      | HandshakeFinished (Some ec) \<Rightarrow> Inl (system_error ec ''TLS handshake failed'')
      | TimerFired \<Rightarrow> Inl handshake_timeout_error)"

definition set_peer ::
    "endpoint option \<Rightarrow> ('st, 'wc, 'rc, 'app) session \<Rightarrow> ('st, 'wc, 'rc, 'app) session" where
  "set_peer peer sess =
     (case peer of None \<Rightarrow> sess
      | Some ep \<Rightarrow> set_peer_address (endpoint_string ep) (set_peer_ip (ep_address ep) sess))"

definition tcp_handshake ::
    "('st, 'wc, 'rc, 'v, 'app) session_env \<Rightarrow> (nat \<Rightarrow> 'rc) \<Rightarrow> session_limits \<Rightarrow> endpoint option \<Rightarrow> 'st \<Rightarrow>
     ('st, 'wc, 'rc, 'app) session result" where
  "tcp_handshake E heap lims peer sock = Inr (set_peer peer (make_session E sock heap lims))"

definition ssl_handshake ::
    "('st, 'wc, 'rc, 'v, 'app) session_env \<Rightarrow> (nat \<Rightarrow> 'rc) \<Rightarrow> session_limits \<Rightarrow> endpoint option \<Rightarrow> 'st \<Rightarrow>
     handshake_race \<Rightarrow> string \<Rightarrow> ('st, 'wc, 'rc, 'app) session result" where
  "ssl_handshake E heap lims peer sock race fp =
     (case race_handshake race of
        Inl e \<Rightarrow> Inl e
      | Inr _ \<Rightarrow> Inr (set_peer peer (set_peer_fingerprint fp (make_session E sock heap lims))))"

text \<open>
  Connecting to an endpoint: a failed TCP connect yields a null session (\<open>Inr None\<close>), a failed TLS
  handshake an exception.
\<close>

definition tcp_connect ::
    "('st, 'wc, 'rc, 'v, 'app) session_env \<Rightarrow> (nat \<Rightarrow> 'rc) \<Rightarrow> error_code option \<Rightarrow> 'st \<Rightarrow>
     ('st, 'wc, 'rc, 'app) session option result" where
  "tcp_connect E heap ec sock =
     (if ec \<noteq> None then Inr None else Inr (Some (make_session E sock heap default_session_limits)))"

definition ssl_connect ::
    "('st, 'wc, 'rc, 'v, 'app) session_env \<Rightarrow> (nat \<Rightarrow> 'rc) \<Rightarrow> error_code option \<Rightarrow> 'st \<Rightarrow> handshake_race \<Rightarrow>
     ('st, 'wc, 'rc, 'app) session option result" where
  "ssl_connect E heap ec sock race =
     (if ec \<noteq> None then Inr None
      else case race_handshake race of
        Inl e \<Rightarrow> Inl e
      | Inr _ \<Rightarrow> Inr (Some (make_session E sock heap default_session_limits)))"

section \<open>TLS policy and fingerprints\<close>

datatype tls_version = TLS1_2 | TLS1_3

datatype ssl_option = default_workarounds | no_sslv2 | no_sslv3 | no_compression | single_dh_use

record ssl_ctx =
  ctx_options :: "ssl_option list"
  min_proto :: "tls_version option"
  verify_peer :: bool
  fail_if_no_peer_cert :: bool
  verify_depth :: nat

text \<open>\<open>set_min v\<close> is whether OpenSSL accepted the minimum version.\<close>

definition apply_tls_config ::
    "(tls_version \<Rightarrow> bool) \<Rightarrow> tls_config \<Rightarrow> bool \<Rightarrow> 'a ssl_ctx_scheme \<Rightarrow> 'a ssl_ctx_scheme result" where
  "apply_tls_config set_min cfg server_side ctx =
     (let ctx = ctx\<lparr>ctx_options := ctx_options ctx
                  @ [default_workarounds, no_sslv2, no_sslv3, no_compression, single_dh_use]\<rparr> in
      if tls13_only cfg \<and> \<not> set_min TLS1_3 then Inl (runtime_error ''failed to set TLS 1.3 minimum'')
      else if \<not> tls13_only cfg \<and> \<not> set_min TLS1_2 then Inl (runtime_error ''failed to set TLS 1.2 minimum'')
      else Inr (ctx\<lparr>min_proto := Some (if tls13_only cfg then TLS1_3 else TLS1_2),
                   verify_peer := (if server_side then require_client_cert cfg else verify_server_cert cfg),
                   fail_if_no_peer_cert := (server_side \<and> require_client_cert cfg),
                   verify_depth := 5\<rparr>))"

definition kHex :: string where
  "kHex = ''0123456789abcdef''"

fun hex_encode :: "u8 list \<Rightarrow> string" where
  "hex_encode [] = []"
| "hex_encode (b # bs) = kHex ! unat (drop_bit 4 b) # kHex ! unat (b AND 0x0f) # hex_encode bs"

text \<open>\<open>digest\<close> is what \<open>X509_digest\<close> wrote, \<open>None\<close> for a missing certificate or a failure.\<close>

definition fingerprint_sha256 :: "u8 list option \<Rightarrow> string" where
  "fingerprint_sha256 digest = (case digest of None \<Rightarrow> [] | Some bs \<Rightarrow> hex_encode bs)"

section \<open>The accept interface\<close>

locale raw_acceptor =
  fixes accept_raw :: "error_code option \<Rightarrow> 's conn_filter option \<Rightarrow> endpoint option \<Rightarrow> 's \<Rightarrow> unit result \<times> 's"
  assumes accept_failed: "accept_raw (Some ec) pf p s = (Inl (system_error ec []), s)"
    and accept_unfiltered: "accept_raw None None p s = (Inr (), s)"
    and accept_unknown_peer: "accept_raw None pf None s = (Inr (), s)"
    and accept_passed: "f ep s = ((True, reason), s') \<Longrightarrow> accept_raw None (Some f) (Some ep) s = (Inr (), s')"
    and accept_denied: "f ep s = ((False, reason), s') \<Longrightarrow> accept_raw None (Some f) (Some ep) s =
      (Inl (connection_rejected (if reason = [] then ''filter denied'' else reason)), s')"
begin

text \<open>An accepted peer passed the filter, if there is one and the peer is known.\<close>

lemma accepted_passed_filter:
  assumes "accept_raw None (Some f) (Some ep) s = (Inr (), s')"
  shows "\<exists>reason. f ep s = ((True, reason), s')"
proof -
  obtain ok reason s1 where f: "f ep s = ((ok, reason), s1)"
    by (metis prod.exhaust)
  show ?thesis
    using assms accept_passed [of f ep s reason s1] accept_denied [of f ep s reason s1] f by (cases ok) auto
qed

lemma accept_raw_cases:
  "accept_raw acc f p s =
     (case acc of Some ec \<Rightarrow> (Inl (system_error ec []), s)
      | None \<Rightarrow> (case f of None \<Rightarrow> (Inr (), s)
         | Some g \<Rightarrow> (case p of None \<Rightarrow> (Inr (), s)
            | Some ep \<Rightarrow> (if fst (fst (g ep s)) then Inr ()
                else Inl (connection_rejected (if snd (fst (g ep s)) = [] then ''filter denied'' else snd (fst (g ep s)))),
                snd (g ep s)))))"
proof (cases acc)
  case None
  show ?thesis
  proof (cases f)
    case (Some g)
    show ?thesis
    proof (cases p)
      case (Some ep)
      obtain ok reason s1 where "g ep s = ((ok, reason), s1)"
        by (metis prod.exhaust)
      with \<open>f = Some g\<close> Some None show ?thesis
        by (cases ok) (simp_all add: accept_passed accept_denied)
    qed (simp add: None accept_unknown_peer Some)
  qed (simp add: None accept_unfiltered)
qed (simp add: accept_failed)

end

interpretation tcp_acc: raw_acceptor tcp_accept_raw
  by unfold_locales (auto simp: tcp_accept_raw_def split: option.splits)

interpretation ssl_acc: raw_acceptor ssl_accept_raw
  by unfold_locales (auto simp: ssl_accept_raw_def split: option.splits)

text \<open>
  The two channels accept alike. Whatever the acceptor reports, the filter decides and the
  peer's address is, \<open>tcp_channel\<close> and \<open>ssl_channel\<close> give the server the same answer and leave the
  filter's state the same, so the server's accept loop is independent of the transport.
\<close>

theorem channels_accept_alike: "tcp_accept_raw acc f p s = ssl_accept_raw acc f p s"
  unfolding tcp_acc.accept_raw_cases ssl_acc.accept_raw_cases ..

section \<open>Address parsing\<close>

lemma takeWhile_stop: "c \<notin> set xs \<Longrightarrow> takeWhile (\<lambda>x. x \<noteq> c) (xs @ c # ys) = xs"
  by (induction xs) auto

lemma rfind_char_last: "c \<notin> set port \<Longrightarrow> rfind_char c (host @ c # port) = Some (length host)"
  using takeWhile_stop [of c "rev port" "rev host"] by (simp add: rfind_char_def)

lemma find_char_first: "find_char c (host @ c # port) = Some (length (takeWhile (\<lambda>x. x \<noteq> c) host))"
  by (induction host) (auto simp: find_char_def)

lemma takeWhile_shorter: "c \<in> set xs \<Longrightarrow> length (takeWhile (\<lambda>x. x \<noteq> c) xs) < length xs"
  by (induction xs) auto

text \<open>
  A printed endpoint with a plain host name or IPv4 address is parsed back by both channels, into
  the same host and port. For a host with a colon in it, a bracketed IPv6 address, they differ:
  \<open>ssl_channel\<close> finds the port, \<open>tcp_channel\<close> takes the whole string for the host and
  port 0, although the comment in \<open>parse_address\<close> names exactly this form as handled.
\<close>

theorem parse_address_of_endpoint:
  "ssl_parse_address (endpoint_string ep) = (ep_address ep, to_string (ep_port ep))
   \<and> parse_address (endpoint_string ep) =
       (if CHR '':'' \<in> set (ep_address ep) then (endpoint_string ep, ''0'')
        else (ep_address ep, to_string (ep_port ep)))"
proof -
  let ?c = "CHR '':''" and ?h = "ep_address ep" and ?p = "to_string (ep_port ep)"
  have r: "rfind_char ?c (?h @ ?c # ?p) = Some (length ?h)"
    by (rule rfind_char_last [OF to_string_no_colon])
  have "find_char ?c (?h @ ?c # ?p) \<noteq> Some (length ?h)" if "?c \<in> set ?h"
    using takeWhile_shorter [OF that] by (simp add: find_char_first)
  moreover have "find_char ?c (?h @ ?c # ?p) = Some (length ?h)" if "?c \<notin> set ?h"
  proof -
    have "takeWhile (\<lambda>x. x \<noteq> ?c) ?h = ?h"
      using that by (auto simp: takeWhile_eq_all_conv)
    then show ?thesis
      unfolding find_char_first by (simp only:)
  qed
  ultimately show ?thesis
    using r by (simp add: parse_address_def ssl_parse_address_def endpoint_string_def)
qed

section \<open>Fingerprints\<close>

lemma nibble_bounds:
  fixes b :: u8
  shows "unat (drop_bit 4 b) < 16" and "unat (b AND 0x0f) < 16"
proof -
  have "unat b < 256"
    using unsigned_less [where 'a = nat, of b] by simp
  then show "unat (drop_bit 4 b) < 16"
    by (simp add: unsigned_drop_bit_eq drop_bit_nat_def take_bit_nat_def)
  have "b AND 0x0f = take_bit 4 b"
    by (simp add: take_bit_eq_mask mask_eq_exp_minus_1)
  then show "unat (b AND 0x0f) < 16"
    by (simp only: unsigned_take_bit_eq take_bit_nat_def) simp
qed

lemma nibbles_inj:
  fixes b c :: u8
  assumes "drop_bit 4 b = drop_bit 4 c" and "b AND 0x0f = c AND 0x0f"
  shows "b = c"
proof -
  have "take_bit 4 b = take_bit 4 c"
    using assms(2) by (simp add: take_bit_eq_mask mask_eq_exp_minus_1)
  then show ?thesis
    using assms(1) by (metis bits_ident)
qed

lemma length_kHex: "length kHex = 16"
  by (simp add: kHex_def)

lemma kHex_nth_inj: "i < 16 \<Longrightarrow> j < 16 \<Longrightarrow> kHex ! i = kHex ! j \<longleftrightarrow> i = j"
proof -
  assume "i < 16" "j < 16"
  moreover have "length kHex = 16" "distinct kHex"
    by (simp_all add: kHex_def)
  ultimately show ?thesis
    by (simp add: nth_eq_iff_index_eq)
qed

lemma length_hex_encode: "length (hex_encode bs) = 2 * length bs"
  by (induction bs) simp_all

lemma set_hex_encode: "set (hex_encode bs) \<subseteq> set kHex"
proof (induction bs)
  case (Cons b bs)
  have "kHex ! unat (drop_bit 4 b) \<in> set kHex" "kHex ! unat (b AND 0x0f) \<in> set kHex"
    using nibble_bounds [of b] length_kHex by (simp_all add: nth_mem)
  with Cons show ?case
    by simp
qed simp

lemma hex_encode_inj: "hex_encode bs = hex_encode cs \<longleftrightarrow> bs = cs"
proof (induction bs arbitrary: cs)
  case Nil
  show ?case
    by (cases cs) simp_all
next
  case (Cons b bs)
  show ?case
  proof (cases cs)
    case (Cons c cs')
    show ?thesis
      using Cons.IH [of cs'] nibbles_inj [of b c] nibble_bounds [of b] nibble_bounds [of c]
      by (auto simp: Cons kHex_nth_inj unsigned_word_eqI)
  qed simp
qed

text \<open>
  A fingerprint identifies the certificate digest. It has two lowercase hexadecimal digits per
  byte, and two digests have the same fingerprint only if they are equal, so an identity bound to a
  fingerprint is bound to one certificate digest.
\<close>

theorem fingerprint_identifies_digest:
  "length (fingerprint_sha256 (Some bs)) = 2 * length bs
   \<and> set (fingerprint_sha256 (Some bs)) \<subseteq> set ''0123456789abcdef''
   \<and> (fingerprint_sha256 (Some bs) = fingerprint_sha256 (Some cs) \<longleftrightarrow> bs = cs)"
  using set_hex_encode [of bs] by (simp add: fingerprint_sha256_def length_hex_encode hex_encode_inj kHex_def)

end
