(* ===== verification/Session_Protocol.thy ===== *)
theory Session_Protocol
  imports Session "HOL-Library.Sublist"
begin

text \<open>
  Correctness of \<open>session.hpp\<close>: framing, what each kind of frame does, replies, rate limiting,
  teardown, and the invariants of a session whose coroutines run interleaved. The application state
  may change between any two steps, because other sessions run their handlers on it.
\<close>

section \<open>What each operation leaves alone\<close>

lemma queue_write_fields [simp]:
  "stream (snd (queue_write E h b s)) = stream s"
  "async_mgr (snd (queue_write E h b s)) = async_mgr s"
  "notification_callback (snd (queue_write E h b s)) = notification_callback s"
  "is_closed (snd (queue_write E h b s)) = is_closed s"
  "limits (snd (queue_write E h b s)) = limits s"
  "peer_fingerprint (snd (queue_write E h b s)) = peer_fingerprint s"
  "peer_address (snd (queue_write E h b s)) = peer_address s"
  "peer_ip (snd (queue_write E h b s)) = peer_ip s"
  "logical_session_id (snd (queue_write E h b s)) = logical_session_id s"
  "logical_device_id (snd (queue_write E h b s)) = logical_device_id s"
  "logical_role (snd (queue_write E h b s)) = logical_role s"
  "request_bucket (snd (queue_write E h b s)) = request_bucket s"
  "request_tasks (snd (queue_write E h b s)) = request_tasks s"
  "notification_strand (snd (queue_write E h b s)) = notification_strand s"
  "logged (snd (queue_write E h b s)) = logged s"
  by (simp_all add: queue_write_def split: prod.split option.split)

lemma try_write_fields [simp]:
  "stream (snd (try_write E h b s)) = stream s"
  "async_mgr (snd (try_write E h b s)) = async_mgr s"
  "notification_callback (snd (try_write E h b s)) = notification_callback s"
  "is_closed (snd (try_write E h b s)) = is_closed s"
  "limits (snd (try_write E h b s)) = limits s"
  "peer_fingerprint (snd (try_write E h b s)) = peer_fingerprint s"
  "peer_address (snd (try_write E h b s)) = peer_address s"
  "peer_ip (snd (try_write E h b s)) = peer_ip s"
  "logical_session_id (snd (try_write E h b s)) = logical_session_id s"
  "logical_device_id (snd (try_write E h b s)) = logical_device_id s"
  "logical_role (snd (try_write E h b s)) = logical_role s"
  "request_bucket (snd (try_write E h b s)) = request_bucket s"
  "request_tasks (snd (try_write E h b s)) = request_tasks s"
  "notification_strand (snd (try_write E h b s)) = notification_strand s"
  "logged (snd (try_write E h b s)) = logged s"
  by (simp_all add: try_write_def split: prod.split)

lemma respond_fields [simp]:
  "stream (snd (respond E mt h b s)) = stream s"
  "async_mgr (snd (respond E mt h b s)) = async_mgr s"
  "notification_callback (snd (respond E mt h b s)) = notification_callback s"
  "is_closed (snd (respond E mt h b s)) = is_closed s"
  "limits (snd (respond E mt h b s)) = limits s"
  "peer_fingerprint (snd (respond E mt h b s)) = peer_fingerprint s"
  "peer_address (snd (respond E mt h b s)) = peer_address s"
  "peer_ip (snd (respond E mt h b s)) = peer_ip s"
  "logical_session_id (snd (respond E mt h b s)) = logical_session_id s"
  "logical_device_id (snd (respond E mt h b s)) = logical_device_id s"
  "logical_role (snd (respond E mt h b s)) = logical_role s"
  "request_bucket (snd (respond E mt h b s)) = request_bucket s"
  "request_tasks (snd (respond E mt h b s)) = request_tasks s"
  "notification_strand (snd (respond E mt h b s)) = notification_strand s"
  "logged (snd (respond E mt h b s)) = logged s"
  by (simp_all add: respond_def)

lemma close_fields [simp]:
  "notification_callback (close E s) = notification_callback s"
  "limits (close E s) = limits s"
  "peer_fingerprint (close E s) = peer_fingerprint s"
  "peer_address (close E s) = peer_address s"
  "peer_ip (close E s) = peer_ip s"
  "logical_session_id (close E s) = logical_session_id s"
  "logical_device_id (close E s) = logical_device_id s"
  "logical_role (close E s) = logical_role s"
  "request_bucket (close E s) = request_bucket s"
  "request_tasks (close E s) = request_tasks s"
  "notification_strand (close E s) = notification_strand s"
  by (simp_all add: close_def Let_def)

lemma run_complete_fields [simp]:
  "stream (snd (run_complete rm s)) = stream s"
  "write_channel (snd (run_complete rm s)) = write_channel s"
  "notification_callback (snd (run_complete rm s)) = notification_callback s"
  "is_closed (snd (run_complete rm s)) = is_closed s"
  "limits (snd (run_complete rm s)) = limits s"
  "peer_fingerprint (snd (run_complete rm s)) = peer_fingerprint s"
  "peer_address (snd (run_complete rm s)) = peer_address s"
  "peer_ip (snd (run_complete rm s)) = peer_ip s"
  "logical_session_id (snd (run_complete rm s)) = logical_session_id s"
  "logical_device_id (snd (run_complete rm s)) = logical_device_id s"
  "logical_role (snd (run_complete rm s)) = logical_role s"
  "request_bucket (snd (run_complete rm s)) = request_bucket s"
  "request_tasks (snd (run_complete rm s)) = request_tasks s"
  "notification_strand (snd (run_complete rm s)) = notification_strand s"
  "logged (snd (run_complete rm s)) = logged s"
  by (simp_all add: run_complete_def split: prod.split sum.split)

lemma deadline_read_fields [simp]:
  "async_mgr (snd (deadline_read E n t s)) = async_mgr s"
  "write_channel (snd (deadline_read E n t s)) = write_channel s"
  "notification_callback (snd (deadline_read E n t s)) = notification_callback s"
  "is_closed (snd (deadline_read E n t s)) = is_closed s"
  "limits (snd (deadline_read E n t s)) = limits s"
  "peer_fingerprint (snd (deadline_read E n t s)) = peer_fingerprint s"
  "peer_address (snd (deadline_read E n t s)) = peer_address s"
  "peer_ip (snd (deadline_read E n t s)) = peer_ip s"
  "logical_session_id (snd (deadline_read E n t s)) = logical_session_id s"
  "logical_device_id (snd (deadline_read E n t s)) = logical_device_id s"
  "logical_role (snd (deadline_read E n t s)) = logical_role s"
  "request_bucket (snd (deadline_read E n t s)) = request_bucket s"
  "request_tasks (snd (deadline_read E n t s)) = request_tasks s"
  "notification_strand (snd (deadline_read E n t s)) = notification_strand s"
  "logged (snd (deadline_read E n t s)) = logged s"
  by (simp_all add: deadline_read_def split: prod.split option.split)

lemma reader_catch_fields [simp]:
  "notification_callback (reader_catch E e s) = notification_callback s"
  "limits (reader_catch E e s) = limits s"
  "peer_fingerprint (reader_catch E e s) = peer_fingerprint s"
  "peer_address (reader_catch E e s) = peer_address s"
  "peer_ip (reader_catch E e s) = peer_ip s"
  "logical_session_id (reader_catch E e s) = logical_session_id s"
  "logical_device_id (reader_catch E e s) = logical_device_id s"
  "logical_role (reader_catch E e s) = logical_role s"
  "request_bucket (reader_catch E e s) = request_bucket s"
  "request_tasks (reader_catch E e s) = request_tasks s"
  "notification_strand (reader_catch E e s) = notification_strand s"
  by (simp_all add: reader_catch_def del: append.simps)

section \<open>Headers and frames\<close>

lemma length_make_header [simp]: "length (make_header mt sz cid tok) = 5"
  by (simp add: make_header_def)

lemma make_header_fields [simp]:
  "make_header mt sz cid tok ! 0 = MAGIC_HEADER_NUMBER"
  "make_header mt sz cid tok ! 1 = sz"
  "make_header mt sz cid tok ! Suc 0 = sz"
  "make_header mt sz cid tok ! 3 = cid"
  "make_header mt sz cid tok ! 4 = tok"
  by (simp_all add: make_header_def)

lemma to_msg_type_code [simp]: "to_msg_type (push_bit 32 (msg_code mt)) = Some mt"
  by (cases mt) (simp_all add: to_msg_type_def)

lemma make_header_type [simp]: "to_msg_type (make_header mt sz cid tok ! 2) = Some mt"
  by (cases mt) (simp_all add: make_header_def to_msg_type_def)

lemma length_header_bytes [simp]: "length (header_bytes P h) = 8 * length h"
  by (induction h) (simp_all add: header_bytes_def)

lemma header_of_bytes_inverse [wire_simps]:
  "length h = n \<Longrightarrow> header_of_bytes P n (header_bytes P h @ rest) = h"
  by (induction h arbitrary: n) (auto simp: header_bytes_def)

lemma header_roundtrip [simp]: "length h = 5 \<Longrightarrow> header_of_bytes P 5 (header_bytes P h) = h"
  using header_of_bytes_inverse [of h 5 P "[]"] by simp

text \<open>A frame that the code of this file may put on the wire.\<close>

definition good_item :: "write_item \<Rightarrow> bool" where
  "good_item item \<longleftrightarrow> length (wi_header item) = 5
     \<and> wi_header item ! MAGIC_HEADER_IDX = MAGIC_HEADER_NUMBER
     \<and> wi_header item ! MSG_SIZE_IDX = of_nat (length (wi_body item))
     \<and> to_msg_type (wi_header item ! MSG_TYPE_IDX) \<noteq> None
     \<and> (to_msg_type (wi_header item ! MSG_TYPE_IDX) \<in> {Some nop, Some ping, Some pong} \<longrightarrow> wi_body item = [])"

lemma good_make_header [simp]:
  "good_item \<lparr>wi_header = make_header request (of_nat (length body)) cid tok, wi_body = body\<rparr>"
  "good_item \<lparr>wi_header = make_header response (of_nat (length body)) cid tok, wi_body = body\<rparr>"
  "good_item \<lparr>wi_header = make_header error (of_nat (length body)) cid tok, wi_body = body\<rparr>"
  "good_item \<lparr>wi_header = make_header notification (of_nat (length body)) cid tok, wi_body = body\<rparr>"
  "good_item \<lparr>wi_header = make_header mt 0 cid tok, wi_body = []\<rparr>"
  by (simp_all add: good_item_def)

section \<open>What the library promises\<close>

definition library_ok ::
    "('st, 'wc, 'rc, 'v, 'app) session_env \<Rightarrow> ('wc \<Rightarrow> write_item list) \<Rightarrow> ('wc \<Rightarrow> bool) \<Rightarrow>
     ('st \<Rightarrow> buffer_type) \<Rightarrow> ('st \<Rightarrow> buffer_type) \<Rightarrow> bool" where
  "library_ok E buffered opened incoming outgoing \<longleftrightarrow>
     fifo_channel (wc_ops E) buffered opened \<and> prompt_channel (wc_ops E) buffered opened
     \<and> byte_stream (st_ops E) incoming outgoing \<and> prompt_stream (st_ops E) incoming"

lemma library_okD:
  assumes "library_ok E buffered opened incoming outgoing"
  shows "fifo_channel (wc_ops E) buffered opened" "prompt_channel (wc_ops E) buffered opened"
    "byte_stream (st_ops E) incoming outgoing" "prompt_stream (st_ops E) incoming"
  using assms by (simp_all add: library_ok_def)

text \<open>A concrete environment: list channels, memory streams, the sample dispatcher.\<close>

type_synonym sample_session_env =
  "(mem_stream, write_item list_channel, op_result list_channel, wire_value, nat) session_env"

type_synonym sample_session =
  "(mem_stream, write_item list_channel, op_result list_channel, nat) session"

definition sample_env :: "(wire_value, nat) dispatcher \<Rightarrow> sample_session_env" where
  "sample_env d =
     \<lparr>cereal = le_env, st_ops = mem_stream_ops, wc_ops = list_channel_ops, rc_ops = list_channel_ops,
      session_dispatcher = d, ec_message = (\<lambda>_. []), ec_category = (\<lambda>_. []), ec_value = (\<lambda>_. 0),
      what = (\<lambda>_. [])\<rparr>"

lemma sample_library_ok: "library_ok (sample_env d) lc_buffered lc_open ms_incoming ms_outgoing"
  by (simp add: library_ok_def sample_env_def list_channel_fifo list_channel_prompt mem_stream_bytes mem_stream_prompt)

definition sample_session :: "(wire_value, nat) dispatcher \<Rightarrow> buffer_type \<Rightarrow> sample_session" where
  "sample_session d inp = make_session (sample_env d) (inp, [], True) (\<lambda>_. ([], 0, False)) default_session_limits"

section \<open>Steps that only add frames to the write queue\<close>

text \<open>
  Everything but the writer leaves the bytes already written alone and at most appends well-formed
  frames to the write channel; the channel closes with the session and never reopens.
\<close>

definition extends ::
    "('wc \<Rightarrow> write_item list) \<Rightarrow> ('wc \<Rightarrow> bool) \<Rightarrow> ('st \<Rightarrow> buffer_type) \<Rightarrow>
     ('st, 'wc, 'rc, 'app) session \<Rightarrow> ('st, 'wc, 'rc, 'app) session \<Rightarrow> bool" where
  "extends buffered opened outgoing s s' \<longleftrightarrow>
     (\<exists>items. list_all good_item items
        \<and> buffered (write_channel s') = buffered (write_channel s) @ items
        \<and> (\<not> opened (write_channel s) \<longrightarrow> items = []))
     \<and> outgoing (stream s') = outgoing (stream s)
     \<and> (opened (write_channel s') \<longrightarrow> opened (write_channel s))
     \<and> (is_closed s \<longrightarrow> is_closed s')
     \<and> (is_closed s' \<longrightarrow> is_closed s \<or> \<not> opened (write_channel s'))"

lemma extendsI_same:
  "write_channel s' = write_channel s \<Longrightarrow> outgoing (stream s') = outgoing (stream s) \<Longrightarrow>
   is_closed s' = is_closed s \<Longrightarrow> extends buffered opened outgoing s s'"
  by (auto simp: extends_def intro!: exI [of _ "[]"])

lemma extends_refl [simp]: "extends buffered opened outgoing s s"
  by (rule extendsI_same) simp_all

lemma extends_trans [trans]:
  assumes "extends buffered opened outgoing s s'" and "extends buffered opened outgoing s' s''"
  shows "extends buffered opened outgoing s s''"
proof -
  obtain i where i: "list_all good_item i" "buffered (write_channel s') = buffered (write_channel s) @ i"
    "\<not> opened (write_channel s) \<longrightarrow> i = []"
    using assms(1) by (auto simp: extends_def)
  obtain j where j: "list_all good_item j" "buffered (write_channel s'') = buffered (write_channel s') @ j"
    "\<not> opened (write_channel s') \<longrightarrow> j = []"
    using assms(2) by (auto simp: extends_def)
  show ?thesis
    using assms i j unfolding extends_def by (intro conjI exI [of _ "i @ j"]) auto
qed

lemma queue_write_extends:
  assumes "library_ok E buffered opened incoming outgoing"
    and "good_item \<lparr>wi_header = h, wi_body = b\<rparr>" and "queue_write E h b s = (r, s')"
  shows "extends buffered opened outgoing s s'"
proof -
  obtain ec c where send: "ch_async_send (wc_ops E) \<lparr>wi_header = h, wi_body = b\<rparr> (write_channel s) = (ec, c)"
    by force
  have s': "s' = s\<lparr>write_channel := c\<rparr>"
    using assms(3) send by (auto simp: queue_write_def split: option.splits)
  show ?thesis
    using fifo_async_send [OF library_okD(1) [OF assms(1)] send] assms(2)
    by (cases ec) (auto simp: extends_def s')
qed

lemma try_write_extends:
  assumes "library_ok E buffered opened incoming outgoing"
    and "good_item \<lparr>wi_header = h, wi_body = b\<rparr>" and "try_write E h b s = (ok, s')"
  shows "extends buffered opened outgoing s s'"
proof -
  obtain c where send: "ch_try_send (wc_ops E) \<lparr>wi_header = h, wi_body = b\<rparr> (write_channel s) = (ok, c)"
    and s': "s' = s\<lparr>write_channel := c\<rparr>"
    using assms(3) by (auto simp: try_write_def Let_def split: prod.splits)
  show ?thesis
    using fifo_try_send [OF library_okD(1) [OF assms(1)] send] assms(2)
    by (cases ok) (auto simp: extends_def s')
qed

lemma respond_extends:
  assumes "library_ok E buffered opened incoming outgoing"
  shows "respond E response h b s = (r, s') \<Longrightarrow> extends buffered opened outgoing s s'"
    and "respond E error h b s = (r, s') \<Longrightarrow> extends buffered opened outgoing s s'"
  using queue_write_extends [OF assms good_make_header(2)] queue_write_extends [OF assms good_make_header(3)]
  by (simp_all add: respond_def)

lemma log_extends [simp]: "extends buffered opened outgoing s (log_error_async m s)"
  by (rule extendsI_same) simp_all

lemma close_extends:
  assumes "library_ok E buffered opened incoming outgoing"
  shows "extends buffered opened outgoing s (close E s)"
  using fifo_close [OF library_okD(1) [OF assms]] byte_stream_close [OF library_okD(3) [OF assms]]
  by (auto simp: extends_def close_def Let_def)

lemma close_closed [simp]: "is_closed (close E s)"
  by (simp add: close_def Let_def)

lemma deadline_read_extends:
  assumes "library_ok E buffered opened incoming outgoing" and "deadline_read E n t s = (r, s')"
  shows "extends buffered opened outgoing s s'"
proof -
  obtain x st where read: "st_async_read (st_ops E) n t (stream s) = (x, st)"
    by (metis prod.exhaust)
  have "s' = s\<lparr>stream := st\<rparr>"
    using assms(2) read by (auto simp: deadline_read_def split: prod.splits option.splits)
  with byte_stream_read_outgoing [OF library_okD(3) [OF assms(1)] read] show ?thesis
    by (intro extendsI_same) simp_all
qed

lemma reader_catch_extends:
  assumes "library_ok E buffered opened incoming outgoing"
  shows "extends buffered opened outgoing s (reader_catch E e s)"
  unfolding reader_catch_def
  by (rule extends_trans [OF log_extends close_extends [OF assms]])

lemma dispatch_request_extends:
  assumes lib: "library_ok E buffered opened incoming outgoing" and "dispatch_request E now h s = (r, s')"
  shows "extends buffered opened outgoing s s'"
proof (cases "h ! MSG_SIZE_IDX > max_message_bytes (limits s)")
  case True
  let ?log = "log_error_async (''Rejecting oversized request: '' @ to_string (unat (h ! MSG_SIZE_IDX))
                @ '' > limit '' @ to_string (unat (max_message_bytes (limits s)))) s"
  obtain r1 s1 where r1: "respond E error h [] ?log = (r1, s1)"
    by force
  have "s' = s1 \<or> s' = close E s1"
    using assms(2) True r1 by (auto simp: dispatch_request_def Let_def split: sum.splits)
  moreover have "extends buffered opened outgoing s s1"
    by (rule extends_trans [OF log_extends respond_extends(2) [OF lib r1]])
  ultimately show ?thesis
    using close_extends [OF lib] extends_trans by blast
next
  case False
  obtain ok b where tt: "try_take 1 now (request_bucket s) = (ok, b)"
    by force
  let ?s1 = "s\<lparr>request_bucket := b\<rparr>"
  let ?s0 = "if ok then ?s1 else log_error_async ''Request rate limit exceeded'' ?s1"
  obtain r2 s2 where rd: "deadline_read E (unat (h ! MSG_SIZE_IDX)) (message_read_timeout (limits s)) ?s0 = (r2, s2)"
    by force
  have "extends buffered opened outgoing s ?s0"
    by (rule extendsI_same) simp_all
  then have s2: "extends buffered opened outgoing s s2"
    using deadline_read_extends [OF lib rd] extends_trans by blast
  have "s' = s2 \<or> s' = s2\<lparr>request_tasks := request_tasks s'\<rparr> \<or> s' = snd (respond E error h [] s2)"
    using assms(2) False tt rd by (auto simp: dispatch_request_def Let_def split: if_splits sum.splits)
  moreover have "extends buffered opened outgoing s2 (s2\<lparr>request_tasks := ts\<rparr>)" for ts
    by (rule extendsI_same) simp_all
  moreover have "extends buffered opened outgoing s2 (snd (respond E error h [] s2))"
    by (rule respond_extends(2) [OF lib surjective_pairing])
  ultimately show ?thesis
    using s2 extends_trans by metis
qed

lemma run_complete_extends: "run_complete rm s = (r, s') \<Longrightarrow> extends buffered opened outgoing s s'"
  by (rule extendsI_same) (auto simp: run_complete_def split: prod.splits sum.splits)

lemma close_log_extends:
  "library_ok E buffered opened incoming outgoing \<Longrightarrow>
   extends buffered opened outgoing s (close E (log_error_async m s))"
  by (rule extends_trans [OF log_extends close_extends])

lemma handle_response_extends:
  assumes lib: "library_ok E buffered opened incoming outgoing" and "handle_response E h s = (r, s')"
  shows "extends buffered opened outgoing s s'"
proof (cases "h ! MSG_SIZE_IDX > max_message_bytes (limits s)")
  case True
  with assms(2) close_log_extends [OF lib] show ?thesis
    by (auto simp: handle_response_def Let_def)
next
  case False
  obtain r1 s1 where rd: "deadline_read E (unat (h ! MSG_SIZE_IDX)) (message_read_timeout (limits s)) s = (r1, s1)"
    by force
  from deadline_read_extends [OF lib rd] show ?thesis
    using assms(2) False rd
    by (auto simp: handle_response_def Let_def split: sum.splits intro: extends_trans run_complete_extends)
qed

lemma handle_notification_extends:
  assumes lib: "library_ok E buffered opened incoming outgoing" and "handle_notification E h s = (r, s')"
  shows "extends buffered opened outgoing s s'"
proof (cases "h ! MSG_SIZE_IDX > max_message_bytes (limits s)")
  case True
  with assms(2) close_log_extends [OF lib] show ?thesis
    by (auto simp: handle_notification_def Let_def)
next
  case False
  obtain r1 s1 where rd: "deadline_read E (unat (h ! MSG_SIZE_IDX)) (message_read_timeout (limits s)) s = (r1, s1)"
    by force
  have "extends buffered opened outgoing s1 (s1\<lparr>notification_strand := q\<rparr>)" for q
    by (rule extendsI_same) simp_all
  with deadline_read_extends [OF lib rd] show ?thesis
    using assms(2) False rd
    by (auto simp: handle_notification_def Let_def split: sum.splits intro: extends_trans)
qed

lemma handle_error_extends:
  assumes lib: "library_ok E buffered opened incoming outgoing" and "handle_error E h s = (r, s')"
  shows "extends buffered opened outgoing s s'"
proof -
  let ?s0 = "log_error_async ''Received error message'' s"
  consider "h ! MSG_SIZE_IDX > max_message_bytes (limits s)" "h ! MSG_SIZE_IDX > 0"
    | "h ! MSG_SIZE_IDX > 0" "\<not> h ! MSG_SIZE_IDX > max_message_bytes (limits s)"
    | "\<not> h ! MSG_SIZE_IDX > 0"
    by blast
  then have "extends buffered opened outgoing ?s0 s'"
  proof cases
    case 1
    with assms(2) close_log_extends [OF lib] show ?thesis
      by (auto simp: handle_error_def Let_def)
  next
    case 2
    obtain r1 s1 where rd: "deadline_read E (unat (h ! MSG_SIZE_IDX)) (message_read_timeout (limits s)) ?s0 = (r1, s1)"
      by force
    from deadline_read_extends [OF lib rd] show ?thesis
      using assms(2) 2 rd
      by (auto simp: handle_error_def Let_def split: sum.splits intro: extends_trans run_complete_extends)
  next
    case 3
    with assms(2) show ?thesis
      by (auto simp: handle_error_def Let_def intro: run_complete_extends)
  qed
  then show ?thesis
    by (rule extends_trans [OF log_extends])
qed

lemma reader_continue_extends:
  assumes "library_ok E buffered opened incoming outgoing"
    and "\<And>r s1. rs = (r, s1) \<Longrightarrow> extends buffered opened outgoing s s1" and "reader_continue E rs = (st, s')"
  shows "extends buffered opened outgoing s s'"
proof (cases rs rule: result_pair_cases)
  case (Throw e s1)
  with assms(3) extends_trans [OF assms(2) [OF Throw] reader_catch_extends [OF assms(1)]] show ?thesis
    by (auto simp: reader_continue_def)
next
  case (Value v s1)
  with assms show ?thesis
    by (simp add: reader_continue_def)
qed

lemma msg_reader_frame_extends:
  assumes lib: "library_ok E buffered opened incoming outgoing" and f: "msg_reader_frame E now h s = (st, s')"
  shows "extends buffered opened outgoing s s'"
proof (cases "MAGIC_HEADER_NUMBER = h ! MAGIC_HEADER_IDX")
  case False
  with f close_log_extends [OF lib] show ?thesis
    by (auto simp: msg_reader_frame_def)
next
  case magic: True
  show ?thesis
  proof (cases "to_msg_type (h ! MSG_TYPE_IDX)")
    case None
    with f magic close_log_extends [OF lib] show ?thesis
      by (auto simp: msg_reader_frame_def)
  next
    case (Some mt)
    show ?thesis
    proof (cases mt)
      case ping
      have "extends buffered opened outgoing s (snd (try_write E (make_header pong 0 0 0) [] s))"
        by (rule try_write_extends [OF lib good_make_header(5) surjective_pairing])
      with ping Some f magic show ?thesis
        by (auto simp: msg_reader_frame_def)
    qed (use Some f magic in
        \<open>auto simp: msg_reader_frame_def intro: reader_continue_extends [OF lib]
           dest: dispatch_request_extends [OF lib] handle_response_extends [OF lib]
             handle_notification_extends [OF lib] handle_error_extends [OF lib]\<close>)
  qed
qed

lemma msg_reader_step_extends:
  assumes lib: "library_ok E buffered opened incoming outgoing" and "msg_reader_step E now s = (st, s')"
  shows "extends buffered opened outgoing s s'"
proof (cases "deadline_read E 40 (idle_timeout (limits s)) s" rule: result_pair_cases)
  case (Throw e s1)
  with assms(2) extends_trans [OF deadline_read_extends [OF lib Throw] reader_catch_extends [OF lib]] show ?thesis
    by (auto simp: msg_reader_step_def)
next
  case (Value bs s1)
  with assms(2) have "msg_reader_frame E now (header_of_bytes (env_plat E) 5 bs) s1 = (st, s')"
    by (simp add: msg_reader_step_def)
  from extends_trans [OF deadline_read_extends [OF lib Value] msg_reader_frame_extends [OF lib this]]
  show ?thesis .
qed

lemma fold_ctx_actions_fields [simp]:
  "write_channel (fold apply_ctx_action acts s) = write_channel s"
  "stream (fold apply_ctx_action acts s) = stream s"
  "is_closed (fold apply_ctx_action acts s) = is_closed s"
  "async_mgr (fold apply_ctx_action acts s) = async_mgr s"
  "request_tasks (fold apply_ctx_action acts s) = request_tasks s"
  "notification_strand (fold apply_ctx_action acts s) = notification_strand s"
proof (induction acts arbitrary: s)
  case (Cons a acts)
  {
    case 1 then show ?case by (cases a) (simp_all add: Cons)
  next
    case 2 then show ?case by (cases a) (simp_all add: Cons)
  next
    case 3 then show ?case by (cases a) (simp_all add: Cons)
  next
    case 4 then show ?case by (cases a) (simp_all add: Cons)
  next
    case 5 then show ?case by (cases a) (simp_all add: Cons)
  next
    case 6 then show ?case by (cases a) (simp_all add: Cons)
  }
qed simp_all

lemma log_dispatch_error_simps [simp]:
  "write_channel (log_dispatch_error E e s) = write_channel s"
  "stream (log_dispatch_error E e s) = stream s"
  "is_closed (log_dispatch_error E e s) = is_closed s"
  "async_mgr (log_dispatch_error E e s) = async_mgr s"
  "request_tasks (log_dispatch_error E e s) = request_tasks s"
  by (simp_all add: log_dispatch_error_def)

lemma run_handler_fields:
  assumes "run_handler E h buf s a = (t, s', a')"
  shows "write_channel s' = write_channel s" "stream s' = stream s" "is_closed s' = is_closed s"
    "async_mgr s' = async_mgr s" "request_tasks s' = request_tasks s"
  using assms by (auto simp: run_handler_def Let_def split: prod.splits sum.splits)

lemma send_error_reply_extends:
  "library_ok E buffered opened incoming outgoing \<Longrightarrow> extends buffered opened outgoing s (send_error_reply E h s)"
  unfolding send_error_reply_def by (rule respond_extends(2) [OF _ surjective_pairing])

lemma send_reply_extends:
  assumes lib: "library_ok E buffered opened incoming outgoing"
  shows "extends buffered opened outgoing s (send_reply E h rsp s)"
proof (cases rsp)
  case None
  then show ?thesis
    by (simp add: send_reply_def send_error_reply_extends [OF lib])
next
  case (Some b)
  show ?thesis
  proof (cases "respond E response h b s" rule: result_pair_cases)
    case (Throw e s1)
    have "extends buffered opened outgoing s1 (log_dispatch_error E e s1)"
      by (rule extendsI_same) simp_all
    with respond_extends(1) [OF lib Throw] send_error_reply_extends [OF lib] have
      "extends buffered opened outgoing s (send_error_reply E h (log_dispatch_error E e s1))"
      using extends_trans by blast
    with Some Throw show ?thesis
      by (simp add: send_reply_def)
  next
    case (Value v s1)
    with Some respond_extends(1) [OF lib Value] show ?thesis
      by (simp add: send_reply_def)
  qed
qed

lemma request_task_step_extends:
  assumes lib: "library_ok E buffered opened incoming outgoing" and "request_task_step E i s a = (s', a')"
  shows "extends buffered opened outgoing s s'"
proof (cases "request_tasks s ! i")
  case (Spawned h buf)
  obtain t s1 a1 where "run_handler E h buf s a = (t, s1, a1)"
    by (metis prod.exhaust)
  from run_handler_fields [OF this] this Spawned assms(2) show ?thesis
    by (intro extendsI_same) (auto simp: request_task_step_def)
next
  case (Replying h rsp)
  let ?s1 = "s\<lparr>request_tasks := remove_nth i (request_tasks s)\<rparr>"
  have "extends buffered opened outgoing s ?s1"
    by (rule extendsI_same) simp_all
  from extends_trans [OF this send_reply_extends [OF lib]] Replying assms(2) show ?thesis
    by (auto simp: request_task_step_def)
qed

lemma notification_step_fields:
  assumes "notification_step E s a = (s', a')"
  shows "write_channel s' = write_channel s" "stream s' = stream s" "is_closed s' = is_closed s"
    "async_mgr s' = async_mgr s" "notification_strand s' = tl (notification_strand s)"
    "request_tasks s' = request_tasks s"
  using assms
  by (auto simp: notification_step_def run_notification_def Let_def
      split: list.splits prod.splits sum.splits option.splits)

lemma notification_step_extends: "notification_step E s a = (s', a') \<Longrightarrow> extends buffered opened outgoing s s'"
  by (rule extendsI_same) (simp_all add: notification_step_fields)

lemma call_begin_extends:
  assumes lib: "library_ok E buffered opened incoming outgoing" and "call_begin E name req s = (r, s')"
  shows "extends buffered opened outgoing s s'"
proof -
  obtain tok ch m where c: "create_operation (rc_ops E) (async_mgr s) = ((tok, ch), m)"
    by (metis prod.exhaust)
  let ?s0 = "s\<lparr>async_mgr := m\<rparr>"
  obtain r1 s1 where q: "queue_write E (make_header request (of_nat (length req)) (shash64 (env_plat E) name) tok) req ?s0 = (r1, s1)"
    by force
  have "s1 = s'"
    using assms(2) c q by (auto simp: call_begin_def Let_def split: sum.splits)
  moreover have "extends buffered opened outgoing s ?s0"
    by (rule extendsI_same) simp_all
  ultimately show ?thesis
    using queue_write_extends [OF lib good_make_header(1) q] extends_trans by blast
qed

section \<open>Interleaved execution\<close>

text \<open>
  A running session: its state, the application's, and whether the two coroutines of
  \<open>dispatch_requests\<close> still run. One step is one resumption of the reader, the writer, a request
  task or the notification strand, or an operation of the owner. A call needs a free token
  (the counter is 64 bits wide). The application's state is shared, so it may change at any moment
  while other sessions or other threads run (\<open>Elsewhere\<close>).
\<close>

record ('st, 'wc, 'rc, 'app) running =
  ses :: "('st, 'wc, 'rc, 'app) session"
  app_state :: 'app
  reader_on :: bool
  writer_on :: bool

inductive session_step ::
    "('st, 'wc, 'rc, 'v, 'app) session_env \<Rightarrow> ('st, 'wc, 'rc, 'app) running \<Rightarrow>
     ('st, 'wc, 'rc, 'app) running \<Rightarrow> bool"
  for E :: "('st, 'wc, 'rc, 'v, 'app) session_env" where
  Reader: "reader_on c \<Longrightarrow> msg_reader_step E now (ses c) = (st, s') \<Longrightarrow>
    session_step E c (c\<lparr>ses := s', reader_on := (st \<noteq> Exited)\<rparr>)"
| Writer: "writer_on c \<Longrightarrow> msg_writer_step E (ses c) = (st, s') \<Longrightarrow>
    session_step E c (c\<lparr>ses := s', writer_on := (st \<noteq> Exited)\<rparr>)"
| Task: "i < length (request_tasks (ses c)) \<Longrightarrow> request_task_step E i (ses c) (app_state c) = (s', a') \<Longrightarrow>
    session_step E c (c\<lparr>ses := s', app_state := a'\<rparr>)"
| Strand: "notification_step E (ses c) (app_state c) = (s', a') \<Longrightarrow>
    session_step E c (c\<lparr>ses := s', app_state := a'\<rparr>)"
| Call: "token_room (async_mgr (ses c)) \<Longrightarrow> call_begin E name req (ses c) = (r, s') \<Longrightarrow>
    session_step E c (c\<lparr>ses := s'\<rparr>)"
| Timer: "call_timer_fired E ch fin (ses c) = (b, s') \<Longrightarrow> session_step E c (c\<lparr>ses := s'\<rparr>)"
| Receive: "call_receive E name b ch (ses c) = Some (r, s') \<Longrightarrow> session_step E c (c\<lparr>ses := s'\<rparr>)"
| Notify: "notify E name buf (ses c) = (r, s') \<Longrightarrow> session_step E c (c\<lparr>ses := s'\<rparr>)"
| Try_notify: "try_notify E name buf (ses c) = (b, s') \<Longrightarrow> session_step E c (c\<lparr>ses := s'\<rparr>)"
| Try_ping: "try_ping E (ses c) = (b, s') \<Longrightarrow> session_step E c (c\<lparr>ses := s'\<rparr>)"
| Close: "session_step E c (c\<lparr>ses := close E (ses c)\<rparr>)"
| Elsewhere: "session_step E c (c\<lparr>app_state := a\<rparr>)"

inductive_cases session_stepE: "session_step E c c'"

lemma call_timer_extends: "call_timer_fired E ch fin s = (b, s') \<Longrightarrow> extends buffered opened outgoing s s'"
  by (rule extendsI_same) (auto simp: call_timer_fired_def Let_def split: if_splits)

lemma call_receive_extends: "call_receive E name b ch s = Some (r, s') \<Longrightarrow> extends buffered opened outgoing s s'"
  by (rule extendsI_same) (auto simp: call_receive_def Let_def split: option.splits if_splits)

lemmas step_extends = msg_reader_step_extends request_task_step_extends call_begin_extends
lemmas local_step_extends = notification_step_extends call_timer_extends call_receive_extends

lemma session_step_cases:
  assumes lib: "library_ok E buffered opened incoming outgoing" and "session_step E c c'"
  obtains st where "writer_on c" "msg_writer_step E (ses c) = (st, ses c')" "writer_on c' = (st \<noteq> Exited)"
      "reader_on c' = reader_on c"
  | "extends buffered opened outgoing (ses c) (ses c')" "writer_on c' = writer_on c"
  using assms(2)
proof (cases rule: session_step.cases)
  case (Writer st s')
  then show ?thesis
    using that(1) [of st] by simp
next
  case (Reader now st s')
  with step_extends(1) [OF lib] that(2) show ?thesis by simp
next
  case (Task i s' a')
  with step_extends(2) [OF lib] that(2) show ?thesis by simp
next
  case (Strand s' a')
  with local_step_extends(1) [OF Strand(2), of buffered opened outgoing] that(2) show ?thesis by simp
next
  case (Call name req r s')
  with step_extends(3) [OF lib] that(2) show ?thesis by simp
next
  case (Timer ch fin b s')
  with local_step_extends(2) [OF Timer(2), of buffered opened outgoing] that(2) show ?thesis by simp
next
  case (Receive name b ch r s')
  with local_step_extends(3) [OF Receive(2), of buffered opened outgoing] that(2) show ?thesis by simp
next
  case (Notify name buf r s')
  with queue_write_extends [OF lib good_make_header(4)] that(2) show ?thesis
    by (simp add: notify_def)
next
  case (Try_notify name buf b s')
  with try_write_extends [OF lib good_make_header(4)] that(2) show ?thesis
    by (simp add: try_notify_def)
next
  case (Try_ping b s')
  with try_write_extends [OF lib good_make_header(5)] that(2) show ?thesis
    by (simp add: try_ping_def)
next
  case Close
  with close_extends [OF lib] that(2) show ?thesis by simp
next
  case (Elsewhere a)
  with that(2) show ?thesis by simp
qed

section \<open>The bytes on the wire\<close>

text \<open>
  What has been and will be written: the bytes already on the stream, then the frames that wait in
  the write channel.
\<close>

definition wire ::
    "('st, 'wc, 'rc, 'v, 'app) session_env \<Rightarrow> ('wc \<Rightarrow> write_item list) \<Rightarrow> ('st \<Rightarrow> buffer_type) \<Rightarrow>
     ('st, 'wc, 'rc, 'app) session \<Rightarrow> buffer_type" where
  "wire E buffered outgoing s =
     outgoing (stream s) @ concat (map (frame_bytes (env_plat E)) (buffered (write_channel s)))"

lemma close_again [simp]: "is_closed s \<Longrightarrow> close E s = s"
  by (simp add: close_def)

lemma msg_writer_step_cases [consumes 1, case_names Wait Ended Sent Failed]:
  assumes "msg_writer_step E s = (st, s')"
  obtains "ch_async_receive (wc_ops E) (write_channel s) = None" "st = Waiting" "s' = s"
  | ec c where "ch_async_receive (wc_ops E) (write_channel s) = Some (Inl ec, c)" "st = Exited"
      "s' = close E (s\<lparr>write_channel := c\<rparr>)"
  | item c str where "ch_async_receive (wc_ops E) (write_channel s) = Some (Inr item, c)" "st = Continue"
      "st_async_write (st_ops E) (frame_bytes (env_plat E) item) (stream s) = (None, str)"
      "s' = s\<lparr>write_channel := c, stream := str\<rparr>"
  | item c str m where "ch_async_receive (wc_ops E) (write_channel s) = Some (Inr item, c)" "st = Exited"
      "s' = close E (log_error_async m (s\<lparr>write_channel := c, stream := str\<rparr>))"
proof (cases "ch_async_receive (wc_ops E) (write_channel s)")
  case None
  then have "msg_writer_step E s = (Waiting, s)"
    by (simp add: msg_writer_step_def)
  with assms show ?thesis
    by (intro that(1) [OF None]) simp_all
next
  case (Some rc)
  show ?thesis
  proof (cases rc rule: result_pair_cases)
    case (Throw ec c)
    with Some have rcv: "ch_async_receive (wc_ops E) (write_channel s) = Some (Inl ec, c)"
      by simp
    then have "msg_writer_step E s = (Exited, close E (s\<lparr>write_channel := c\<rparr>))"
      by (simp add: msg_writer_step_def)
    with assms show ?thesis
      by (intro that(2) [OF rcv]) simp_all
  next
    case (Value item c)
    obtain ec str where w: "st_async_write (st_ops E) (frame_bytes (env_plat E) item) (stream s) = (ec, str)"
      by force
    have rcv: "ch_async_receive (wc_ops E) (write_channel s) = Some (Inr item, c)"
      using Some Value by simp
    show ?thesis
    proof (cases ec)
      case None
      with rcv w have "msg_writer_step E s = (Continue, s\<lparr>write_channel := c, stream := str\<rparr>)"
        by (simp add: msg_writer_step_def)
      with assms w None show ?thesis
        by (intro that(3) [OF rcv]) auto
    next
      case (Some e)
      let ?m = "''msg_writer exiting (peer='' @ peer_address s @ ''): '' @ ec_details E e"
      have "msg_writer_step E s = (Exited, close E (log_error_async ?m (s\<lparr>write_channel := c, stream := str\<rparr>)))"
        using Some rcv w by (simp only: msg_writer_step_def option.case sum.case prod.case)
      then show ?thesis
        using assms by (intro that(4) [OF rcv, of ?m str]) simp_all
    qed
  qed
qed

lemma extends_wire:
  assumes "extends buffered opened outgoing s s'"
  shows "\<exists>items. list_all good_item items
    \<and> wire E buffered outgoing s' = wire E buffered outgoing s @ concat (map (frame_bytes (env_plat E)) items)"
  using assms by (auto simp: extends_def wire_def)

lemma writer_step_wire:
  assumes lib: "library_ok E buffered opened incoming outgoing"
    and "msg_writer_step E s = (st, s')" and "st \<noteq> Exited"
  shows "wire E buffered outgoing s' = wire E buffered outgoing s"
  using assms(2)
proof (cases rule: msg_writer_step_cases)
  case (Sent item c str)
  with byte_stream_write [OF library_okD(3) [OF lib] Sent(3)] fifo_receive [OF library_okD(1) [OF lib] Sent(1)]
  show ?thesis
    by (simp add: wire_def)
qed (use assms(3) in simp_all)

text \<open>
  C6: the single writer keeps frames whole. However the reader, the request tasks, the
  notification strand and the owner's calls interleave, as long as the writer runs the bytes
  written plus the frames still queued are exactly what was there at the start followed by
  complete, well-formed frames (five header words with the magic number, a known type, the true
  length of the body, and no body on a keepalive) in the order in which they were queued.
\<close>

theorem writer_emits_whole_frames:
  assumes "library_ok E buffered opened incoming outgoing"
    and "(session_step E)\<^sup>*\<^sup>* c c'" and "writer_on c'"
  shows "\<exists>items. list_all good_item items
    \<and> wire E buffered outgoing (ses c') =
        wire E buffered outgoing (ses c) @ concat (map (frame_bytes (env_plat E)) items)"
  using assms(2,3)
proof (induction rule: rtranclp_induct)
  case base
  then show ?case
    by (auto intro!: exI [of _ "[]"])
next
  case (step c' c'')
  from assms(1) step.hyps(2) show ?case
  proof (cases rule: session_step_cases)
    case (1 st)
    with step show ?thesis
      using writer_step_wire [OF assms(1)] by auto
  next
    case 2
    with step obtain i j where "list_all good_item (i @ j)"
      and "wire E buffered outgoing (ses c'') =
        wire E buffered outgoing (ses c) @ concat (map (frame_bytes (env_plat E)) (i @ j))"
      using extends_wire [OF 2(1), of E] by auto
    then show ?thesis
      by blast
  qed
qed

definition sample_running :: "(mem_stream, write_item list_channel, op_result list_channel, nat) running" where
  "sample_running =
     \<lparr>ses = sample_session empty_dispatcher [], app_state = 0, reader_on = True, writer_on = True\<rparr>"

lemma sample_ping:
  "try_ping (sample_env d) (sample_session d inp) = (True,
     (sample_session d inp)\<lparr>write_channel := ([\<lparr>wi_header = make_header ping 0 0 0, wi_body = []\<rparr>], 256, True)\<rparr>)"
  by (simp add: try_ping_def try_write_def sample_env_def sample_session_def make_session_def list_channel_ops_def)

theorem writer_emits_whole_frames_witness:
  "\<exists>c' items. (session_step (sample_env empty_dispatcher))\<^sup>*\<^sup>* sample_running c' \<and> lc_buffered (write_channel (ses c')) \<noteq> []
     \<and> list_all good_item items
     \<and> wire (sample_env empty_dispatcher) lc_buffered ms_outgoing (ses c') =
         wire (sample_env empty_dispatcher) lc_buffered ms_outgoing (ses sample_running)
         @ concat (map (frame_bytes (env_plat (sample_env empty_dispatcher))) items)"
proof -
  let ?E = "sample_env empty_dispatcher"
  let ?c = "sample_running\<lparr>ses := snd (try_ping ?E (ses sample_running))\<rparr>"
  have run: "(session_step ?E)\<^sup>*\<^sup>* sample_running ?c"
    by (rule r_into_rtranclp) (rule session_step.Try_ping [OF surjective_pairing])
  have "lc_buffered (write_channel (ses ?c)) \<noteq> []"
    by (simp add: sample_running_def sample_ping lc_buffered_def)
  moreover have "writer_on ?c"
    by (simp add: sample_running_def)
  ultimately show ?thesis
    using writer_emits_whole_frames [OF sample_library_ok run] run by blast
qed

section \<open>Teardown\<close>

definition closed_ok :: "('wc \<Rightarrow> bool) \<Rightarrow> ('st, 'wc, 'rc, 'app) running \<Rightarrow> bool" where
  "closed_ok opened c \<longleftrightarrow> (is_closed (ses c) \<longrightarrow> \<not> opened (write_channel (ses c)))
     \<and> (\<not> reader_on c \<longrightarrow> is_closed (ses c)) \<and> (\<not> writer_on c \<longrightarrow> is_closed (ses c))"

lemma reader_exit_closes: "msg_reader_step E now s = (Exited, s') \<Longrightarrow> is_closed s'"
  by (auto simp: msg_reader_step_def msg_reader_frame_def reader_continue_def reader_catch_def
      split: prod.splits sum.splits if_splits option.splits msg_type.splits)

lemma writer_exit_closes: "msg_writer_step E s = (Exited, s') \<Longrightarrow> is_closed s'"
  by (erule msg_writer_step_cases) simp_all

lemma writer_step_opened:
  assumes lib: "library_ok E buffered opened incoming outgoing" and "msg_writer_step E s = (st, s')"
    and "is_closed s \<longrightarrow> \<not> opened (write_channel s)"
  shows "is_closed s' \<longrightarrow> \<not> opened (write_channel s')" and "is_closed s \<longrightarrow> is_closed s'"
proof -
  have receive: "ch_async_receive (wc_ops E) (write_channel s) = Some (r, c) \<Longrightarrow> opened c = opened (write_channel s)"
    for r c
    using fifo_receive [OF library_okD(1) [OF lib]] fifo_receive_error [OF library_okD(1) [OF lib]]
    by (cases r) blast+
  have close: "is_closed (close E t) \<longrightarrow> \<not> opened (write_channel (close E t))"
    if "is_closed t \<longrightarrow> \<not> opened (write_channel t)" for t
    using close_extends [OF lib, of t] that by (auto simp: extends_def)
  from assms(2) have "(is_closed s' \<longrightarrow> \<not> opened (write_channel s')) \<and> (is_closed s \<longrightarrow> is_closed s')"
  proof (cases rule: msg_writer_step_cases)
    case (Ended ec c)
    with close [of "s\<lparr>write_channel := c\<rparr>"] receive [OF Ended(1)] assms(3) show ?thesis
      by simp
  next
    case (Failed item c str m)
    with close [of "log_error_async m (s\<lparr>write_channel := c, stream := str\<rparr>)"] receive [OF Failed(1)] assms(3)
    show ?thesis
      by simp
  qed (use assms(3) receive in auto)
  then show "is_closed s' \<longrightarrow> \<not> opened (write_channel s')" and "is_closed s \<longrightarrow> is_closed s'"
    by simp_all
qed

lemma session_step_reader_on:
  "session_step E c c' \<Longrightarrow> \<not> reader_on c' \<Longrightarrow> reader_on c \<Longrightarrow> is_closed (ses c')"
  by (cases rule: session_step.cases) (auto dest: reader_exit_closes)

lemma closed_ok_step [inv_intros]:
  assumes lib: "library_ok E buffered opened incoming outgoing"
    and "session_step E c c'" and "closed_ok opened c"
  shows "closed_ok opened c'"
proof -
  have "(is_closed (ses c') \<longrightarrow> \<not> opened (write_channel (ses c'))) \<and> (is_closed (ses c) \<longrightarrow> is_closed (ses c'))
     \<and> (\<not> writer_on c' \<longrightarrow> is_closed (ses c'))"
    using lib assms(2)
  proof (cases rule: session_step_cases)
    case (1 st)
    with writer_step_opened [OF lib 1(2)] assms(3) writer_exit_closes [of E "ses c" "ses c'"] show ?thesis
      by (auto simp: closed_ok_def)
  next
    case 2
    with assms(3) show ?thesis
      by (auto simp: closed_ok_def extends_def)
  qed
  moreover have "\<not> reader_on c' \<longrightarrow> is_closed (ses c')"
    using session_step_reader_on [OF assms(2)] assms(3) calculation by (auto simp: closed_ok_def)
  ultimately show ?thesis
    by (simp add: closed_ok_def)
qed

lemma closed_ok_run:
  assumes "library_ok E buffered opened incoming outgoing"
    and "(session_step E)\<^sup>*\<^sup>* c c'" and "closed_ok opened c"
  shows "closed_ok opened c'"
  using assms(2,3) by (induction rule: rtranclp_induct) (auto intro: closed_ok_step [OF assms(1)])

lemma closed_monotone:
  assumes "library_ok E buffered opened incoming outgoing" and "closed_ok opened c" and "session_step E c c'"
    and "is_closed (ses c)"
  shows "is_closed (ses c')"
  using assms(1,3)
proof (cases rule: session_step_cases)
  case (1 st)
  with writer_step_opened [OF assms(1) 1(2)] assms(2,4) show ?thesis
    by (auto simp: closed_ok_def)
next
  case 2
  with assms(4) show ?thesis
    by (simp add: extends_def)
qed

text \<open>
  C33: teardown is final. Once a session is closed it stays closed, whatever runs afterwards: its
  write channel never accepts another frame (the queue only shrinks), and as soon as either
  coroutine has ended the session is closed.
\<close>

theorem close_is_final:
  assumes "library_ok E buffered opened incoming outgoing" and "closed_ok opened c"
    and "(session_step E)\<^sup>*\<^sup>* c c'"
  shows "(is_closed (ses c) \<longrightarrow> is_closed (ses c') \<and> \<not> opened (write_channel (ses c'))
            \<and> suffix (buffered (write_channel (ses c'))) (buffered (write_channel (ses c))))
    \<and> (\<not> (reader_on c' \<and> writer_on c') \<longrightarrow> is_closed (ses c'))"
  using assms(3)
proof (induction rule: rtranclp_induct)
  case base
  with assms(2) show ?case
    by (auto simp: closed_ok_def)
next
  case (step c' c'')
  have ok: "closed_ok opened c'" "closed_ok opened c''"
    using closed_ok_run [OF assms(1) _ assms(2)] step.hyps by (auto intro: rtranclp.rtrancl_into_rtrancl)
  have "suffix (buffered (write_channel (ses c''))) (buffered (write_channel (ses c')))" if "is_closed (ses c')"
    using assms(1) step.hyps(2)
  proof (cases rule: session_step_cases)
    case (1 st)
    from 1(2) that show ?thesis
      by (cases rule: msg_writer_step_cases)
         (auto simp: suffix_Cons dest: fifo_receive [OF library_okD(1) [OF assms(1)]]
           fifo_receive_error [OF library_okD(1) [OF assms(1)]])
  next
    case 2
    with ok(1) that show ?thesis
      by (auto simp: extends_def closed_ok_def)
  qed
  with step.IH closed_monotone [OF assms(1) ok(1) step.hyps(2)] ok(2) show ?case
    by (auto simp: closed_ok_def intro: suffix_order.trans)
qed

theorem close_is_final_witness:
  "\<exists>c'. (session_step (sample_env empty_dispatcher))\<^sup>*\<^sup>*
      (sample_running\<lparr>ses := close (sample_env empty_dispatcher) (ses sample_running)\<rparr>) c'
    \<and> ses c' = snd (try_ping (sample_env empty_dispatcher)
                  (close (sample_env empty_dispatcher) (ses sample_running)))
    \<and> is_closed (ses c') \<and> lc_buffered (write_channel (ses c')) = []"
proof -
  let ?E = "sample_env empty_dispatcher"
  let ?c = "sample_running\<lparr>ses := close ?E (ses sample_running)\<rparr>"
  let ?d = "?c\<lparr>ses := snd (try_ping ?E (ses ?c))\<rparr>"
  have run: "(session_step ?E)\<^sup>*\<^sup>* ?c ?d"
    by (rule r_into_rtranclp) (rule session_step.Try_ping [OF surjective_pairing])
  have open_ok: "closed_ok lc_open sample_running"
    by (simp add: closed_ok_def sample_running_def sample_session_def make_session_def)
  have "closed_ok lc_open ?c"
    by (rule closed_ok_step [OF sample_library_ok session_step.Close open_ok])
  from close_is_final [OF sample_library_ok this run]
  have "is_closed (ses ?d) \<and> suffix (lc_buffered (write_channel (ses ?d))) (lc_buffered (write_channel (ses ?c)))"
    by simp
  moreover have "lc_buffered (write_channel (ses ?c)) = []"
    by (simp add: lc_buffered_def sample_running_def sample_session_def make_session_def sample_env_def
        list_channel_ops_def close_def Let_def)
  ultimately show ?thesis
    using run by (intro exI [of _ ?d]) simp
qed

section \<open>Reading frames\<close>

lemma deadline_read_prompt:
  assumes lib: "library_ok E buffered opened incoming outgoing"
    and "incoming (stream s) = bs @ rest" and "length bs = n"
  shows "\<exists>st. deadline_read E n t s = (Inr bs, s\<lparr>stream := st\<rparr>) \<and> incoming st = rest \<and> outgoing st = outgoing (stream s)"
proof -
  obtain st where "st_async_read (st_ops E) n t (stream s) = ((None, bs), st)" "incoming st = rest"
    "outgoing st = outgoing (stream s)"
    using prompt_read [OF library_okD(3,4) [OF lib] assms(2,3)] by blast
  then show ?thesis
    by (intro exI [of _ st]) (simp add: deadline_read_def)
qed

lemma read_frame_header:
  assumes lib: "library_ok E buffered opened incoming outgoing"
    and "length (wi_header item) = 5" and "incoming (stream s) = frame_bytes (env_plat E) item @ rest"
  shows "\<exists>st. msg_reader_step E now s = msg_reader_frame E now (wi_header item) (s\<lparr>stream := st\<rparr>)
    \<and> incoming st = wi_body item @ rest \<and> outgoing st = outgoing (stream s)"
proof -
  have "incoming (stream s) = header_bytes (env_plat E) (wi_header item) @ (wi_body item @ rest)"
    using assms(3) by (simp add: frame_bytes_def)
  from deadline_read_prompt [OF lib this, of 40 "idle_timeout (limits s)"] assms(2)
  show ?thesis
    by (auto simp: msg_reader_step_def)
qed

lemma reader_continue_goes_on:
  "reader_continue E rs = (st, s') \<Longrightarrow> st \<noteq> Exited \<Longrightarrow> s' = snd rs"
  by (cases rs rule: result_pair_cases) (auto simp: reader_continue_def)

text \<open>The size field of a frame whose body fits is the length of the body.\<close>

definition fits :: "session_limits \<Rightarrow> write_item \<Rightarrow> bool" where
  "fits l item \<longleftrightarrow> good_item item \<and> length (wi_body item) \<le> unat (max_message_bytes l)"

lemma fits_size:
  assumes "fits l item"
  shows "unat (wi_header item ! 1) = length (wi_body item)"
    and "\<not> wi_header item ! 1 > max_message_bytes l"
proof -
  have le: "length (wi_body item) \<le> unat (max_message_bytes l)" and h: "wi_header item ! 1 = of_nat (length (wi_body item))"
    using assms by (simp_all add: fits_def good_item_def)
  have "length (wi_body item) < 2 ^ 64"
    using le unat_u64_bound [of "max_message_bytes l"] by (rule le_less_trans)
  then show u: "unat (wi_header item ! 1) = length (wi_body item)"
    by (simp add: h unat_of_nat del: One_nat_def)
  show "\<not> wi_header item ! 1 > max_message_bytes l"
    using le u by (simp add: word_less_nat_alt)
qed

lemma dispatch_request_fits:
  assumes lib: "library_ok E buffered opened incoming outgoing"
    and "incoming (stream s) = body @ rest" and "unat (h ! 1) = length body"
    and "\<not> h ! 1 > max_message_bytes (limits s)"
  shows "\<exists>st. incoming st = rest \<and> outgoing st = outgoing (stream s) \<and> dispatch_request E now h s =
     (if fst (try_take 1 now (request_bucket s))
      then (Inr (), s\<lparr>request_bucket := snd (try_take 1 now (request_bucket s)), stream := st,
                     request_tasks := request_tasks s @ [Spawned h body]\<rparr>)
      else respond E error h [] ((log_error_async ''Request rate limit exceeded''
             (s\<lparr>request_bucket := snd (try_take 1 now (request_bucket s))\<rparr>))\<lparr>stream := st\<rparr>))"
proof -
  obtain ok b where tt: "try_take 1 now (request_bucket s) = (ok, b)"
    by force
  let ?s0 = "if ok then s\<lparr>request_bucket := b\<rparr>
    else log_error_async ''Request rate limit exceeded'' (s\<lparr>request_bucket := b\<rparr>)"
  have "incoming (stream ?s0) = body @ rest"
    using assms(2) by simp
  from deadline_read_prompt [OF lib this, of "unat (h ! 1)" "message_read_timeout (limits s)"] assms(3)
  obtain st where "deadline_read E (unat (h ! 1)) (message_read_timeout (limits s)) ?s0 = (Inr body, ?s0\<lparr>stream := st\<rparr>)"
    "incoming st = rest" "outgoing st = outgoing (stream s)"
    by auto
  with assms(4) tt show ?thesis
    by (intro exI [of _ st]) (auto simp: dispatch_request_def Let_def)
qed

lemma handle_response_fits:
  assumes lib: "library_ok E buffered opened incoming outgoing"
    and "incoming (stream s) = body @ rest" and "unat (h ! 1) = length body"
    and "\<not> h ! 1 > max_message_bytes (limits s)"
  shows "\<exists>st. incoming st = rest \<and> outgoing st = outgoing (stream s) \<and> handle_response E h s =
     run_complete (complete_operation (rc_ops E) (h ! 4) None body (async_mgr s)) (s\<lparr>stream := st\<rparr>)"
proof -
  from deadline_read_prompt [OF lib assms(2), of "unat (h ! 1)" "message_read_timeout (limits s)"] assms(3)
  obtain st where "deadline_read E (unat (h ! 1)) (message_read_timeout (limits s)) s = (Inr body, s\<lparr>stream := st\<rparr>)"
    "incoming st = rest" "outgoing st = outgoing (stream s)"
    by auto
  with assms(4) show ?thesis
    by (intro exI [of _ st]) (simp add: handle_response_def Let_def complete_operation_ok_def)
qed

lemma handle_notification_fits:
  assumes lib: "library_ok E buffered opened incoming outgoing"
    and "incoming (stream s) = body @ rest" and "unat (h ! 1) = length body"
    and "\<not> h ! 1 > max_message_bytes (limits s)"
  shows "\<exists>st. incoming st = rest \<and> outgoing st = outgoing (stream s) \<and> handle_notification E h s =
     (Inr (), s\<lparr>stream := st, notification_strand := notification_strand s @ [(h ! 3, body)]\<rparr>)"
proof -
  from deadline_read_prompt [OF lib assms(2), of "unat (h ! 1)" "message_read_timeout (limits s)"] assms(3)
  obtain st where "deadline_read E (unat (h ! 1)) (message_read_timeout (limits s)) s = (Inr body, s\<lparr>stream := st\<rparr>)"
    "incoming st = rest" "outgoing st = outgoing (stream s)"
    by auto
  with assms(4) show ?thesis
    by (intro exI [of _ st]) (simp add: handle_notification_def Let_def)
qed

lemma handle_error_fits:
  assumes lib: "library_ok E buffered opened incoming outgoing"
    and "incoming (stream s) = body @ rest" and "unat (h ! 1) = length body"
    and "\<not> h ! 1 > max_message_bytes (limits s)"
  shows "\<exists>st. incoming st = rest \<and> outgoing st = outgoing (stream s) \<and> handle_error E h s =
     run_complete (complete_operation (rc_ops E) (h ! 4) (Some invalid_argument_ec) [] (async_mgr s))
       ((log_error_async ''Received error message'' s)\<lparr>stream := st\<rparr>)"
proof -
  let ?s0 = "log_error_async ''Received error message'' s"
  have "incoming (stream ?s0) = body @ rest"
    using assms(2) by simp
  from deadline_read_prompt [OF lib this, of "unat (h ! 1)" "message_read_timeout (limits s)"] assms(3)
  obtain st where rd: "deadline_read E (unat (h ! 1)) (message_read_timeout (limits s)) ?s0 = (Inr body, ?s0\<lparr>stream := st\<rparr>)"
    "incoming st = rest" "outgoing st = outgoing (stream s)"
    by auto
  show ?thesis
  proof (cases "h ! 1 = 0")
    case True
    with assms(2,3) show ?thesis
      by (intro exI [of _ "stream s"])
         (simp add: handle_error_def Let_def complete_operation_with_error_def log_error_async_def)
  next
    case False
    with rd assms(4) show ?thesis
      by (intro exI [of _ st])
         (simp add: handle_error_def Let_def complete_operation_with_error_def word_neq_0_conv)
  qed
qed

lemma msg_reader_frame_sync:
  assumes lib: "library_ok E buffered opened incoming outgoing"
    and fits: "fits (limits s) item" and inc: "incoming (stream s) = wi_body item @ rest"
    and step: "msg_reader_frame E now (wi_header item) s = (st, s')" and on: "st \<noteq> Exited"
  shows "incoming (stream s') = rest"
proof -
  obtain mt where mt: "to_msg_type (wi_header item ! 2) = Some mt"
    using fits by (auto simp: fits_def good_item_def)
  have magic: "wi_header item ! 0 = MAGIC_HEADER_NUMBER"
    using fits by (simp add: fits_def good_item_def)
  note sz = fits_size [OF fits]
  note cont = reader_continue_goes_on [OF _ on]
  show ?thesis
  proof (cases mt)
    case request
    with mt magic step have "s' = snd (dispatch_request E now (wi_header item) s)"
      by (simp add: msg_reader_frame_def cont)
    with dispatch_request_fits [OF lib inc sz, of now] show ?thesis
      by auto
  next
    case response
    with mt magic step have "s' = snd (handle_response E (wi_header item) s)"
      by (simp add: msg_reader_frame_def cont)
    with handle_response_fits [OF lib inc sz] show ?thesis
      by auto
  next
    case notification
    with mt magic step have "s' = snd (handle_notification E (wi_header item) s)"
      by (simp add: msg_reader_frame_def cont)
    with handle_notification_fits [OF lib inc sz] show ?thesis
      by auto
  next
    case error
    with mt magic step have "s' = snd (handle_error E (wi_header item) s)"
      by (simp add: msg_reader_frame_def cont)
    with handle_error_fits [OF lib inc sz] show ?thesis
      by auto
  qed (use mt magic inc fits step in \<open>auto simp: msg_reader_frame_def fits_def good_item_def\<close>)
qed

lemma limits_dispatch_request [simp]: "limits (snd (dispatch_request E now h s)) = limits s"
proof -
  have "limits s2 = limits s" if "deadline_read E n t (log_error_async m (s\<lparr>request_bucket := b\<rparr>)) = (r, s2)"
      for n t m b r s2
    using deadline_read_fields(5) [of E n t "log_error_async m (s\<lparr>request_bucket := b\<rparr>)"] that by simp
  moreover have "limits s2 = limits s" if "deadline_read E n t (s\<lparr>request_bucket := b\<rparr>) = (r, s2)" for n t b r s2
    using deadline_read_fields(5) [of E n t "s\<lparr>request_bucket := b\<rparr>"] that by simp
  moreover have "limits s2 = limits s" if "respond E mt h [] (log_error_async m s) = (r, s2)" for mt m r s2
    using respond_fields(5) [of E mt h "[]" "log_error_async m s"] that by simp
  ultimately show ?thesis
    by (auto simp: dispatch_request_def Let_def split: prod.split sum.split)
qed

lemma limits_read_handler:
  assumes "deadline_read E n t s = (r, s1)"
  shows "limits s1 = limits s"
  using deadline_read_fields(5) [of E n t s] assms by simp

lemma limits_handlers [simp]:
  "limits (snd (handle_response E h s)) = limits s"
  "limits (snd (handle_notification E h s)) = limits s"
  "limits (snd (handle_error E h s)) = limits s"
  by (auto simp: handle_response_def handle_notification_def handle_error_def Let_def
      dest: limits_read_handler split: prod.split sum.split)

lemma limits_reader_continue [simp]: "limits (snd (reader_continue E rs)) = limits (snd rs)"
  by (cases rs rule: result_pair_cases) (simp_all add: reader_continue_def)

lemma limits_msg_reader_frame [simp]: "limits (snd (msg_reader_frame E now h s)) = limits s"
  by (simp add: msg_reader_frame_def split: option.split msg_type.split)

lemma limits_msg_reader_step [simp]: "limits (snd (msg_reader_step E now s)) = limits s"
  by (auto simp: msg_reader_step_def dest: limits_read_handler split: prod.split sum.split)

text \<open>The reader's iterations at the given clock readings, up to the one that leaves the loop.\<close>

fun reader_run ::
    "('st, 'wc, 'rc, 'v, 'app) session_env \<Rightarrow> int list \<Rightarrow> ('st, 'wc, 'rc, 'app) session \<Rightarrow>
     ('st, 'wc, 'rc, 'app) session" where
  "reader_run E [] s = s"
| "reader_run E (t # ts) s =
     (let (st, s') = msg_reader_step E t s in if st = Exited then s' else reader_run E ts s')"

text \<open>
  C7: the reader never loses the frame boundary. On a stream of well-formed frames within the
  size limit (and no body on keepalives), each iteration that goes on consumes exactly the bytes of
  one frame, whatever the frame's type, whether the call is known, rate limited or its handler
  failed; after as many iterations as frames the reader stands at the first byte behind them,
  unless it closed the session.
\<close>

theorem reader_stays_in_sync:
  assumes "library_ok E buffered opened incoming outgoing"
    and "\<forall>item \<in> set items. fits (limits s) item" and "length ts = length items"
    and "incoming (stream s) = concat (map (frame_bytes (env_plat E)) items) @ rest"
  shows "is_closed (reader_run E ts s) \<or> incoming (stream (reader_run E ts s)) = rest"
  using assms(2-4)
proof (induction items arbitrary: ts s)
  case Nil
  then show ?case by simp
next
  case (Cons item items)
  obtain t ts' where ts: "ts = t # ts'"
    using Cons.prems(2) by (cases ts) auto
  obtain st s' where step: "msg_reader_step E t s = (st, s')"
    by force
  let ?rest = "concat (map (frame_bytes (env_plat E)) items) @ rest"
  have fits: "fits (limits s) item"
    using Cons.prems(1) by simp
  then have len: "length (wi_header item) = 5"
    by (simp add: fits_def good_item_def)
  have "incoming (stream s) = frame_bytes (env_plat E) item @ ?rest"
    using Cons.prems(3) by simp
  from read_frame_header [OF assms(1) len this, of t] obtain str
    where frame: "msg_reader_step E t s = msg_reader_frame E t (wi_header item) (s\<lparr>stream := str\<rparr>)"
      and str: "incoming str = wi_body item @ ?rest"
    by blast
  show ?case
  proof (cases "st = Exited")
    case True
    with reader_exit_closes [of E t s s'] step ts show ?thesis
      by simp
  next
    case False
    then have "incoming (stream s') = ?rest"
      using msg_reader_frame_sync [OF assms(1), of "s\<lparr>stream := str\<rparr>" item ?rest t st s'] fits step frame str by simp
    with False Cons.IH [of s' ts'] Cons.prems ts step limits_msg_reader_step [of E t s] show ?thesis
      by simp
  qed
qed

theorem reader_stays_in_sync_witness:
  "\<exists>s'. s' = reader_run (sample_env empty_dispatcher) [5, 6] (sample_session empty_dispatcher
       (frame_bytes sample_platform \<lparr>wi_header = make_header request 2 7 1, wi_body = [1, 2]\<rparr>
        @ frame_bytes sample_platform \<lparr>wi_header = make_header ping 0 0 0, wi_body = []\<rparr> @ [9]))
     \<and> (is_closed s' \<or> ms_incoming (stream s') = [9])"
proof -
  let ?i = "[\<lparr>wi_header = make_header request 2 7 1, wi_body = [1, 2]\<rparr>,
             \<lparr>wi_header = make_header ping 0 0 0, wi_body = []\<rparr>]"
  let ?s = "sample_session empty_dispatcher (concat (map (frame_bytes sample_platform) ?i) @ [9])"
  have "\<forall>item \<in> set ?i. fits (limits ?s) item"
    by (simp add: fits_def good_item_def sample_session_def make_session_def default_session_limits_def)
  moreover have "ms_incoming (stream ?s) =
      concat (map (frame_bytes (env_plat (sample_env empty_dispatcher))) ?i) @ [9]"
    by (simp add: ms_incoming_def sample_session_def make_session_def sample_env_def le_env_def sample_platform_def)
  ultimately show ?thesis
    using reader_stays_in_sync [OF sample_library_ok, of ?i ?s "[5, 6]" empty_dispatcher "[9]"]
    by (simp del: reader_run.simps)
qed

end
