(* ===== verification/Session_Requests.thy ===== *)
theory Session_Requests
  imports Session_Protocol
begin

text \<open>
  Correctness of what a session does with each kind of frame: violations, keepalives, requests and
  their replies, the request-rate limit, responses, and notifications.
\<close>

section \<open>Framing violations\<close>

lemma close_cancels:
  "\<not> is_closed s \<Longrightarrow> pending_operations_count (async_mgr (close E s)) = 0"
  by (simp add: close_def Let_def pending_operations_count_def cancel_all_operations_def um_size_def um_empty_def)

lemma close_queue:
  assumes "library_ok E buffered opened incoming outgoing"
  shows "buffered (write_channel (close E s)) = buffered (write_channel s)"
    and "\<not> is_closed s \<Longrightarrow> \<not> opened (write_channel (close E s))"
  using fifo_close [OF library_okD(1) [OF assms]] by (simp_all add: close_def Let_def)

lemma violation_frame:
  assumes "h ! MAGIC_HEADER_IDX \<noteq> MAGIC_HEADER_NUMBER \<or> to_msg_type (h ! MSG_TYPE_IDX) = None"
  shows "\<exists>m. msg_reader_frame E now h s = (Exited, close E (log_error_async m s))"
proof (cases "MAGIC_HEADER_NUMBER \<noteq> h ! MAGIC_HEADER_IDX")
  case True
  then show ?thesis
    unfolding msg_reader_frame_def if_P [OF True] by blast
next
  case False
  with assms have "to_msg_type (h ! MSG_TYPE_IDX) = None"
    by simp
  then show ?thesis
    unfolding msg_reader_frame_def if_not_P [OF False] by auto
qed

text \<open>
  C32: a frame with a wrong magic number or an unknown type ends the session at once. Nothing is
  dispatched, nothing is sent in reply, and every pending call is released.
\<close>

theorem framing_violation_closes:
  assumes "library_ok E buffered opened incoming outgoing" and "length h = 5"
    and "incoming (stream s) = header_bytes (env_plat E) h @ rest"
    and "h ! MAGIC_HEADER_IDX \<noteq> MAGIC_HEADER_NUMBER \<or> to_msg_type (h ! MSG_TYPE_IDX) = None"
    and "\<not> is_closed s" and "msg_reader_step E now s = (st, s')"
  shows "st = Exited \<and> is_closed s' \<and> request_tasks s' = request_tasks s
    \<and> notification_strand s' = notification_strand s
    \<and> buffered (write_channel s') = buffered (write_channel s) \<and> \<not> opened (write_channel s')
    \<and> pending_operations_count (async_mgr s') = 0"
proof -
  have "incoming (stream s) = frame_bytes (env_plat E) \<lparr>wi_header = h, wi_body = []\<rparr> @ rest"
    using assms(3) by (simp add: frame_bytes_def)
  from read_frame_header [OF assms(1) _ this, of now] assms(2) obtain str
    where "msg_reader_step E now s = msg_reader_frame E now h (s\<lparr>stream := str\<rparr>)"
    by auto
  then obtain m where "(st, s') = (Exited, close E (log_error_async m (s\<lparr>stream := str\<rparr>)))"
    using assms(6) violation_frame [OF assms(4), of E now "s\<lparr>stream := str\<rparr>"] by auto
  then have "st = Exited" and s': "s' = close E (log_error_async m (s\<lparr>stream := str\<rparr>))"
    by simp_all
  then show ?thesis
    using close_queue [OF assms(1), of "log_error_async m (s\<lparr>stream := str\<rparr>)"] assms(5)
    by (simp add: s' close_cancels)
qed

theorem framing_violation_closes_witness:
  "\<exists>s'. msg_reader_step (sample_env empty_dispatcher) 5
      (sample_session empty_dispatcher (header_bytes sample_platform [1, 2, 3, 4, 5])) = (Exited, s') \<and> is_closed s'"
proof -
  let ?s = "sample_session empty_dispatcher (header_bytes sample_platform [1, 2, 3, 4, 5])"
  obtain st s' where "msg_reader_step (sample_env empty_dispatcher) 5 ?s = (st, s')"
    by force
  moreover have "ms_incoming (stream ?s) = header_bytes (env_plat (sample_env empty_dispatcher)) [1, 2, 3, 4, 5] @ []"
    by (simp add: ms_incoming_def sample_session_def make_session_def sample_env_def le_env_def sample_platform_def)
  moreover have "\<not> is_closed ?s"
    by (simp add: sample_session_def make_session_def)
  ultimately show ?thesis
    using framing_violation_closes [OF sample_library_ok, of "[1, 2, 3, 4, 5]" ?s empty_dispatcher "[]" 5 st s']
    by (simp add: MAGIC_HEADER_NUMBER_def)
qed

section \<open>Bounded reads\<close>

text \<open>Two streams that differ at most in reads of more than \<open>k\<close> bytes.\<close>

definition agree_upto :: "nat \<Rightarrow> 'st stream_ops \<Rightarrow> 'st stream_ops \<Rightarrow> bool" where
  "agree_upto k I J \<longleftrightarrow> (\<forall>n t st. n \<le> k \<longrightarrow> st_async_read J n t st = st_async_read I n t st)
     \<and> st_async_write J = st_async_write I \<and> st_close J = st_close I"

lemma close_other_stream: "agree_upto k (st_ops E) J \<Longrightarrow> close (E\<lparr>st_ops := J\<rparr>) s = close E s"
  by (simp add: close_def agree_upto_def)

lemma deadline_read_other_stream:
  "agree_upto k (st_ops E) J \<Longrightarrow> n \<le> k \<Longrightarrow> deadline_read (E\<lparr>st_ops := J\<rparr>) n t s = deadline_read E n t s"
  by (simp add: deadline_read_def agree_upto_def)

lemma other_stream_simps [simp]:
  "queue_write (E\<lparr>st_ops := J\<rparr>) h b s = queue_write E h b s"
  "try_write (E\<lparr>st_ops := J\<rparr>) h b s = try_write E h b s"
  "respond (E\<lparr>st_ops := J\<rparr>) mt h b s = respond E mt h b s"
  "ec_details (E\<lparr>st_ops := J\<rparr>) ec = ec_details E ec"
  by (simp_all add: queue_write_def try_write_def respond_def ec_details_def)

lemma not_oversized: "\<not> sz > max_message_bytes l \<Longrightarrow> unat (max_message_bytes l) \<le> k \<Longrightarrow> unat sz \<le> k"
  by (simp add: word_less_nat_alt)

lemma reader_catch_other_stream:
  "agree_upto k (st_ops E) J \<Longrightarrow> reader_catch (E\<lparr>st_ops := J\<rparr>) e s = reader_catch E e s"
  by (cases e) (simp_all add: reader_catch_def close_other_stream)

lemma reader_frame_other_stream:
  assumes "agree_upto k (st_ops E) J" and "unat (max_message_bytes (limits s)) \<le> k"
  shows "msg_reader_frame (E\<lparr>st_ops := J\<rparr>) now h s = msg_reader_frame E now h s"
proof -
  note sim = close_other_stream [OF assms(1)] deadline_read_other_stream [OF assms(1)]
    not_oversized [OF _ assms(2)]
  have "dispatch_request (E\<lparr>st_ops := J\<rparr>) now h s = dispatch_request E now h s"
    by (simp add: dispatch_request_def Let_def sim split: prod.split sum.split)
  moreover have "handle_response (E\<lparr>st_ops := J\<rparr>) h s = handle_response E h s"
    by (simp add: handle_response_def Let_def sim split: prod.split sum.split)
  moreover have "handle_notification (E\<lparr>st_ops := J\<rparr>) h s = handle_notification E h s"
    by (simp add: handle_notification_def Let_def sim split: prod.split sum.split)
  moreover have "handle_error (E\<lparr>st_ops := J\<rparr>) h s = handle_error E h s"
    by (simp add: handle_error_def Let_def sim split: prod.split sum.split)
  moreover have "reader_continue (E\<lparr>st_ops := J\<rparr>) rs = reader_continue E rs" for rs
    by (simp add: reader_continue_def reader_catch_other_stream [OF assms(1)] split: prod.split sum.split)
  ultimately show ?thesis
    by (simp only: msg_reader_frame_def sim other_stream_simps)
qed

text \<open>
  C17: what the peer announces does not decide how much is read. Every read of the reader, and so
  every buffer it allocates, is the 40-byte header or at most \<open>max_message_bytes\<close>: a stream that
  behaves arbitrarily on larger reads cannot be told apart.
\<close>

theorem reads_are_bounded:
  assumes "agree_upto k (st_ops E) J" and "40 \<le> k" and "unat (max_message_bytes (limits s)) \<le> k"
  shows "msg_reader_step (E\<lparr>st_ops := J\<rparr>) now s = msg_reader_step E now s"
proof (cases "deadline_read E 40 (idle_timeout (limits s)) s" rule: result_pair_cases)
  case (Throw e s1)
  then show ?thesis
    by (simp add: msg_reader_step_def deadline_read_other_stream [OF assms(1,2)]
        reader_catch_other_stream [OF assms(1)])
next
  case (Value bs s1)
  then have "limits s1 = limits s"
    by (rule limits_read_handler)
  then show ?thesis
    using Value assms(3)
    by (simp add: msg_reader_step_def deadline_read_other_stream [OF assms(1,2)]
        reader_frame_other_stream [OF assms(1)])
qed

text \<open>A stream that fails on every read above 8 MiB.\<close>

definition small_reads_only :: "mem_stream stream_ops" where
  "small_reads_only = mem_stream_ops\<lparr>st_async_read := (\<lambda>n t st. if n \<le> 8388608
     then st_async_read mem_stream_ops n t st else ((Some connection_reset, []), st))\<rparr>"

theorem reads_are_bounded_witness:
  "msg_reader_step ((sample_env empty_dispatcher)\<lparr>st_ops := small_reads_only\<rparr>) 5 (sample_session empty_dispatcher [1, 2])
   = msg_reader_step (sample_env empty_dispatcher) 5 (sample_session empty_dispatcher [1, 2])"
  using reads_are_bounded [of 8388608 "sample_env empty_dispatcher" small_reads_only "sample_session empty_dispatcher [1, 2]" 5]
  by (simp add: agree_upto_def small_reads_only_def sample_env_def sample_session_def make_session_def
      default_session_limits_def)

section \<open>Keepalives\<close>

definition ping_item :: write_item where
  "ping_item = \<lparr>wi_header = make_header ping 0 0 0, wi_body = []\<rparr>"

definition pong_item :: write_item where
  "pong_item = \<lparr>wi_header = make_header pong 0 0 0, wi_body = []\<rparr>"

text \<open>
  Keepalives cannot loop. A ping queues exactly one pong, when the queue has room, and a pong
  or a nop queues nothing; none of them reaches a handler or a pending call, and the reader goes on
  at the next frame.
\<close>

theorem keepalive_answered_once:
  assumes "library_ok E buffered opened incoming outgoing" and "mt \<in> {nop, ping, pong}"
    and "incoming (stream s) = frame_bytes (env_plat E) \<lparr>wi_header = make_header mt 0 cid tok, wi_body = []\<rparr> @ rest"
    and "msg_reader_step E now s = (st, s')"
  shows "st = Continue \<and> incoming (stream s') = rest
    \<and> buffered (write_channel s') = buffered (write_channel s) @
        (if mt = ping \<and> fst (ch_try_send (wc_ops E) pong_item (write_channel s)) then [pong_item] else [])
    \<and> request_tasks s' = request_tasks s \<and> notification_strand s' = notification_strand s
    \<and> async_mgr s' = async_mgr s \<and> is_closed s' = is_closed s"
proof -
  from read_frame_header [OF assms(1) _ assms(3), of now] obtain str
    where step: "msg_reader_step E now s = msg_reader_frame E now (make_header mt 0 cid tok) (s\<lparr>stream := str\<rparr>)"
      and str: "incoming str = rest"
    by auto
  obtain ok c where send: "ch_try_send (wc_ops E) pong_item (write_channel s) = (ok, c)"
    by force
  show ?thesis
    using assms(2,4) step str fifo_try_send [OF library_okD(1) [OF assms(1)] send] send
    by (auto simp: msg_reader_frame_def try_write_def pong_item_def)
qed

theorem keepalive_answered_once_witness:
  "lc_buffered (write_channel (snd (msg_reader_step (sample_env empty_dispatcher) 5
     (sample_session empty_dispatcher (frame_bytes sample_platform ping_item))))) = [pong_item]"
proof -
  let ?s = "sample_session empty_dispatcher (frame_bytes sample_platform ping_item)"
  have "ms_incoming (stream ?s) = frame_bytes (env_plat (sample_env empty_dispatcher)) ping_item @ []"
    by (simp add: ms_incoming_def sample_session_def make_session_def sample_env_def le_env_def sample_platform_def)
  then show ?thesis
    using keepalive_answered_once [OF sample_library_ok, of ping ?s empty_dispatcher 0 0 "[]" 5
        "fst (msg_reader_step (sample_env empty_dispatcher) 5 ?s)" "snd (msg_reader_step (sample_env empty_dispatcher) 5 ?s)"]
    by (simp add: ping_item_def [symmetric] lc_buffered_def) (simp add: sample_session_def make_session_def sample_env_def list_channel_ops_def)
qed

section \<open>Requests and replies\<close>

text \<open>The write channel takes what is sent to it.\<close>

definition accepts :: "('st, 'wc, 'rc, 'v, 'app) session_env \<Rightarrow> ('st, 'wc, 'rc, 'app) session \<Rightarrow> bool" where
  "accepts E s \<longleftrightarrow> (\<forall>x. fst (ch_async_send (wc_ops E) x (write_channel s)) = None)"

definition reply_item :: "msg_type \<Rightarrow> header_type \<Rightarrow> buffer_type \<Rightarrow> write_item" where
  "reply_item mt req_header body =
     \<lparr>wi_header = make_header mt (of_nat (length body)) (req_header ! CALL_ID_IDX) (req_header ! USER_TOKEN_IDX),
      wi_body = body\<rparr>"

lemma respond_accepted:
  assumes lib: "library_ok E buffered opened incoming outgoing" and "accepts E s"
  shows "\<exists>c. respond E mt h b s = (Inr (), s\<lparr>write_channel := c\<rparr>)
    \<and> buffered c = buffered (write_channel s) @ [reply_item mt h b]"
proof -
  let ?x = "reply_item mt h b"
  obtain c where send: "ch_async_send (wc_ops E) ?x (write_channel s) = (None, c)"
    using assms(2) unfolding accepts_def by (metis prod.collapse)
  from fifo_async_send [OF library_okD(1) [OF lib] send] show ?thesis
    using send by (intro exI [of _ c]) (simp add: respond_def queue_write_def reply_item_def)
qed

lemma respond_at_most_one:
  assumes lib: "library_ok E buffered opened incoming outgoing" and "respond E mt h b s = (r, s')"
  shows "buffered (write_channel s') = buffered (write_channel s) @ (if r = Inr () then [reply_item mt h b] else [])"
proof -
  let ?x = "reply_item mt h b"
  obtain ec c where send: "ch_async_send (wc_ops E) ?x (write_channel s) = (ec, c)"
    by force
  from fifo_async_send [OF library_okD(1) [OF lib] send] show ?thesis
    using send assms(2) by (cases ec) (auto simp: respond_def queue_write_def reply_item_def)
qed

text \<open>Reading a request the bucket pays for spawns its task and nothing else.\<close>

lemma read_request:
  assumes lib: "library_ok E buffered opened incoming outgoing"
    and "item = \<lparr>wi_header = make_header request (of_nat (length body)) cid tok, wi_body = body\<rparr>"
    and "fits (limits s) item" and "incoming (stream s) = frame_bytes (env_plat E) item @ rest"
    and "fst (try_take 1 now (request_bucket s))" and "msg_reader_step E now s = (st, s')"
  shows "st = Continue \<and> incoming (stream s') = rest
    \<and> request_tasks s' = request_tasks s @ [Spawned (wi_header item) body] \<and> request_ctx s' = request_ctx s
    \<and> write_channel s' = write_channel s \<and> outgoing (stream s') = outgoing (stream s)"
proof -
  have "length (wi_header item) = 5"
    using assms(2) by simp
  from read_frame_header [OF lib this assms(4), of now] obtain str
    where step: "msg_reader_step E now s = msg_reader_frame E now (wi_header item) (s\<lparr>stream := str\<rparr>)"
      and str: "incoming (stream (s\<lparr>stream := str\<rparr>)) = body @ rest"
      and out: "outgoing str = outgoing (stream s)"
    using assms(2) by auto
  have sz: "unat (wi_header item ! 1) = length body" "\<not> wi_header item ! 1 > max_message_bytes (limits (s\<lparr>stream := str\<rparr>))"
    using fits_size [OF assms(3)] assms(2) by simp_all
  from dispatch_request_fits [OF lib str sz, of now] assms(2,5,6) step out show ?thesis
    by (auto simp: msg_reader_frame_def reader_continue_def request_ctx_def)
qed

lemma run_handler_outcome:
  assumes "run_handler E h buf s a = (t, s1, a1)"
  obtains rsp where "t = Replying h (Some rsp)" | "t = Replying h None"
  using assms by (auto simp: run_handler_def Let_def split: prod.splits sum.splits)


lemma sample_accepts: "accepts (sample_env d) (sample_session d inp)"
  by (simp add: accepts_def sample_env_def sample_session_def make_session_def list_channel_ops_def)


section \<open>Size and rate limits\<close>

text \<open>
  C37: an oversized request is refused unread. The reader takes only its header from the stream,
  queues an error with the request's call id and token and closes the session, stream included; it
  runs nothing and does not charge the request to the rate limit.
\<close>

theorem oversized_request_refused:
  assumes "library_ok E buffered opened incoming outgoing" and "accepts E s" and "\<not> is_closed s"
    and "incoming (stream s) = header_bytes (env_plat E) (make_header request sz cid tok) @ rest"
    and "sz > max_message_bytes (limits s)" and "msg_reader_step E now s = (st, s')"
  shows "is_closed s' \<and> incoming (stream s') = [] \<and> request_tasks s' = request_tasks s
    \<and> request_bucket s' = request_bucket s
    \<and> buffered (write_channel s') = buffered (write_channel s) @ [reply_item error (make_header request sz cid tok) []]"
proof -
  let ?h = "make_header request sz cid tok"
  have "incoming (stream s) = frame_bytes (env_plat E) \<lparr>wi_header = ?h, wi_body = []\<rparr> @ rest"
    using assms(4) by (simp add: frame_bytes_def)
  from read_frame_header [OF assms(1) _ this, of now] obtain str
    where step: "msg_reader_step E now s = msg_reader_frame E now ?h (s\<lparr>stream := str\<rparr>)"
      and str: "incoming str = rest"
    by auto
  let ?s0 = "log_error_async (''Rejecting oversized request: '' @ to_string (unat sz)
                @ '' > limit '' @ to_string (unat (max_message_bytes (limits s)))) (s\<lparr>stream := str\<rparr>)"
  have "accepts E ?s0"
    using assms(2) by (simp add: accepts_def)
  from respond_accepted [OF assms(1) this, of error ?h "[]"] obtain c
    where r: "respond E error ?h [] ?s0 = (Inr (), ?s0\<lparr>write_channel := c\<rparr>)"
      and c: "buffered c = buffered (write_channel s) @ [reply_item error ?h []]"
    by auto
  have "dispatch_request E now ?h (s\<lparr>stream := str\<rparr>) = (Inr (), close E (?s0\<lparr>write_channel := c\<rparr>))"
    using assms(5) r by (simp add: dispatch_request_def)
  then have "s' = close E (?s0\<lparr>write_channel := c\<rparr>)"
    using assms(6) step by (auto simp: msg_reader_frame_def reader_continue_def)
  then show ?thesis
    using close_queue(1) [OF assms(1), of "?s0\<lparr>write_channel := c\<rparr>"] c assms(3)
      byte_stream_close [OF library_okD(3) [OF assms(1)]]
    by (simp add: close_def Let_def)
qed

theorem oversized_request_refused_witness:
  "is_closed (snd (msg_reader_step (sample_env empty_dispatcher) 5 (sample_session empty_dispatcher
     (header_bytes sample_platform (make_header request 9000000 7 1)))))"
proof -
  let ?s = "sample_session empty_dispatcher (header_bytes sample_platform (make_header request 9000000 7 1))"
  have "ms_incoming (stream ?s) = header_bytes (env_plat (sample_env empty_dispatcher)) (make_header request 9000000 7 1) @ []"
    by (simp add: ms_incoming_def sample_session_def make_session_def sample_env_def le_env_def sample_platform_def)
  moreover have "\<not> is_closed ?s" "(9000000 :: u64) > max_message_bytes (limits ?s)"
    by (simp_all add: sample_session_def make_session_def default_session_limits_def)
  ultimately show ?thesis
    using oversized_request_refused [OF sample_library_ok sample_accepts,
      of empty_dispatcher "header_bytes sample_platform (make_header request 9000000 7 1)" 9000000 7 1 "[]" 5]
    by (metis prod.collapse)
qed

text \<open>
  A request over the rate limit is drained and refused without closing the session: its body
  is consumed, so the next frame is read from its start, an error with its call id and token is
  queued, no handler is run, and the reader goes on.
\<close>

theorem rate_limited_request_refused:
  assumes "library_ok E buffered opened incoming outgoing" and "accepts E s"
    and "item = \<lparr>wi_header = make_header request (of_nat (length body)) cid tok, wi_body = body\<rparr>"
    and "fits (limits s) item" and "incoming (stream s) = frame_bytes (env_plat E) item @ rest"
    and "\<not> fst (try_take 1 now (request_bucket s))" and "msg_reader_step E now s = (st, s')"
  shows "st = Continue \<and> incoming (stream s') = rest \<and> request_tasks s' = request_tasks s
    \<and> is_closed s' = is_closed s
    \<and> buffered (write_channel s') = buffered (write_channel s) @ [reply_item error (wi_header item) []]"
proof -
  have "length (wi_header item) = 5"
    using assms(3) by simp
  from read_frame_header [OF assms(1) this assms(5), of now] obtain str
    where step: "msg_reader_step E now s = msg_reader_frame E now (wi_header item) (s\<lparr>stream := str\<rparr>)"
      and str: "incoming str = body @ rest"
    using assms(3) by auto
  have sz: "unat (wi_header item ! 1) = length body" "\<not> wi_header item ! 1 > max_message_bytes (limits (s\<lparr>stream := str\<rparr>))"
    using fits_size [OF assms(4)] assms(3) by simp_all
  let ?s1 = "log_error_async ''Request rate limit exceeded''
             (s\<lparr>stream := str, request_bucket := snd (try_take 1 now (request_bucket s))\<rparr>)"
  obtain st2 where st2: "incoming st2 = rest"
    and d: "dispatch_request E now (wi_header item) (s\<lparr>stream := str\<rparr>) = respond E error (wi_header item) [] (?s1\<lparr>stream := st2\<rparr>)"
    using dispatch_request_fits [OF assms(1) _ sz, of rest now] str assms(6) by auto
  have "accepts E (?s1\<lparr>stream := st2\<rparr>)"
    using assms(2) by (simp add: accepts_def)
  from respond_accepted [OF assms(1) this, of error "wi_header item" "[]"] obtain c
    where "respond E error (wi_header item) [] (?s1\<lparr>stream := st2\<rparr>) = (Inr (), ?s1\<lparr>stream := st2, write_channel := c\<rparr>)"
      and "buffered c = buffered (write_channel s) @ [reply_item error (wi_header item) []]"
    by auto
  then show ?thesis
    using d st2 step assms(3,7) by (auto simp: msg_reader_frame_def reader_continue_def)
qed

theorem rate_limited_request_refused_witness:
  "request_tasks (snd (msg_reader_step (sample_env empty_dispatcher) 5
     ((sample_session empty_dispatcher (frame_bytes sample_platform
         \<lparr>wi_header = make_header request 2 7 1, wi_body = [1, 2]\<rparr>))
       \<lparr>request_bucket := \<lparr>capacity = 1, refill_per_sec = 0, tokens = 0, last_refill = 5\<rparr>\<rparr>))) = []"
proof -
  let ?i = "\<lparr>wi_header = make_header request (of_nat (length [1 :: u8, 2])) 7 1, wi_body = [1, 2]\<rparr>"
  let ?s = "(sample_session empty_dispatcher (frame_bytes sample_platform ?i))
       \<lparr>request_bucket := \<lparr>capacity = 1, refill_per_sec = 0, tokens = 0, last_refill = 5\<rparr>\<rparr>"
  have inc: "ms_incoming (stream ?s) = frame_bytes (env_plat (sample_env empty_dispatcher)) ?i @ []"
    by (simp add: ms_incoming_def sample_session_def make_session_def sample_env_def le_env_def sample_platform_def)
  have fits: "fits (limits ?s) ?i"
    by (simp add: fits_def good_item_def sample_session_def make_session_def default_session_limits_def)
  have acc: "accepts (sample_env empty_dispatcher) ?s"
    by (simp add: accepts_def sample_env_def sample_session_def make_session_def list_channel_ops_def)
  have tt: "\<not> fst (try_take 1 5 (request_bucket ?s))"
    by (simp add: try_take_def refill_def Let_def)
  have "request_tasks ?s = []"
    by (simp add: sample_session_def make_session_def)
  with rate_limited_request_refused [OF sample_library_ok acc refl fits inc tt surjective_pairing] show ?thesis
    by simp
qed

lemma dispatch_request_bucket:
  assumes "dispatch_request E t h s = (r, s')"
  shows "(request_bucket s' = request_bucket s \<and> request_tasks s' = request_tasks s)
    \<or> (request_bucket s' = snd (try_take 1 t (request_bucket s))
       \<and> length (request_tasks s') \<le> length (request_tasks s) + (if fst (try_take 1 t (request_bucket s)) then 1 else 0))"
proof (cases "h ! MSG_SIZE_IDX > max_message_bytes (limits s)")
  case True
  let ?log = "log_error_async (''Rejecting oversized request: '' @ to_string (unat (h ! MSG_SIZE_IDX))
                @ '' > limit '' @ to_string (unat (max_message_bytes (limits s)))) s"
  obtain r1 s1 where r1: "respond E error h [] ?log = (r1, s1)"
    by force
  have "request_bucket s1 = request_bucket s \<and> request_tasks s1 = request_tasks s"
    using respond_fields(12,13) [of E error h "[]" ?log] unfolding r1 by simp
  moreover have "s' = s1 \<or> s' = close E s1"
    using assms True r1 by (auto simp: dispatch_request_def Let_def split: sum.splits)
  ultimately show ?thesis
    by auto
next
  case False
  obtain ok b where tt: "try_take 1 t (request_bucket s) = (ok, b)"
    by force
  let ?s1 = "s\<lparr>request_bucket := b\<rparr>"
  let ?s0 = "if ok then ?s1 else log_error_async ''Request rate limit exceeded'' ?s1"
  obtain r2 s2 where rd: "deadline_read E (unat (h ! MSG_SIZE_IDX)) (message_read_timeout (limits s)) ?s0 = (r2, s2)"
    by force
  have "request_bucket s2 = b \<and> request_tasks s2 = request_tasks s"
    using deadline_read_fields(12,13) [of E "unat (h ! MSG_SIZE_IDX)" "message_read_timeout (limits s)" ?s0]
    unfolding rd by simp
  moreover have "s' = s2 \<or> (ok \<and> (\<exists>x. s' = s2\<lparr>request_tasks := request_tasks s2 @ [x]\<rparr>)) \<or> s' = snd (respond E error h [] s2)"
    using assms False tt rd by (auto simp: dispatch_request_def Let_def split: if_splits sum.splits)
  ultimately show ?thesis
    using tt by auto
qed

lemma handlers_bucket:
  "request_bucket (snd (handle_response E h s)) = request_bucket s"
  "request_tasks (snd (handle_response E h s)) = request_tasks s"
  "request_bucket (snd (handle_notification E h s)) = request_bucket s"
  "request_tasks (snd (handle_notification E h s)) = request_tasks s"
  "request_bucket (snd (handle_error E h s)) = request_bucket s"
  "request_tasks (snd (handle_error E h s)) = request_tasks s"
proof -
  have read: "deadline_read E n t s0 = (r, s1) \<Longrightarrow> request_bucket s1 = request_bucket s0 \<and> request_tasks s1 = request_tasks s0"
    for n t s0 r s1
    by (metis deadline_read_fields(12,13) snd_conv)
  show "request_bucket (snd (handle_response E h s)) = request_bucket s"
    "request_tasks (snd (handle_response E h s)) = request_tasks s"
    "request_bucket (snd (handle_notification E h s)) = request_bucket s"
    "request_tasks (snd (handle_notification E h s)) = request_tasks s"
    "request_bucket (snd (handle_error E h s)) = request_bucket s"
    "request_tasks (snd (handle_error E h s)) = request_tasks s"
    by (auto simp: handle_response_def handle_notification_def handle_error_def Let_def
        dest: read split: prod.split sum.split)
qed

lemma reader_continue_bucket [simp]:
  "request_bucket (snd (reader_continue E rs)) = request_bucket (snd rs)"
  "request_tasks (snd (reader_continue E rs)) = request_tasks (snd rs)"
  by (cases rs rule: result_pair_cases; simp add: reader_continue_def)+

lemma reader_step_bucket:
  "(request_bucket (snd (msg_reader_step E t s)) = request_bucket s
      \<and> request_tasks (snd (msg_reader_step E t s)) = request_tasks s)
   \<or> (request_bucket (snd (msg_reader_step E t s)) = snd (try_take 1 t (request_bucket s))
      \<and> length (request_tasks (snd (msg_reader_step E t s)))
          \<le> length (request_tasks s) + (if fst (try_take 1 t (request_bucket s)) then 1 else 0))"
proof (cases "deadline_read E 40 (idle_timeout (limits s)) s" rule: result_pair_cases)
  case (Throw e s1)
  then have "request_bucket s1 = request_bucket s" "request_tasks s1 = request_tasks s"
    by (metis deadline_read_fields(12,13) snd_conv)+
  with Throw show ?thesis
    by (simp add: msg_reader_step_def)
next
  case (Value bs s1)
  let ?h = "header_of_bytes (env_plat E) 5 bs"
  have s1: "request_bucket s1 = request_bucket s" "request_tasks s1 = request_tasks s"
    using Value by (metis deadline_read_fields(12,13) snd_conv)+
  have step: "msg_reader_step E t s = msg_reader_frame E t ?h s1"
    by (simp add: msg_reader_step_def Value)
  show ?thesis
    using dispatch_request_bucket [OF surjective_pairing, of E t ?h s1]
    by (auto simp: step msg_reader_frame_def handlers_bucket s1 split: option.split msg_type.split)
qed

lemma reader_run_grants:
  "\<exists>us. subseq us ts \<and> length (request_tasks (reader_run E ts s))
     \<le> length (request_tasks s) + fst (grants (try_take 1) us (request_bucket s))"
proof (induction ts arbitrary: s)
  case Nil
  then show ?case by (intro exI [of _ "[]"]) simp
next
  case (Cons t ts)
  let ?s = "snd (msg_reader_step E t s)"
  have run: "reader_run E (t # ts) s = (if fst (msg_reader_step E t s) = Exited then ?s else reader_run E ts ?s)"
    by (simp add: split_beta)
  obtain us where us: "subseq us ts" "length (request_tasks (reader_run E (t # ts) s))
      \<le> length (request_tasks ?s) + fst (grants (try_take 1) us (request_bucket ?s))"
  proof (cases "fst (msg_reader_step E t s) = Exited")
    case True
    with that [of "[]"] show ?thesis
      by (simp add: run del: reader_run.simps)
  next
    case False
    with Cons.IH [of ?s] that show ?thesis
      unfolding run by auto
  qed
  from reader_step_bucket [of E t s] show ?case
  proof
    assume "request_bucket ?s = request_bucket s \<and> request_tasks ?s = request_tasks s"
    with us show ?thesis
      by (intro exI [of _ us]) (auto simp del: reader_run.simps)
  next
    assume "request_bucket ?s = snd (try_take 1 t (request_bucket s))
      \<and> length (request_tasks ?s) \<le> length (request_tasks s) + (if fst (try_take 1 t (request_bucket s)) then 1 else 0)"
    with us show ?thesis
      by (intro exI [of _ "t # us"]) (simp add: grants_Cons del: grants.simps reader_run.simps)
  qed
qed

lemma sorted_hd_last:
  assumes "sorted (ts :: int list)" and "x \<in> set ts"
  shows "hd ts \<le> x" and "x \<le> last ts"
  using assms by (induction ts) auto

lemma subseq_sorted_last:
  assumes "subseq us ts" and "sorted (ts :: int list)" and "us \<noteq> []"
  shows "sorted us" and "hd ts \<le> hd us" and "last us \<le> last ts"
proof -
  have sub: "subseq xs ys \<Longrightarrow> set xs \<subseteq> set ys" for xs ys :: "int list"
    by (auto dest: list_emb_set)
  show "sorted us"
    using assms(1,2)
  proof (induction rule: list_emb.induct)
    case (list_emb_Cons2 x y xs ys)
    with sub [of xs ys] show ?case
      by auto
  qed auto
  have "hd us \<in> set ts" "last us \<in> set ts"
    using sub [OF assms(1)] assms(3) by auto
  then show "hd ts \<le> hd us" "last us \<le> last ts"
    by (simp_all add: sorted_hd_last [OF assms(2)])
qed

text \<open>
  C34: the request-rate limit holds over any run of the reader. From a session whose bucket was never
  used, whatever bytes the peer sends, the number of requests handed to handlers never exceeds the
  burst plus what the elapsed time refilled.
\<close>

theorem request_rate_bounded:
  assumes "last_refill (request_bucket s) = 0" and "0 < capacity (request_bucket s)"
    and "0 \<le> refill_per_sec (request_bucket s)" and "0 < t0" and "sorted (t0 # ts)"
  shows "real (length (request_tasks (reader_run E (t0 # ts) s)))
    \<le> real (length (request_tasks s)) + capacity (request_bucket s)
       + seconds_between t0 (last (t0 # ts)) * refill_per_sec (request_bucket s)"
proof -
  let ?b = "request_bucket s"
  obtain us where us: "subseq us (t0 # ts)" and n: "length (request_tasks (reader_run E (t0 # ts) s))
      \<le> length (request_tasks s) + fst (grants (try_take 1) us ?b)"
    using reader_run_grants by blast
  have "0 \<le> seconds_between t0 (last (t0 # ts)) * refill_per_sec ?b"
    using assms(3,5) by (auto intro!: mult_nonneg_nonneg seconds_between_nonneg)
  moreover have "real (fst (grants (try_take 1) us ?b))
      \<le> capacity ?b + seconds_between t0 (last (t0 # ts)) * refill_per_sec ?b" if ne: "us \<noteq> []"
  proof -
    obtain u us' where u: "us = u # us'"
      using ne by (cases us) auto
    note l = subseq_sorted_last [OF us assms(5) ne]
    have "real (fst (grants (try_take 1) us ?b)) \<le> capacity ?b + seconds_between u (last us) * refill_per_sec ?b"
      using fresh_bucket_bound [OF assms(1-3), of u us'] l assms(4) u by simp
    also have "\<dots> \<le> capacity ?b + seconds_between t0 (last (t0 # ts)) * refill_per_sec ?b"
      using l u assms(3) by (intro add_left_mono mult_right_mono) (simp_all add: seconds_between_def)
    finally show ?thesis .
  qed
  moreover have "real (length (request_tasks (reader_run E (t0 # ts) s)))
      \<le> real (length (request_tasks s)) + real (fst (grants (try_take 1) us ?b))"
    using n by linarith
  ultimately show ?thesis
    using assms(2) by (cases "us = []") (simp, linarith)
qed

theorem request_rate_bounded_witness:
  "real (length (request_tasks (reader_run (sample_env empty_dispatcher) [5, 6, 7] (sample_session empty_dispatcher []))))
     \<le> 200 + 2 / 1000000"
  using request_rate_bounded [of "sample_session empty_dispatcher []" 5 "[6, 7]" "sample_env empty_dispatcher"]
  by (simp add: sample_session_def make_session_def default_session_limits_def default_token_bucket_def
      seconds_between_def del: reader_run.simps)

section \<open>Notifications\<close>

definition notification_item :: "u64 \<Rightarrow> u64 \<times> buffer_type \<Rightarrow> write_item" where
  "notification_item tok n =
     \<lparr>wi_header = make_header notification (of_nat (length (snd n))) (fst n) tok, wi_body = snd n\<rparr>"

lemma read_notification:
  assumes lib: "library_ok E buffered opened incoming outgoing" and "fits (limits s) (notification_item tok n)"
    and "incoming (stream s) = frame_bytes (env_plat E) (notification_item tok n) @ rest"
  shows "\<exists>st. incoming st = rest \<and> msg_reader_step E now s =
    (Continue, s\<lparr>stream := st, notification_strand := notification_strand s @ [n]\<rparr>)"
proof -
  let ?i = "notification_item tok n"
  have "length (wi_header ?i) = 5"
    by (simp add: notification_item_def)
  from read_frame_header [OF lib this assms(3), of now] obtain str
    where step: "msg_reader_step E now s = msg_reader_frame E now (wi_header ?i) (s\<lparr>stream := str\<rparr>)"
      and str: "incoming (stream (s\<lparr>stream := str\<rparr>)) = snd n @ rest"
    by (auto simp: notification_item_def)
  have sz: "unat (wi_header ?i ! 1) = length (snd n)"
    "\<not> wi_header ?i ! 1 > max_message_bytes (limits (s\<lparr>stream := str\<rparr>))"
    using fits_size [OF assms(2)] by (simp_all add: notification_item_def)
  from handle_notification_fits [OF lib str sz] show ?thesis
    by (auto simp: step msg_reader_frame_def reader_continue_def notification_item_def)
qed

fun strand_run ::
    "('st, 'wc, 'rc, 'v, 'app) session_env \<Rightarrow> nat \<Rightarrow> ('st, 'wc, 'rc, 'app) session \<Rightarrow> 'app \<Rightarrow>
     ('st, 'wc, 'rc, 'app) session \<times> 'app" where
  "strand_run E 0 s a = (s, a)"
| "strand_run E (Suc n) s a = (let (s', a') = notification_step E s a in strand_run E n s' a')"

text \<open>What one notification does to the application, under the session's callback.\<close>

definition deliver ::
    "('st, 'wc, 'rc, 'v, 'app) session_env \<Rightarrow> ('st, 'wc, 'rc, 'app) session \<Rightarrow> u64 \<times> buffer_type \<Rightarrow> 'app \<Rightarrow> 'app" where
  "deliver E s n a = snd (run_notification E (fst n) (snd n) s a)"

lemma deliver_cong:
  "notification_callback s' = notification_callback s \<Longrightarrow> deliver E s' n a = deliver E s n a"
  by (simp add: deliver_def run_notification_def Let_def split: prod.split sum.split)

lemma run_notification_session:
  "notification_strand (fst (run_notification E i b s a)) = notification_strand s"
  "notification_callback (fst (run_notification E i b s a)) = notification_callback s"
  by (simp_all add: run_notification_def Let_def split: prod.split sum.split)

lemma strand_run_all:
  "notification_strand s = ns \<Longrightarrow>
   snd (strand_run E (length ns) s a) = fold (deliver E s) ns a
   \<and> notification_strand (fst (strand_run E (length ns) s a)) = []"
proof (induction ns arbitrary: s a)
  case Nil
  then show ?case by simp
next
  case (Cons n ns)
  let ?s0 = "s\<lparr>notification_strand := ns\<rparr>"
  obtain s' a' where step: "run_notification E (fst n) (snd n) ?s0 a = (s', a')"
    by force
  have s': "notification_strand s' = ns" "notification_callback s' = notification_callback s"
    using run_notification_session [of E "fst n" "snd n" ?s0 a] unfolding step by simp_all
  have "a' = deliver E s n a"
    using step deliver_cong [of ?s0 s E n a] by (simp add: deliver_def)
  moreover have "notification_step E s a = (s', a')"
    using Cons.prems step by (cases n) (simp add: notification_step_def)
  moreover have "deliver E s' = deliver E s"
    using deliver_cong [OF s'(2)] by (intro ext)
  ultimately show ?case
    using Cons.IH [OF s'(1), of a'] by simp
qed

lemma reader_run_notifications:
  assumes lib: "library_ok E buffered opened incoming outgoing"
    and "\<forall>n \<in> set ns. fits (limits s) (notification_item tok n)" and "length ts = length ns"
    and "incoming (stream s) = concat (map (frame_bytes (env_plat E)) (map (notification_item tok) ns)) @ rest"
  shows "notification_strand (reader_run E ts s) = notification_strand s @ ns
    \<and> notification_callback (reader_run E ts s) = notification_callback s"
  using assms(2-4)
proof (induction ns arbitrary: ts s)
  case Nil
  then show ?case by simp
next
  case (Cons n ns)
  obtain t ts' where ts: "ts = t # ts'"
    using Cons.prems(2) by (cases ts) auto
  obtain st where "incoming st = concat (map (frame_bytes (env_plat E)) (map (notification_item tok) ns)) @ rest"
    and step: "msg_reader_step E t s = (Continue, s\<lparr>stream := st, notification_strand := notification_strand s @ [n]\<rparr>)"
    using read_notification [OF lib, of s tok n _ t] Cons.prems by auto
  then show ?case
    using Cons.IH [of "s\<lparr>stream := st, notification_strand := notification_strand s @ [n]\<rparr>" ts'] Cons.prems(1,2)
    by (simp add: ts)
qed

text \<open>
  C35: notifications reach the application in wire order. Frames read from the stream are queued on
  the strand and executed there one after the other: the application ends in the state obtained by
  delivering them in exactly the order in which they were on the wire, each once.
\<close>

theorem notifications_in_wire_order:
  assumes "library_ok E buffered opened incoming outgoing"
    and "\<forall>n \<in> set ns. fits (limits s) (notification_item tok n)" and "length ts = length ns"
    and "incoming (stream s) = concat (map (frame_bytes (env_plat E)) (map (notification_item tok) ns)) @ rest"
    and "notification_strand s = []"
  shows "snd (strand_run E (length ns) (reader_run E ts s) a) = fold (deliver E s) ns a
    \<and> notification_strand (fst (strand_run E (length ns) (reader_run E ts s) a)) = []"
proof -
  note r = reader_run_notifications [OF assms(1-4)]
  have "deliver E (reader_run E ts s) = deliver E s"
    using r by (intro ext deliver_cong) simp
  with strand_run_all [of "reader_run E ts s" ns E a] r assms(5) show ?thesis
    by simp
qed

text \<open>An application that records what its notification callback receives, oldest first.\<close>

definition recording_session :: "buffer_type \<Rightarrow> sample_session" where
  "recording_session inp =
     set_notification_callback (Some (\<lambda>i b n. (Inr (), 10 * n + unat i))) (sample_session empty_dispatcher inp)"

theorem notifications_in_wire_order_witness:
  "snd (strand_run (sample_env empty_dispatcher) 2 (reader_run (sample_env empty_dispatcher) [5, 6]
     (recording_session (concat (map (frame_bytes sample_platform) (map (notification_item 0) [(4, [1]), (2, [])]))))) 0) = 42"
proof -
  let ?ns = "[(4, [1]), (2, [])] :: (u64 \<times> buffer_type) list"
  let ?s = "recording_session (concat (map (frame_bytes sample_platform) (map (notification_item 0) ?ns)))"
  have "ms_incoming (stream ?s) = concat (map (frame_bytes (env_plat (sample_env empty_dispatcher))) (map (notification_item 0) ?ns)) @ []"
    by (simp add: ms_incoming_def recording_session_def set_notification_callback_def sample_session_def
        make_session_def sample_env_def le_env_def sample_platform_def)
  moreover have "\<forall>n \<in> set ?ns. fits (limits ?s) (notification_item 0 n)"
    by (simp add: fits_def good_item_def notification_item_def recording_session_def set_notification_callback_def
        sample_session_def make_session_def default_session_limits_def)
  moreover have "notification_strand ?s = []"
    by (simp add: recording_session_def set_notification_callback_def sample_session_def make_session_def)
  moreover have "fold (deliver (sample_env empty_dispatcher) ?s) ?ns 0 = 42"
    by (simp add: deliver_def run_notification_def recording_session_def set_notification_callback_def)
  ultimately show ?thesis
    using notifications_in_wire_order [OF sample_library_ok, of ?ns ?s 0 "[5, 6]" empty_dispatcher "[]" 0]
    by (simp add: numeral_2_eq_2 del: reader_run.simps strand_run.simps)
qed

text \<open>
  On the server side a notification frame is not gated. The overload of \<open>dispatch\<close> it uses
  takes no client context, so the handler of any synchronous method runs, an admin method included,
  whatever authorisation callback is installed.
\<close>

theorem notification_skips_authorisation:
  assumes "notification_callback s = None" and "session_dispatcher E = set_auth_callback cb d"
    and "um_find (dispatch_table d) cid = Some entry" and "\<not> call_is_async (handler entry)"
  shows "deliver E s (cid, buf) a = snd (snd (dispatch_sync (cereal E) (handler entry) None buf a))"
  using assms
  by (simp add: deliver_def run_notification_def dispatch_def find_entry_or_throw_def set_auth_callback_def
      call_dispatch_def Let_def split: prod.split sum.split)

theorem notification_skips_authorisation_witness:
  "deliver (sample_env (sample_dispatcher admin)) (sample_session (sample_dispatcher admin) [])
     (shash64 sample_platform ''triple'', []) 0 = 1"
  using notification_skips_authorisation [of "sample_session (sample_dispatcher admin) []"
      "sample_env (sample_dispatcher admin)" "Some deny_all"
      "attach_vis sample_platform ''triple'' admin triple_call empty_dispatcher"
      "shash64 sample_platform ''triple''" "\<lparr>entry_name = ''triple'', vis = admin, handler = triple_call\<rparr>" "[]" 0]
  by (simp add: sample_session_def make_session_def sample_env_def sample_dispatcher_def attach_vis_def attach_impl_def
      dispatch_sync_def decode_message_def triple_call_def u64_ctype_def)

section \<open>Calls\<close>

lemma reply_completes:
  assumes "library_ok E buffered opened incoming outgoing"
    and "fifo_channel (rc_ops E) rbuf ropen" and "prompt_channel (rc_ops E) rbuf ropen"
    and "waiting_at tok ch c (async_mgr s)" and "ropen c" and "rbuf c = []" and "mt \<in> {response, error}"
    and "item = \<lparr>wi_header = make_header mt (of_nat (length body)) cid tok, wi_body = body\<rparr>"
    and "fits (limits s) item" and "incoming (stream s) = frame_bytes (env_plat E) item @ rest"
    and "msg_reader_step E now s = (st, s')"
  shows "st = Continue \<and> incoming (stream s') = rest \<and> \<not> has_operation tok (async_mgr s')
    \<and> (\<exists>s''. call_receive E name False ch s' =
         Some (if mt = response then Inr body
               else Inl (system_error invalid_argument_ec ''RPC call failed''), s''))
    \<and> write_channel s' = write_channel s \<and> outgoing (stream s') = outgoing (stream s)"
proof -
  have "length (wi_header item) = 5"
    using assms(8) by simp
  from read_frame_header [OF assms(1) this assms(10), of now] obtain str
    where step: "msg_reader_step E now s = msg_reader_frame E now (wi_header item) (s\<lparr>stream := str\<rparr>)"
      and str: "incoming (stream (s\<lparr>stream := str\<rparr>)) = body @ rest"
      and out: "outgoing str = outgoing (stream s)"
    using assms(8) by auto
  have sz: "unat (wi_header item ! 1) = length body" "\<not> wi_header item ! 1 > max_message_bytes (limits (s\<lparr>stream := str\<rparr>))"
    using fits_size [OF assms(9)] assms(8) by simp_all
  define oc where "oc = (if mt = response then (None, body) else (Some invalid_argument_ec, []))"
  obtain r m where cm: "complete_operation (rc_ops E) tok (fst oc) (snd oc) (async_mgr s) = (r, m)"
    by force
  note d = complete_waiting [OF assms(2-6) cm]
  obtain s0 st2 where "incoming st2 = rest" and s0: "async_mgr s0 = async_mgr s"
      "write_channel s0 = write_channel s" "outgoing st2 = outgoing (stream s)"
    and frame: "msg_reader_frame E now (wi_header item) (s\<lparr>stream := str\<rparr>) =
      reader_continue E (run_complete (complete_operation (rc_ops E) tok (fst oc) (snd oc) (async_mgr s)) (s0\<lparr>stream := st2\<rparr>))"
  proof (cases "mt = response")
    case True
    with handle_response_fits [OF assms(1) str sz] assms(8) that out show ?thesis
      by (auto simp: msg_reader_frame_def oc_def)
  next
    case False
    with assms(7) have "mt = error"
      by simp
    with handle_error_fits [OF assms(1) str sz] assms(8) out that
      [of _ "log_error_async ''Received error message'' (s\<lparr>stream := str\<rparr>)"] show ?thesis
      by (auto simp: msg_reader_frame_def oc_def)
  qed
  have s': "st = Continue" "s' = s0\<lparr>stream := st2, async_mgr := m\<rparr>"
    using assms(11) step frame cm d by (auto simp: run_complete_def reader_continue_def)
  obtain c' where rc: "ch_async_receive (rc_ops E) (chan_heap m ch) = Some (Inr (fst oc, snd oc), c')"
    using d assms(3) unfolding prompt_channel_def by metis
  have "\<not> has_operation tok m"
    using complete_operation_frame(3) [OF cm] by (simp add: has_operation_def split: if_splits)
  moreover have "\<exists>s''. call_receive E name False ch s' =
         Some (if mt = response then Inr body else Inl (system_error invalid_argument_ec ''RPC call failed''), s'')"
    using rc s' by (simp add: call_receive_def call_finish_def oc_def)
  ultimately show ?thesis
    using s' s0 \<open>incoming st2 = rest\<close> by simp
qed


text \<open>A client session with one call in flight, and the response on its way.\<close>

definition waiting_session :: "buffer_type \<Rightarrow> sample_session" where
  "waiting_session inp =
     snd (call_begin (sample_env empty_dispatcher) ''f'' [] (sample_session empty_dispatcher inp))"

lemma waiting_session_fields:
  "stream (waiting_session inp) = (inp, [], True)"
  "limits (waiting_session inp) = default_session_limits"
  "waiting_at 1 0 ([], 1, True) (async_mgr (waiting_session inp))"
proof -
  have "waiting_at 1 0 ([], 1, True) (snd (create_operation list_channel_ops
      (make_async_manager (\<lambda>_. ([], 0, False)) :: op_result list_channel async_manager)))"
    using created_waiting [OF make_async_manager_ok, of "\<lambda>_. ([], 0, False)" list_channel_ops 1 0]
    by (simp add: token_room_def make_async_manager_def create_operation_eq list_channel_ops_def)
  then show "stream (waiting_session inp) = (inp, [], True)"
    "limits (waiting_session inp) = default_session_limits"
    "waiting_at 1 0 ([], 1, True) (async_mgr (waiting_session inp))"
    by (simp_all add: waiting_session_def call_begin_def sample_session_def make_session_def sample_env_def
        queue_write_def Let_def case_prod_beta list_channel_ops_def)
qed


text \<open>
  A call that times out is never removed from the table. The timer cancels the channel and the
  call throws, but its entry stays until the session is torn down.
\<close>

theorem timed_out_call_stays_registered:
  assumes "call_begin E name req s = (Inr (tok, ch), s1)"
    and "call_timer_fired E ch False s1 = (timeout, s2)"
    and "call_receive E name timeout ch s2 = Some (r, s3)"
  shows "r = Inl (runtime_error (''RPC call timeout: '' @ name)) \<and> has_operation tok (async_mgr s3)"
proof -
  obtain m where "create_operation (rc_ops E) (async_mgr s) = ((tok, ch), m)" and "async_mgr s1 = m"
  proof -
    obtain t c m where m: "create_operation (rc_ops E) (async_mgr s) = ((t, c), m)"
      by (metis prod.exhaust)
    let ?h = "make_header request (of_nat (length req)) (shash64 (env_plat E) name) t"
    have "queue_write E ?h req (s\<lparr>async_mgr := m\<rparr>) = (Inr (), s1)" "t = tok" "c = ch"
      using assms(1) m by (auto simp: call_begin_def Let_def split: prod.splits sum.splits)
    moreover have "async_mgr (snd (queue_write E ?h req (s\<lparr>async_mgr := m\<rparr>))) = m"
      by simp
    ultimately show thesis
      using that m by simp
  qed
  then have "has_operation tok (async_mgr s1)"
    by (auto simp: has_operation_def dest: create_operation_registers)
  moreover have "timeout" "channels (async_mgr s2) = channels (async_mgr s1)"
    using assms(2) by (auto simp: call_timer_fired_def Let_def)
  ultimately show ?thesis
    using assms(3) by (auto simp: call_receive_def call_finish_def has_operation_def Let_def split: option.splits)
qed

text \<open>Nor is a call whose request the closed queue refused.\<close>

lemma queue_write_manager: "queue_write E h b s = (r, s') \<Longrightarrow> async_mgr s' = async_mgr s"
  using queue_write_fields(2) [of E h b s] by simp

lemma refused_call_stays_registered:
  assumes "call_begin E name req s = (Inl e, s1)"
  shows "has_operation (next_token (async_mgr s)) (async_mgr s1)"
proof -
  have "async_mgr s1 = snd (create_operation (rc_ops E) (async_mgr s))"
    using assms by (auto simp: call_begin_def Let_def dest: queue_write_manager split: prod.splits sum.splits)
  then show ?thesis
    by (simp add: has_operation_def create_operation_eq)
qed

text \<open>A channel whose receive was cancelled while nothing was buffered.\<close>

definition cancelled_channel_ops :: "('it list_channel, 'it) channel_ops" where
  "cancelled_channel_ops = list_channel_ops\<lparr>ch_async_receive := (\<lambda>(q, n, op). case q of
      x # q' \<Rightarrow> Some (Inr x, (q', n, op)) | [] \<Rightarrow> Some (Inl channel_cancelled, (q, n, op)))\<rparr>"

theorem timed_out_call_stays_registered_witness:
  "\<exists>s1 s2 s3. call_begin ((sample_env empty_dispatcher)\<lparr>rc_ops := cancelled_channel_ops\<rparr>) ''f'' []
        (sample_session empty_dispatcher []) = (Inr (1, 0), s1)
     \<and> call_receive ((sample_env empty_dispatcher)\<lparr>rc_ops := cancelled_channel_ops\<rparr>) ''f'' True 0 s2
         = Some (Inl (runtime_error ''RPC call timeout: f''), s3)
     \<and> has_operation 1 (async_mgr s3)"
proof -
  let ?E = "(sample_env empty_dispatcher)\<lparr>rc_ops := cancelled_channel_ops\<rparr>"
  let ?s = "sample_session empty_dispatcher []"
  obtain s1 where b: "call_begin ?E ''f'' [] ?s = (Inr (1, 0), s1)"
    and c: "chan_heap (async_mgr s1) 0 = ([], 1, True)"
    by (simp add: call_begin_def sample_session_def make_session_def make_async_manager_def sample_env_def
        queue_write_def Let_def create_operation_eq cancelled_channel_ops_def list_channel_ops_def)
  obtain s2 where t: "call_timer_fired ?E 0 False s1 = (True, s2)"
    by (simp add: call_timer_fired_def Let_def)
  have "chan_heap (async_mgr s2) 0 = ([], 1, True)"
    using t c by (auto simp: call_timer_fired_def Let_def cancelled_channel_ops_def list_channel_ops_def)
  then obtain r s3 where "call_receive ?E ''f'' True 0 s2 = Some (r, s3)"
    by (simp add: call_receive_def Let_def cancelled_channel_ops_def)
  with timed_out_call_stays_registered [OF b t this] b show ?thesis
    by auto
qed

end
