(* ===== verification/Client.thy ===== *)
theory Client
  imports Channels Session_Requests
begin

text \<open>
  \<open>client.hpp\<close>: the synchronised pointer to the current session (locale \<open>pointer_cell\<close>),
  connecting, invoking with a timeout, the notification handlers and disconnecting. A session is
  identified by its address, the objects live in \<open>client_objects\<close>. The sessions of a client run
  with the client's handler table beside the application's state: the callback the client installs
  captures the client and reads the table when it is called.
\<close>

section \<open>The synchronised pointer\<close>

type_synonym shared_ptr = "nat option"

definition ptr_load :: "shared_ptr \<Rightarrow> shared_ptr" where
  "ptr_load p = p"

definition ptr_store :: "shared_ptr \<Rightarrow> shared_ptr \<Rightarrow> shared_ptr" where
  "ptr_store v p = v"

definition ptr_exchange :: "shared_ptr \<Rightarrow> shared_ptr \<Rightarrow> shared_ptr \<times> shared_ptr" where
  "ptr_exchange v p = (p, v)"

text \<open>The result, the refreshed \<open>expected\<close>, and the cell.\<close>

definition ptr_compare_exchange_strong :: "shared_ptr \<Rightarrow> shared_ptr \<Rightarrow> shared_ptr \<Rightarrow> bool \<times> shared_ptr \<times> shared_ptr" where
  "ptr_compare_exchange_strong expected desired p =
     (if p = expected then (True, expected, desired) else (False, p, p))"

text \<open>What the client relies on: the contract of \<open>std::atomic\<close>.\<close>

locale pointer_cell =
  fixes load :: "'c \<Rightarrow> 'p" and store :: "'p \<Rightarrow> 'c \<Rightarrow> 'c" and exchange :: "'p \<Rightarrow> 'c \<Rightarrow> 'p \<times> 'c"
    and compare_exchange :: "'p \<Rightarrow> 'p \<Rightarrow> 'c \<Rightarrow> bool \<times> 'p \<times> 'c"
  assumes load_store: "load (store v c) = v"
    and exchange_value: "fst (exchange v c) = load c" and exchange_stores: "load (snd (exchange v c)) = v"
    and cas_hit: "load c = e \<Longrightarrow> fst (compare_exchange e d c) \<and> load (snd (snd (compare_exchange e d c))) = d"
    and cas_miss: "load c \<noteq> e \<Longrightarrow> \<not> fst (compare_exchange e d c) \<and> fst (snd (compare_exchange e d c)) = load c
      \<and> snd (snd (compare_exchange e d c)) = c"
begin

text \<open>Clearing with an expected value removes that value and nothing else.\<close>

lemma cas_clears_only_expected:
  "load (snd (snd (compare_exchange e d c))) = (if load c = e then d else load c)"
  using cas_hit [of c e d] cas_miss [of c e d] by auto

text \<open>Two takers: the second one does not get what the first one took.\<close>

lemma exchange_twice: "fst (exchange w (snd (exchange v c))) = v"
  by (simp add: exchange_value exchange_stores)

end

interpretation ptr: pointer_cell ptr_load ptr_store ptr_exchange ptr_compare_exchange_strong
  by unfold_locales (auto simp: ptr_load_def ptr_store_def ptr_exchange_def ptr_compare_exchange_strong_def)

section \<open>State\<close>

type_synonym 'app notification_handler_type = "buffer_type \<Rightarrow> 'app \<Rightarrow> unit result \<times> 'app"
type_synonym 'app handler_map = "(u64, 'app notification_handler_type) umap"
type_synonym 'app client_app = "'app handler_map \<times> 'app"

text \<open>\<open>dispatch_running\<close>: the sessions whose \<open>dispatch_requests\<close> has not completed.\<close>

record ('st, 'wc, 'rc, 'app) client =
  client_session :: shared_ptr
  function_hash_cache :: "(string, u64) umap"
  notification_handlers :: "'app handler_map"
  total_calls :: u64
  hash_cache_hits :: u64
  hash_cache_misses :: u64
  client_objects :: "nat \<Rightarrow> ('st, 'wc, 'rc, 'app client_app) session"
  dispatch_running :: "nat list"

definition make_client :: "(nat \<Rightarrow> ('st, 'wc, 'rc, 'app client_app) session) \<Rightarrow> ('st, 'wc, 'rc, 'app) client" where
  "make_client objs =
     \<lparr>client_session = None, function_hash_cache = um_empty, notification_handlers = um_empty, total_calls = 0,
      hash_cache_hits = 0, hash_cache_misses = 0, client_objects = objs, dispatch_running = []\<rparr>"

text \<open>The move constructor moves the channel, copies the pointer and moves the cache.\<close>

definition move_client :: "('st, 'wc, 'rc, 'app) client \<Rightarrow> ('st, 'wc, 'rc, 'app) client" where
  "move_client other =
     (make_client (client_objects other))\<lparr>client_session := ptr_load (client_session other),
        function_hash_cache := function_hash_cache other, dispatch_running := dispatch_running other\<rparr>"

section \<open>Notifications\<close>

definition client_handle_notification :: "'app handler_map \<Rightarrow> u64 \<Rightarrow> buffer_type \<Rightarrow> 'app \<Rightarrow> 'app" where
  "client_handle_notification handlers call_id buffer app =
     (case um_find handlers call_id of None \<Rightarrow> app | Some h \<Rightarrow> snd (h buffer app))"

definition client_callback :: "'app client_app notification_callback_type" where
  "client_callback call_id buffer st =
     (let (handlers, app) = st in (Inr (), handlers, client_handle_notification handlers call_id buffer app))"

definition setup_notification_handling ::
    "('st, 'wc, 'rc, 'app client_app) session \<Rightarrow> ('st, 'wc, 'rc, 'app client_app) session" where
  "setup_notification_handling sess = set_notification_callback (Some client_callback) sess"

definition notification_wrapper ::
    "cereal_env \<Rightarrow> 'v ctype list \<Rightarrow> ('v list \<Rightarrow> 'app \<Rightarrow> unit result \<times> 'app) \<Rightarrow> 'app notification_handler_type" where
  "notification_wrapper C ts h buffer app =
     (let (ok, vs) = decode_message C ts buffer in if ok then h vs app else (Inr (), app))"

definition register_notification_handler ::
    "('st, 'wc, 'rc, 'v, 'app client_app) session_env \<Rightarrow> string \<Rightarrow> 'v ctype list \<Rightarrow>
     ('v list \<Rightarrow> 'app \<Rightarrow> unit result \<times> 'app) \<Rightarrow> ('st, 'wc, 'rc, 'app) client \<Rightarrow> ('st, 'wc, 'rc, 'app) client" where
  "register_notification_handler E notification_name ts h c =
     c\<lparr>notification_handlers := um_put (shash64 (env_plat E) notification_name)
         (notification_wrapper (cereal E) ts h) (notification_handlers c)\<rparr>"

definition unregister_notification_handler ::
    "platform \<Rightarrow> string \<Rightarrow> ('st, 'wc, 'rc, 'app) client \<Rightarrow> ('st, 'wc, 'rc, 'app) client" where
  "unregister_notification_handler P notification_name c =
     c\<lparr>notification_handlers := um_erase (shash64 P notification_name) (notification_handlers c)\<rparr>"

definition clear_notification_handlers :: "('st, 'wc, 'rc, 'app) client \<Rightarrow> ('st, 'wc, 'rc, 'app) client" where
  "clear_notification_handlers c = c\<lparr>notification_handlers := um_empty\<rparr>"

definition has_notification_handler :: "platform \<Rightarrow> string \<Rightarrow> ('st, 'wc, 'rc, 'app) client \<Rightarrow> bool" where
  "has_notification_handler P notification_name c \<longleftrightarrow>
     um_find (notification_handlers c) (shash64 P notification_name) \<noteq> None"

definition notification_handler_count :: "('st, 'wc, 'rc, 'app) client \<Rightarrow> nat" where
  "notification_handler_count c = um_size (notification_handlers c)"

text \<open>One task of a session's notification strand, run against the client's table.\<close>

definition client_notification_step ::
    "('st, 'wc, 'rc, 'v, 'app client_app) session_env \<Rightarrow> nat \<Rightarrow> ('st, 'wc, 'rc, 'app) client \<Rightarrow> 'app \<Rightarrow>
     ('st, 'wc, 'rc, 'app) client \<times> 'app" where
  "client_notification_step E addr c app =
     (let (sess, handlers, app') = notification_step E (client_objects c addr) (notification_handlers c, app)
      in (c\<lparr>client_objects := (client_objects c)(addr := sess), notification_handlers := handlers\<rparr>, app'))"

section \<open>Connecting and disconnecting\<close>

text \<open>
  The end of \<open>connect\<close>, once \<open>channel_.connect\<close> ended with an exception, a null session or a
  session object at \<open>addr\<close>; \<open>session::handshake\<close> does nothing. The failure text travels in
  \<open>connect_error\<close>.
\<close>

definition connect_body ::
    "('st, 'wc, 'rc, 'v, 'app client_app) session_env \<Rightarrow> nat \<Rightarrow>
     ('st, 'wc, 'rc, 'app client_app) session option result \<Rightarrow>
     ('st, 'wc, 'rc, 'app) client \<Rightarrow> string \<times> ('st, 'wc, 'rc, 'app) client" where
  "connect_body E addr attempt c =
     (case attempt of
        Inl ex \<Rightarrow> (if is_std_exception ex then what E ex else ''unknown connect error'',
                   c\<lparr>client_session := ptr_store None (client_session c)\<rparr>)
      | Inr sess \<Rightarrow>
          (case sess of
             Some s \<Rightarrow>
               if \<not> st_is_open (st_ops E) (stream s)
               then (''invalid session after connect (server unreachable?)'',
                     c\<lparr>client_session := ptr_store None (client_session c)\<rparr>)
               else ([], c\<lparr>client_objects := (client_objects c)(addr := setup_notification_handling s),
                           client_session := ptr_store (Some addr) (client_session c),
                           dispatch_running := dispatch_running c @ [addr]\<rparr>)
           | None \<Rightarrow> (''invalid session after connect (server unreachable?)'',
                     c\<lparr>client_session := ptr_store None (client_session c)\<rparr>)))"

definition connect ::
    "('st, 'wc, 'rc, 'v, 'app client_app) session_env \<Rightarrow> nat \<Rightarrow>
     ('st, 'wc, 'rc, 'app client_app) session option result \<Rightarrow>
     ('st, 'wc, 'rc, 'app) client \<Rightarrow> unit result \<times> ('st, 'wc, 'rc, 'app) client" where
  "connect E addr attempt c =
     (let (connect_error, c') = connect_body E addr attempt c
      in (if connect_error \<noteq> [] then Inl (runtime_error (''rpc::client::connect: '' @ connect_error)) else Inr (), c'))"

text \<open>
  The completion handler of a session's \<open>dispatch_requests\<close>. The weak pointer locks while anyone
  holds the session, the client's own pointer included.
\<close>

definition dispatch_completed ::
    "nat \<Rightarrow> bool \<Rightarrow> ('st, 'wc, 'rc, 'app) client \<Rightarrow> ('st, 'wc, 'rc, 'app) client" where
  "dispatch_completed addr held_elsewhere c =
     (let c1 = c\<lparr>dispatch_running := remove1 addr (dispatch_running c)\<rparr>;
          self = (if held_elsewhere \<or> client_session c = Some addr then Some addr else None)
      in if self \<noteq> None
         then c1\<lparr>client_session := snd (snd (ptr_compare_exchange_strong self None (client_session c1)))\<rparr>
         else c1)"

definition is_connected :: "('st, 'wc, 'rc, 'app) client \<Rightarrow> bool" where
  "is_connected c \<longleftrightarrow> ptr_load (client_session c) \<noteq> None"

definition client_try_ping ::
    "('st, 'wc, 'rc, 'v, 'app client_app) session_env \<Rightarrow> ('st, 'wc, 'rc, 'app) client \<Rightarrow>
     bool \<times> ('st, 'wc, 'rc, 'app) client" where
  "client_try_ping E c =
     (case ptr_load (client_session c) of
        None \<Rightarrow> (False, c)
      | Some addr \<Rightarrow> (let (ok, s) = try_ping E (client_objects c addr)
                     in (ok, c\<lparr>client_objects := (client_objects c)(addr := s)\<rparr>)))"

definition disconnect ::
    "('st, 'wc, 'rc, 'v, 'app client_app) session_env \<Rightarrow> ('st, 'wc, 'rc, 'app) client \<Rightarrow>
     ('st, 'wc, 'rc, 'app) client" where
  "disconnect E c =
     (let (session, p) = ptr_exchange None (client_session c);
          c1 = c\<lparr>client_session := p\<rparr>;
          c2 = (case session of None \<Rightarrow> c1
                | Some addr \<Rightarrow> c1\<lparr>client_objects := (client_objects c1)(addr := close E (client_objects c1 addr))\<rparr>)
      in c2\<lparr>function_hash_cache := um_empty, notification_handlers := um_empty\<rparr>)"

section \<open>Invoking\<close>

text \<open>
  \<open>invoke_with_timeout\<close> up to the suspension of its call, and from the call's completion on. The
  first part returns the session the call runs on, its token and its channel. A \<open>void\<close> result is
  \<open>None\<close>.
\<close>

definition invoke_begin ::
    "('st, 'wc, 'rc, 'v, 'app client_app) session_env \<Rightarrow> string \<Rightarrow> 'v ctype list \<Rightarrow> 'v list \<Rightarrow>
     ('st, 'wc, 'rc, 'app) client \<Rightarrow> (nat \<times> u64 \<times> nat) result \<times> ('st, 'wc, 'rc, 'app) client" where
  "invoke_begin E func_name ts args c =
     (case ptr_load (client_session c) of
        None \<Rightarrow> (Inl (runtime_error ''not connected''), c)
      | Some addr \<Rightarrow>
          (let (encoded, req_buffer) = encode_message (cereal E) ts args in
           if \<not> encoded then (Inl (runtime_error ''Failed to encode request''), c)
           else let (r, s) = call_begin E func_name req_buffer (client_objects c addr);
                    c' = c\<lparr>client_objects := (client_objects c)(addr := s)\<rparr>
                in case r of Inl e \<Rightarrow> (Inl e, c') | Inr (tok, ch) \<Rightarrow> (Inr (addr, tok, ch), c')))"

definition decode_response :: "cereal_env \<Rightarrow> 'v ctype option \<Rightarrow> buffer_type \<Rightarrow> 'v option result" where
  "decode_response C rt rsp_buffer =
     (let (ok, vs) = decode_message C (case rt of None \<Rightarrow> [] | Some t \<Rightarrow> [t]) rsp_buffer
      in if \<not> ok then Inl (runtime_error ''Failed to decode response'')
         else Inr (case vs of [] \<Rightarrow> None | v # _ \<Rightarrow> Some v))"

definition invoke_finish ::
    "('st, 'wc, 'rc, 'v, 'app client_app) session_env \<Rightarrow> string \<Rightarrow> 'v ctype option \<Rightarrow> bool \<Rightarrow> nat \<Rightarrow> nat \<Rightarrow>
     ('st, 'wc, 'rc, 'app) client \<Rightarrow> ('v option result \<times> ('st, 'wc, 'rc, 'app) client) option" where
  "invoke_finish E func_name rt did_time_out addr ch c =
     (case call_receive E func_name did_time_out ch (client_objects c addr) of
        None \<Rightarrow> None
      | Some (r, s) \<Rightarrow>
          Some (case r of Inl e \<Rightarrow> Inl e | Inr rsp_buffer \<Rightarrow> decode_response (cereal E) rt rsp_buffer,
                c\<lparr>client_objects := (client_objects c)(addr := s)\<rparr>))"

definition get_cached_function_hash ::
    "platform \<Rightarrow> string \<Rightarrow> ('st, 'wc, 'rc, 'app) client \<Rightarrow> u64 \<times> ('st, 'wc, 'rc, 'app) client" where
  "get_cached_function_hash P func_name c =
     (case um_find (function_hash_cache c) func_name of
        Some h \<Rightarrow> (h, c\<lparr>hash_cache_hits := hash_cache_hits c + 1\<rparr>)
      | None \<Rightarrow> let hash_value = shash64 P func_name in
          (hash_value, c\<lparr>function_hash_cache := um_put func_name hash_value (function_hash_cache c),
                         hash_cache_misses := hash_cache_misses c + 1\<rparr>))"

record performance_stats =
  stat_total_calls :: u64
  stat_hash_cache_hits :: u64
  stat_hash_cache_misses :: u64

definition get_performance_stats :: "('st, 'wc, 'rc, 'app) client \<Rightarrow> performance_stats" where
  "get_performance_stats c =
     \<lparr>stat_total_calls = total_calls c, stat_hash_cache_hits = hash_cache_hits c,
      stat_hash_cache_misses = hash_cache_misses c\<rparr>"

definition hash_cache_hit_ratio :: "performance_stats \<Rightarrow> real" where
  "hash_cache_hit_ratio st =
     (let total = stat_hash_cache_hits st + stat_hash_cache_misses st in
      if total > 0 then real (unat (stat_hash_cache_hits st)) / real (unat total) else 0)"

section \<open>The client as a transition system\<close>

text \<open>
  One step: the end of a \<open>connect\<close> (the allocator gives the session an address no running session
  has), the end of a session's dispatch loop, a disconnect, the two halves of an invocation, a ping,
  a change of the handler table, a delivered notification, or anything the running sessions do by
  themselves (none of it sets a notification callback).
\<close>

inductive client_step ::
    "('st, 'wc, 'rc, 'v, 'app client_app) session_env \<Rightarrow> ('st, 'wc, 'rc, 'app) client \<times> 'app \<Rightarrow>
     ('st, 'wc, 'rc, 'app) client \<times> 'app \<Rightarrow> bool"
  for E :: "('st, 'wc, 'rc, 'v, 'app client_app) session_env" where
  Connect: "addr \<notin> set (dispatch_running c) \<Longrightarrow> client_step E (c, a) (snd (connect E addr attempt c), a)"
| Dispatch_done: "addr \<in> set (dispatch_running c) \<Longrightarrow> client_step E (c, a) (dispatch_completed addr held c, a)"
| Disconnect: "client_step E (c, a) (disconnect E c, a)"
| Invoke: "client_step E (c, a) (snd (invoke_begin E n ts args c), a)"
| Returned: "invoke_finish E n rt late addr ch c = Some (r, c') \<Longrightarrow> client_step E (c, a) (c', a)"
| Ping: "client_step E (c, a) (snd (client_try_ping E c), a)"
| Register: "client_step E (c, a) (register_notification_handler E n ts h c, a)"
| Unregister: "client_step E (c, a) (unregister_notification_handler (env_plat E) n c, a)"
| Clear: "client_step E (c, a) (clear_notification_handlers c, a)"
| Notified: "client_step E (c, a) (client_notification_step E addr c a)"
| Sessions_run: "(\<And>x. notification_callback (objs x) = notification_callback (client_objects c x)) \<Longrightarrow>
    client_step E (c, a) (c\<lparr>client_objects := objs\<rparr>, a')"

text \<open>The published session is running, and every running session notifies this client.\<close>

definition client_ok :: "('st, 'wc, 'rc, 'app) client \<Rightarrow> bool" where
  "client_ok c \<longleftrightarrow> distinct (dispatch_running c)
     \<and> (\<forall>x. client_session c = Some x \<longrightarrow> x \<in> set (dispatch_running c))
     \<and> (\<forall>x \<in> set (dispatch_running c). notification_callback (client_objects c x) = Some client_callback)"

lemma close_callback [simp]: "notification_callback (close E s) = notification_callback s"
  by (simp add: close_def Let_def)

lemma call_begin_callback [simp]: "notification_callback (snd (call_begin E n b s)) = notification_callback s"
  by (auto simp: call_begin_def queue_write_def Let_def split: prod.splits option.splits)

lemma call_receive_callback: "call_receive E n late ch s = Some (r, s') \<Longrightarrow> notification_callback s' = notification_callback s"
  by (auto simp: call_receive_def Let_def split: option.splits if_splits)

lemma try_ping_callback [simp]: "notification_callback (snd (try_ping E s)) = notification_callback s"
  by (simp add: try_ping_def try_write_def split: prod.splits)

lemma notification_step_callback [simp]: "notification_callback (fst (notification_step E s a)) = notification_callback s"
  by (auto simp: notification_step_def run_notification_def Let_def split: list.splits prod.splits sum.splits)

lemma client_ok_objects:
  assumes "client_ok c" and "client_session c' = client_session c" and "dispatch_running c' = dispatch_running c"
    and "\<And>x. notification_callback (client_objects c' x) = notification_callback (client_objects c x)"
  shows "client_ok c'"
  using assms by (simp add: client_ok_def)

lemma connect_ok [inv_intros]:
  assumes "client_ok c" and "addr \<notin> set (dispatch_running c)"
  shows "client_ok (snd (connect E addr r c))"
  using assms
  by (auto simp: connect_def connect_body_def client_ok_def ptr_store_def setup_notification_handling_def
      set_notification_callback_def split: sum.splits option.splits)

lemma dispatch_completed_session:
  "client_session (dispatch_completed addr held c) = (if client_session c = Some addr then None else client_session c)"
  by (simp add: dispatch_completed_def Let_def ptr_compare_exchange_strong_def)

lemma dispatch_completed_ok [inv_intros]:
  assumes "client_ok c"
  shows "client_ok (dispatch_completed addr held c)"
proof -
  have "dispatch_running (dispatch_completed addr held c) = remove1 addr (dispatch_running c)"
    "client_objects (dispatch_completed addr held c) = client_objects c"
    by (simp_all add: dispatch_completed_def Let_def)
  with assms show ?thesis
    by (auto simp: client_ok_def dispatch_completed_session split: if_splits)
qed

lemma disconnect_fields:
  "client_session (disconnect E c) = None" "notification_handlers (disconnect E c) = um_empty"
  "dispatch_running (disconnect E c) = dispatch_running c"
  "client_objects (disconnect E c) = (case client_session c of None \<Rightarrow> client_objects c
     | Some x \<Rightarrow> (client_objects c)(x := close E (client_objects c x)))"
  by (simp_all add: disconnect_def ptr_exchange_def Let_def split: option.splits)

lemma disconnect_ok [inv_intros]: "client_ok c \<Longrightarrow> client_ok (disconnect E c)"
  by (auto simp: client_ok_def disconnect_fields split: option.splits)

lemma invoke_begin_ok [inv_intros]: "client_ok c \<Longrightarrow> client_ok (snd (invoke_begin E n ts args c))"
  by (rule client_ok_objects [of c])
     (auto simp: invoke_begin_def Let_def split_beta split: option.splits sum.splits)

lemma invoke_finish_ok [inv_intros]:
  "client_ok c \<Longrightarrow> invoke_finish E n rt late addr ch c = Some (r, c') \<Longrightarrow> client_ok c'"
  by (rule client_ok_objects [of c])
     (auto simp: invoke_finish_def call_receive_callback split: option.splits)

lemma client_try_ping_ok [inv_intros]: "client_ok c \<Longrightarrow> client_ok (snd (client_try_ping E c))"
  by (rule client_ok_objects [of c]) (auto simp: client_try_ping_def split_beta split: option.splits)

lemma client_notification_step_ok [inv_intros]: "client_ok c \<Longrightarrow> client_ok (fst (client_notification_step E addr c a))"
  by (rule client_ok_objects [of c]) (auto simp: client_notification_step_def split_beta)

lemma client_step_keeps_ok:
  assumes "client_step E st st'" and "client_ok (fst st)"
  shows "client_ok (fst st')"
  using assms(1)
proof (cases rule: client_step.cases)
  case (Returned n rt late addr ch c r c' a)
  with assms(2) invoke_finish_ok show ?thesis
    by fastforce
qed (use assms(2) in \<open>auto simp: register_notification_handler_def unregister_notification_handler_def
    clear_notification_handlers_def intro: inv_intros client_ok_objects\<close>)

lemma client_run_keeps_ok: "(client_step E)\<^sup>*\<^sup>* st st' \<Longrightarrow> client_ok (fst st) \<Longrightarrow> client_ok (fst st')"
  by (induction rule: rtranclp_induct) (auto dest: client_step_keeps_ok)

lemma make_client_ok: "client_ok (make_client objs)"
  by (simp add: client_ok_def make_client_def)

lemma reachable_client_ok: "(client_step E)\<^sup>*\<^sup>* (make_client objs, a0) (c, a) \<Longrightarrow> client_ok c"
  using client_run_keeps_ok [of E "(make_client objs, a0)" "(c, a)"] by (simp add: make_client_ok)

section \<open>Properties\<close>

text \<open>
  C24: the connection pointer never goes stale. In every reachable state the published session is one
  whose dispatch loop is still running; when a loop ends its own session is no longer published, and
  the end of an older session leaves the pointer to a newer one alone.
\<close>

theorem published_session_is_live:
  assumes "(client_step E)\<^sup>*\<^sup>* (make_client objs, a0) (c, a)"
  shows "(is_connected c \<longrightarrow> (\<exists>x \<in> set (dispatch_running c). client_session c = Some x))
    \<and> client_session (dispatch_completed x held c) \<noteq> Some x
    \<and> (client_session c = Some y \<and> y \<noteq> x \<longrightarrow> client_session (dispatch_completed x held c) = Some y)"
  using reachable_client_ok [OF assms] by (auto simp: client_ok_def dispatch_completed_session is_connected_def ptr_load_def)

lemma notification_step_runs_handler:
  assumes "client_ok c" and "x \<in> set (dispatch_running c)" and "compatible S (cereal E) ts vs"
    and "um_find (notification_handlers c) i = Some (notification_wrapper (cereal E) ts h)"
    and "notification_strand (client_objects c x) = (i, snd (encode_message S ts vs)) # rest"
  shows "client_notification_step E x c a =
    (c\<lparr>client_objects := (client_objects c)(x := (client_objects c x)\<lparr>notification_strand := rest\<rparr>)\<rparr>, snd (h vs a))"
proof -
  have "notification_callback (client_objects c x) = Some client_callback"
    using assms(1,2) by (simp add: client_ok_def)
  moreover have "decode_message (cereal E) ts (snd (encode_message S ts vs)) = (True, vs)"
    by (rule enc.decode_encode [OF assms(3)])
  ultimately show ?thesis
    using assms(4,5)
    by (simp add: client_notification_step_def notification_step_def run_notification_def client_callback_def
        client_handle_notification_def notification_wrapper_def)
qed

lemma register_keeps_ok: "client_ok c \<Longrightarrow> client_ok (register_notification_handler E name ts h c)"
  by (simp add: client_ok_def register_notification_handler_def)

text \<open>
  A notification reaches its handler. In every reachable state, after a handler was registered
  for a name, a notification with that name's hash and arguments encoded by a compatible peer, next
  on the strand of any running session, runs exactly that handler once on exactly those arguments
  and is taken off the strand; no name with another hash changed its handler.
\<close>

theorem notification_reaches_handler:
  assumes "(client_step E)\<^sup>*\<^sup>* (make_client objs, a0) (c, a)"
    and "c' = register_notification_handler E name ts h c" and "x \<in> set (dispatch_running c)"
    and "compatible S (cereal E) ts vs"
    and "notification_strand (client_objects c x) = (shash64 (env_plat E) name, snd (encode_message S ts vs)) # rest"
  shows "client_notification_step E x c' a =
      (c'\<lparr>client_objects := (client_objects c)(x := (client_objects c x)\<lparr>notification_strand := rest\<rparr>)\<rparr>, snd (h vs a))
    \<and> (\<forall>n. shash64 (env_plat E) n \<noteq> shash64 (env_plat E) name \<longrightarrow>
          um_find (notification_handlers c') (shash64 (env_plat E) n) = um_find (notification_handlers c) (shash64 (env_plat E) n))"
proof -
  have ok: "client_ok c'"
    unfolding assms(2) by (rule register_keeps_ok [OF reachable_client_ok [OF assms(1)]])
  have found: "um_find (notification_handlers c') (shash64 (env_plat E) name) = Some (notification_wrapper (cereal E) ts h)"
    and same: "dispatch_running c' = dispatch_running c" "client_objects c' = client_objects c"
    by (simp_all add: assms(2) register_notification_handler_def)
  have "client_notification_step E x c' a =
      (c'\<lparr>client_objects := (client_objects c)(x := (client_objects c x)\<lparr>notification_strand := rest\<rparr>)\<rparr>, snd (h vs a))"
    using notification_step_runs_handler [OF ok _ assms(4) found] assms(3,5) by (simp add: same)
  then show ?thesis
    by (simp add: assms(2) register_notification_handler_def)
qed


text \<open>Without a text the failure is lost: \<open>connect\<close> returns normally and the client is not connected.\<close>

lemma connect_loses_silent_failure:
  assumes "is_std_exception e" and "what E e = []"
  shows "fst (connect E addr (Inl e) c) = Inr () \<and> \<not> is_connected (snd (connect E addr (Inl e) c))"
  using assms by (simp add: connect_def connect_body_def ptr_store_def is_connected_def ptr_load_def)

text \<open>A moved client has the session but none of the handlers.\<close>

lemma move_client_loses_handlers:
  "client_session (move_client c) = client_session c \<and> notification_handler_count (move_client c) = 0"
  by (simp add: move_client_def make_client_def ptr_load_def notification_handler_count_def um_size_def um_empty_def)

text \<open>
  C31: disconnecting is complete. The published session is closed, its write channel accepts no
  frame, the channel of every call pending on it is closed so that the caller wakes up, no handler is
  left, and an invocation that starts afterwards fails with \<open>not connected\<close>.
\<close>

theorem disconnect_tears_down:
  assumes "library_ok E buffered opened incoming outgoing" and "fifo_channel (rc_ops E) rbuf ropen"
    and "client_session c = Some x" and "\<not> is_closed (client_objects c x)" and "manager_ok (async_mgr (client_objects c x))"
    and "um_find (channels (async_mgr (client_objects c x))) tok = Some ch" and "s = client_objects (disconnect E c) x"
  shows "is_closed s \<and> \<not> opened (write_channel s) \<and> \<not> ropen (chan_heap (async_mgr s) ch)
    \<and> pending_operations_count (async_mgr s) = 0 \<and> notification_handler_count (disconnect E c) = 0
    \<and> fst (invoke_begin E n ts args (disconnect E c)) = Inl (runtime_error ''not connected'')"
proof -
  have s: "s = close E (client_objects c x)"
    using assms(3,7) by (simp add: disconnect_fields)
  have "\<not> ropen (chan_heap (async_mgr s) ch)"
    using pending_closed [OF assms(2,5,6)] assms(4) by (simp add: s close_def Let_def)
  moreover have "is_closed s"
    using assms(4) by (simp add: s close_def Let_def)
  ultimately show ?thesis
    using close_queue(2) [OF assms(1,4)] close_cancels [OF assms(4)]
    by (simp add: s disconnect_fields invoke_begin_def ptr_load_def notification_handler_count_def um_size_def um_empty_def)
qed

section \<open>A concrete client\<close>

type_synonym sample_client = "(mem_stream, write_item list_channel, op_result list_channel, nat) client"

definition client_env ::
    "(mem_stream, write_item list_channel, op_result list_channel, wire_value, nat client_app) session_env" where
  "client_env =
     \<lparr>cereal = le_env, st_ops = mem_stream_ops, wc_ops = list_channel_ops, rc_ops = list_channel_ops,
      session_dispatcher = empty_dispatcher, ec_message = (\<lambda>_. []), ec_category = (\<lambda>_. []),
      ec_value = (\<lambda>_. 0), what = (\<lambda>_. ''error'')\<rparr>"

definition client_sess :: "(mem_stream, write_item list_channel, op_result list_channel, nat client_app) session" where
  "client_sess = make_session client_env ([], [], True) (\<lambda>_. ([], 0, False)) default_session_limits"

definition connected_client :: sample_client where
  "connected_client = snd (connect client_env 3 (Inr (Some client_sess)) (make_client (\<lambda>_. client_sess)))"

definition notified_client :: sample_client where
  "notified_client = connected_client\<lparr>client_objects := (client_objects connected_client)(3 :=
     (client_objects connected_client 3)\<lparr>notification_strand :=
       [(shash64 sample_platform ''n'', snd (encode_message le_env [u64_ctype sample_platform sample_platform] [WU64 7]))]\<rparr>)\<rparr>"

lemma client_library_ok: "library_ok client_env lc_buffered lc_open ms_incoming ms_outgoing"
  by (simp add: library_ok_def client_env_def list_channel_fifo list_channel_prompt mem_stream_bytes mem_stream_prompt)

lemma connected_client_fields:
  "client_session connected_client = Some 3" "dispatch_running connected_client = [3]"
  "client_objects connected_client 3 = setup_notification_handling client_sess"
  by (simp_all add: connected_client_def connect_def connect_body_def client_sess_def make_session_def client_env_def
      mem_stream_ops_def make_client_def ptr_store_def)

lemma connected_client_reachable:
  "(client_step client_env)\<^sup>*\<^sup>* (make_client (\<lambda>_. client_sess), 0) (connected_client, 0)"
  unfolding connected_client_def by (rule r_into_rtranclp, rule client_step.Connect) (simp add: make_client_def)

lemma notified_client_reachable:
  "(client_step client_env)\<^sup>*\<^sup>* (make_client (\<lambda>_. client_sess), 0) (notified_client, 0)"
proof -
  have "client_step client_env (connected_client, 0) (notified_client, 0)"
    unfolding notified_client_def by (rule client_step.Sessions_run) simp
  with connected_client_reachable show ?thesis
    by (rule rtranclp.rtrancl_into_rtrancl)
qed

lemma client_env_fields [simp]: "cereal client_env = le_env" "env_platform le_env = sample_platform"
  by (simp_all add: client_env_def le_env_def sample_platform_def)

theorem published_session_is_live_witness:
  "3 \<in> set (dispatch_running connected_client) \<and> client_session (dispatch_completed 9 True connected_client) = Some 3"
  using published_session_is_live [OF connected_client_reachable, of 9 True 3] by (simp add: connected_client_fields)

lemma notified_client_fields:
  "3 \<in> set (dispatch_running notified_client)"
  "notification_strand (client_objects notified_client 3) = (shash64 (env_plat client_env) ''n'',
     snd (encode_message le_env [u64_ctype sample_platform sample_platform] [WU64 7])) # []"
  by (simp_all add: notified_client_def connected_client_fields)

theorem notification_reaches_handler_witness:
  "snd (client_notification_step client_env 3 (register_notification_handler client_env ''n''
     [u64_ctype sample_platform sample_platform] (\<lambda>vs a. (Inr (), a + length vs)) notified_client) 0) = 1"
proof -
  have "compatible le_env (cereal client_env) [u64_ctype sample_platform sample_platform] [WU64 7]"
    by (simp only: client_env_fields sample_compatible)
  from notification_reaches_handler [OF notified_client_reachable refl notified_client_fields(1) this
      notified_client_fields(2), of "\<lambda>vs a. (Inr (), a + length vs)", THEN conjunct1]
  show ?thesis
    by (simp only: snd_conv list.size add_0)
qed


definition calling_client :: sample_client where
  "calling_client = connected_client\<lparr>client_objects := (\<lambda>_. client_sess\<lparr>async_mgr :=
     snd (create_operation list_channel_ops (make_async_manager (\<lambda>_. ([], 0, False))))\<rparr>)\<rparr>"

lemma calling_client_fields:
  "client_session calling_client = Some 3" "\<not> is_closed (client_objects calling_client 3)"
  "manager_ok (async_mgr (client_objects calling_client 3))"
  "um_find (channels (async_mgr (client_objects calling_client 3))) 1 = Some 0"
proof -
  let ?m = "make_async_manager (\<lambda>_. ([], 0, False)) :: op_result list_channel async_manager"
  have mgr: "async_mgr (client_objects calling_client 3) = snd (create_operation list_channel_ops ?m)"
    by (simp add: calling_client_def)
  show "manager_ok (async_mgr (client_objects calling_client 3))"
    unfolding mgr by (rule create_operation_ok [OF make_async_manager_ok])
       (simp_all add: token_room_def make_async_manager_def create_operation_eq)
  show "um_find (channels (async_mgr (client_objects calling_client 3))) 1 = Some 0"
    unfolding mgr by (simp add: create_operation_eq make_async_manager_def)
  show "client_session calling_client = Some 3" "\<not> is_closed (client_objects calling_client 3)"
    by (simp_all add: calling_client_def connected_client_fields client_sess_def make_session_def)
qed

theorem disconnect_tears_down_witness:
  "\<not> lc_open (chan_heap (async_mgr (client_objects (disconnect client_env calling_client) 3)) 0)
   \<and> fst (invoke_begin client_env ''f'' [] [] (disconnect client_env calling_client)) = Inl (runtime_error ''not connected'')"
proof -
  have "fifo_channel (rc_ops client_env) lc_buffered lc_open"
    by (simp add: client_env_def list_channel_fifo)
  from disconnect_tears_down [OF client_library_ok this calling_client_fields refl, of "''f''" "[]" "[]"] show ?thesis
    by blast
qed

end
