(* ===== verification/Server.thy ===== *)
theory Server
  imports Channels Session_Protocol
begin

text \<open>
  \<open>server.hpp\<close>: the accept loop with its pre-handshake filter, the handshakes it spawns, the
  counters that back the filter, the set of active sessions behind a strand, the open and close
  hooks, and the notifications. A session is identified by its address (the \<open>session_token\<close> of
  the hooks); the objects live in \<open>session_objects\<close>. The logging helpers of this class have
  empty bodies, so they are left out.
\<close>

section \<open>State\<close>

type_synonym 'app session_hook = "session_info \<Rightarrow> 'app \<Rightarrow> unit result \<times> 'app"

datatype strand_task = Insert_session nat | Erase_session nat

text \<open>
  \<open>handshaking\<close>: the spawned handshake coroutines, by the peer of their socket;
  \<open>dispatching\<close>: the sessions whose \<open>dispatch_requests\<close> has not completed.
\<close>

record ('st, 'wc, 'rc, 'v, 'app) server =
  server_dispatcher :: "('v, 'app) dispatcher"
  active_sessions :: "nat list"
  sessions_strand :: bool
  strand_queue :: "strand_task list"
  server_session_limits :: session_limits
  on_session_open :: "'app session_hook option"
  on_session_close :: "'app session_hook option"
  conn_limits :: server_limits
  global_session_count :: u64
  handshakes_in_flight :: u64
  per_ip_count :: "(string, u64) umap"
  per_ip_accept_bucket :: "(string, token_bucket) umap"
  session_objects :: "nat \<Rightarrow> ('st, 'wc, 'rc, 'app) session"
  handshaking :: "endpoint option list"
  dispatching :: "nat list"

definition make_server :: "(nat \<Rightarrow> ('st, 'wc, 'rc, 'app) session) \<Rightarrow> ('st, 'wc, 'rc, 'v, 'app) server" where
  "make_server objs =
     \<lparr>server_dispatcher = empty_dispatcher, active_sessions = [], sessions_strand = False, strand_queue = [],
      server_session_limits = default_session_limits, on_session_open = None, on_session_close = None,
      conn_limits = default_server_limits, global_session_count = 0, handshakes_in_flight = 0,
      per_ip_count = um_empty, per_ip_accept_bucket = um_empty, session_objects = objs,
      handshaking = [], dispatching = []\<rparr>"

section \<open>Accepting connections\<close>

definition pre_handshake_filter :: "int \<Rightarrow> ('st, 'wc, 'rc, 'v, 'app) server conn_filter" where
  "pre_handshake_filter now peer s =
     (if unat (global_session_count s) \<ge> max_concurrent_sessions (conn_limits s)
      then ((False, ''global session cap reached''), s)
      else
        let ip = ep_address peer in
        if (case um_find (per_ip_count s) ip of None \<Rightarrow> False
            | Some n \<Rightarrow> unat n \<ge> max_sessions_per_ip (conn_limits s))
        then ((False, ''per-IP session cap reached for '' @ ip), s)
        else
          let bucket = (case um_find (per_ip_accept_bucket s) ip of Some b \<Rightarrow> b | None \<Rightarrow> default_token_bucket);
              bucket' = (if capacity bucket = 0
                         then bucket\<lparr>capacity := accept_burst_per_ip (conn_limits s),
                                     refill_per_sec := accept_refill_per_ip_per_s (conn_limits s)\<rparr>
                         else bucket);
              (ok, bucket'') = try_take 1 now bucket';
              s' = s\<lparr>per_ip_accept_bucket := um_put ip bucket'' (per_ip_accept_bucket s)\<rparr>
          in if \<not> ok then ((False, ''per-IP accept rate exceeded for '' @ ip), s') else ((True, []), s'))"

definition start_server :: "('st, 'wc, 'rc, 'v, 'app) server \<Rightarrow> ('st, 'wc, 'rc, 'v, 'app) server" where
  "start_server s = s\<lparr>sessions_strand := True\<rparr>"

type_synonym 's accept_fun =
  "error_code option \<Rightarrow> 's conn_filter option \<Rightarrow> endpoint option \<Rightarrow> 's \<Rightarrow> unit result \<times> 's"

text \<open>
  After a raw accept: drop the connection when too many handshakes are in flight, otherwise count it
  and spawn its handshake.
\<close>

definition spawn_handshake ::
    "endpoint option \<Rightarrow> ('st, 'wc, 'rc, 'v, 'app) server \<Rightarrow> ('st, 'wc, 'rc, 'v, 'app) server" where
  "spawn_handshake peer s =
     (if unat (handshakes_in_flight s) \<ge> max_concurrent_handshakes (conn_limits s) then s
      else s\<lparr>handshakes_in_flight := handshakes_in_flight s + 1, handshaking := handshaking s @ [peer]\<rparr>)"

text \<open>One iteration of the accept loop; an exception of \<open>accept_raw\<close> only ends the iteration.\<close>

definition accept_step ::
    "('st, 'wc, 'rc, 'v, 'app) server accept_fun \<Rightarrow> int \<Rightarrow> error_code option \<Rightarrow> endpoint option \<Rightarrow>
     ('st, 'wc, 'rc, 'v, 'app) server \<Rightarrow> ('st, 'wc, 'rc, 'v, 'app) server" where
  "accept_step accept_raw now acc peer s =
     (case accept_raw acc (Some (pre_handshake_filter now)) peer s of
        (Inl e, s') \<Rightarrow> s'
      | (Inr _, s') \<Rightarrow> spawn_handshake peer s')"

definition run_hook :: "'app session_hook option \<Rightarrow> session_info \<Rightarrow> 'app \<Rightarrow> 'app" where
  "run_hook hook info app = (case hook of None \<Rightarrow> app | Some h \<Rightarrow> snd (h info app))"

definition session_info_of :: "nat \<Rightarrow> ('st, 'wc, 'rc, 'app) session \<Rightarrow> session_info" where
  "session_info_of addr sess =
     \<lparr>info_peer_fingerprint = peer_fingerprint sess, info_peer_address = peer_address sess, session_token = addr\<rparr>"

definition per_ip_incr :: "string \<Rightarrow> (string, u64) umap \<Rightarrow> (string, u64) umap" where
  "per_ip_incr ip m = um_put ip ((case um_find m ip of None \<Rightarrow> 0 | Some n \<Rightarrow> n) + 1) m"

definition per_ip_decr :: "string \<Rightarrow> (string, u64) umap \<Rightarrow> (string, u64) umap" where
  "per_ip_decr ip m =
     (case um_find m ip of
        None \<Rightarrow> m
      | Some n \<Rightarrow> if n - 1 = 0 then um_erase ip (um_put ip (n - 1) m) else um_put ip (n - 1) m)"

text \<open>
  The handshake coroutine at index \<open>i\<close> once \<open>channel_.handshake\<close> ended: an exception, a null
  session, or a session object at address \<open>addr\<close>.
\<close>

definition handshake_step ::
    "nat \<Rightarrow> nat \<Rightarrow> ('st, 'wc, 'rc, 'app) session option result \<Rightarrow>
     ('st, 'wc, 'rc, 'v, 'app) server \<Rightarrow> 'app \<Rightarrow> ('st, 'wc, 'rc, 'v, 'app) server \<times> 'app" where
  "handshake_step i addr outcome s app =
     (let s0 = s\<lparr>handshaking := remove_nth i (handshaking s), handshakes_in_flight := handshakes_in_flight s - 1\<rparr>
      in case outcome of
           Inl e \<Rightarrow> (s0, app)
         | Inr None \<Rightarrow> (s0, app)
         | Inr (Some sess) \<Rightarrow>
             (s0\<lparr>session_objects := (session_objects s0)(addr := sess),
                 global_session_count := global_session_count s0 + 1,
                 per_ip_count := per_ip_incr (peer_ip sess) (per_ip_count s0),
                 strand_queue := strand_queue s0 @ [Insert_session addr],
                 dispatching := dispatching s0 @ [addr]\<rparr>,
              run_hook (on_session_open s0) (session_info_of addr sess) app))"

text \<open>The completion handler of a session's \<open>dispatch_requests\<close>.\<close>

definition session_done_step ::
    "nat \<Rightarrow> ('st, 'wc, 'rc, 'v, 'app) server \<Rightarrow> 'app \<Rightarrow> ('st, 'wc, 'rc, 'v, 'app) server \<times> 'app" where
  "session_done_step addr s app =
     (let sess = session_objects s addr in
      (s\<lparr>dispatching := remove1 addr (dispatching s),
         global_session_count := global_session_count s - 1,
         per_ip_count := per_ip_decr (peer_ip sess) (per_ip_count s),
         strand_queue := strand_queue s @ [Erase_session addr]\<rparr>,
       run_hook (on_session_close s) (session_info_of addr sess) app))"

definition strand_step :: "('st, 'wc, 'rc, 'v, 'app) server \<Rightarrow> ('st, 'wc, 'rc, 'v, 'app) server" where
  "strand_step s =
     (case strand_queue s of
        [] \<Rightarrow> s
      | Insert_session a # q \<Rightarrow> s\<lparr>strand_queue := q, active_sessions := List.insert a (active_sessions s)\<rparr>
      | Erase_session a # q \<Rightarrow> s\<lparr>strand_queue := q, active_sessions := removeAll a (active_sessions s)\<rparr>)"

section \<open>Configuration and registration\<close>

text \<open>
  The overloads of \<open>attach\<close>: a null object pointer throws, a missing visibility is
  \<open>authenticated\<close>.
\<close>

definition server_attach ::
    "platform \<Rightarrow> string \<Rightarrow> visibility option \<Rightarrow> bool \<Rightarrow> ('v, 'app) call \<Rightarrow>
     ('st, 'wc, 'rc, 'v, 'app) server \<Rightarrow> unit result \<times> ('st, 'wc, 'rc, 'v, 'app) server" where
  "server_attach P func_name v null_object func s =
     (if null_object then (Inl (invalid_argument ''Object pointer cannot be null''), s)
      else (Inr (), s\<lparr>server_dispatcher :=
              (case v of None \<Rightarrow> attach P func_name func (server_dispatcher s)
               | Some vv \<Rightarrow> attach_vis P func_name vv func (server_dispatcher s))\<rparr>))"

definition server_set_auth_callback ::
    "'app auth_callback option \<Rightarrow> ('st, 'wc, 'rc, 'v, 'app) server \<Rightarrow> ('st, 'wc, 'rc, 'v, 'app) server" where
  "server_set_auth_callback cb s = s\<lparr>server_dispatcher := set_auth_callback cb (server_dispatcher s)\<rparr>"

definition set_server_limits ::
    "server_limits \<Rightarrow> ('st, 'wc, 'rc, 'v, 'app) server \<Rightarrow> ('st, 'wc, 'rc, 'v, 'app) server" where
  "set_server_limits l s = s\<lparr>conn_limits := l\<rparr>"

definition set_session_limits ::
    "session_limits \<Rightarrow> ('st, 'wc, 'rc, 'v, 'app) server \<Rightarrow> ('st, 'wc, 'rc, 'v, 'app) server" where
  "set_session_limits l s = s\<lparr>server_session_limits := l\<rparr>"

section \<open>Notifications and teardown\<close>

text \<open>\<open>try_notify\<close> on the sessions of a snapshot that satisfy a condition; a full queue drops.\<close>

definition notify_where ::
    "('st, 'wc, 'rc, 'v, 'app) session_env \<Rightarrow> (('st, 'wc, 'rc, 'app) session \<Rightarrow> bool) \<Rightarrow> string \<Rightarrow> buffer_type \<Rightarrow>
     nat list \<Rightarrow> (nat \<Rightarrow> ('st, 'wc, 'rc, 'app) session) \<Rightarrow> (nat \<Rightarrow> ('st, 'wc, 'rc, 'app) session)" where
  "notify_where E wanted func_name buffer as objs =
     fold (\<lambda>a objs. if wanted (objs a) then objs(a := snd (try_notify E func_name buffer (objs a))) else objs) as objs"

definition notify_session ::
    "('st, 'wc, 'rc, 'v, 'app) session_env \<Rightarrow> string \<Rightarrow> string \<Rightarrow> 'v ctype list \<Rightarrow> 'v list \<Rightarrow>
     ('st, 'wc, 'rc, 'v, 'app) server \<Rightarrow> ('st, 'wc, 'rc, 'v, 'app) server" where
  "notify_session E target_session_id func_name ts args s =
     (if \<not> sessions_strand s \<or> target_session_id = [] then s
      else let buffer = snd (encode_message (cereal E) ts args); sessions_copy = active_sessions s
           in s\<lparr>session_objects := notify_where E (\<lambda>sess. logical_session_id sess = target_session_id)
                    func_name buffer sessions_copy (session_objects s)\<rparr>)"

definition server_notify ::
    "('st, 'wc, 'rc, 'v, 'app) session_env \<Rightarrow> string \<Rightarrow> 'v ctype list \<Rightarrow> 'v list \<Rightarrow>
     ('st, 'wc, 'rc, 'v, 'app) server \<Rightarrow> ('st, 'wc, 'rc, 'v, 'app) server" where
  "server_notify E func_name ts args s =
     (if \<not> sessions_strand s then s
      else let buffer = snd (encode_message (cereal E) ts args); sessions_copy = active_sessions s
           in s\<lparr>session_objects := notify_where E (\<lambda>sess. True) func_name buffer sessions_copy (session_objects s)\<rparr>)"

definition session_count :: "('st, 'wc, 'rc, 'v, 'app) server \<Rightarrow> nat" where
  "session_count s = (if \<not> sessions_strand s then 0 else length (active_sessions s))"

definition close_all_sessions ::
    "('st, 'wc, 'rc, 'v, 'app) session_env \<Rightarrow> ('st, 'wc, 'rc, 'v, 'app) server \<Rightarrow> ('st, 'wc, 'rc, 'v, 'app) server" where
  "close_all_sessions E s =
     (if \<not> sessions_strand s then s
      else s\<lparr>session_objects := fold (\<lambda>a objs. objs(a := close E (objs a))) (active_sessions s) (session_objects s),
             active_sessions := []\<rparr>)"

definition stop_server ::
    "('st, 'wc, 'rc, 'v, 'app) session_env \<Rightarrow> ('st, 'wc, 'rc, 'v, 'app) server \<Rightarrow> ('st, 'wc, 'rc, 'v, 'app) server" where
  "stop_server E s = close_all_sessions E s"

section \<open>The server as a transition system\<close>

text \<open>
  One step: an iteration of the accept loop for a peer whose address is known, the end of a
  handshake (the allocator gives the new session an address no live session has), the end of a
  session, one task of the strand, \<open>stop\<close>, or anything that happens to the session objects themselves:
  nothing but a handshake sets a session's \<open>peer_ip\<close>.
\<close>

inductive server_step ::
    "('st, 'wc, 'rc, 'v, 'app) server accept_fun \<Rightarrow> ('st, 'wc, 'rc, 'v, 'app) server \<times> 'app \<Rightarrow>
     ('st, 'wc, 'rc, 'v, 'app) server \<times> 'app \<Rightarrow> bool"
  for A :: "('st, 'wc, 'rc, 'v, 'app) server accept_fun" where
  Accept: "server_step A (s, a) (accept_step A now acc (Some ep) s, a)"
| Handshake: "i < length (handshaking s) \<Longrightarrow> addr \<notin> set (dispatching s) \<Longrightarrow>
    server_step A (s, a) (handshake_step i addr outcome s a)"
| Session_done: "addr \<in> set (dispatching s) \<Longrightarrow> server_step A (s, a) (session_done_step addr s a)"
| Strand: "server_step A (s, a) (strand_step s, a)"
| Stop: "server_step A (s, a) (stop_server E s, a)"
| Sessions_run: "(\<And>x. peer_ip (objs x) = peer_ip (session_objects s x)) \<Longrightarrow>
    server_step A (s, a) (s\<lparr>session_objects := objs\<rparr>, a')"

definition ip_count :: "('st, 'wc, 'rc, 'v, 'app) server \<Rightarrow> string \<Rightarrow> nat" where
  "ip_count s ip = (case um_find (per_ip_count s) ip of None \<Rightarrow> 0 | Some n \<Rightarrow> unat n)"

definition live_from :: "('st, 'wc, 'rc, 'v, 'app) server \<Rightarrow> string \<Rightarrow> nat" where
  "live_from s ip = length (filter (\<lambda>x. peer_ip (session_objects s x) = ip) (dispatching s))"

text \<open>The counters are exact and the session set is one; the bounds of the limits.\<close>

definition server_ok :: "('st, 'wc, 'rc, 'v, 'app) server \<Rightarrow> bool" where
  "server_ok s \<longleftrightarrow> unat (handshakes_in_flight s) = length (handshaking s)
     \<and> unat (global_session_count s) = length (dispatching s) \<and> distinct (dispatching s)
     \<and> sessions_strand s \<and> distinct (active_sessions s)
     \<and> um_ok (per_ip_count s) \<and> (\<forall>ip. ip_count s ip = live_from s ip)
     \<and> (\<forall>ip n. um_find (per_ip_count s) ip = Some n \<longrightarrow> n \<noteq> 0)"

definition within_limits :: "server_limits \<Rightarrow> ('st, 'wc, 'rc, 'v, 'app) server \<Rightarrow> bool" where
  "within_limits l s \<longleftrightarrow> conn_limits s = l \<and> length (handshaking s) \<le> max_concurrent_handshakes l
     \<and> length (dispatching s) + length (handshaking s)
         \<le> max_concurrent_sessions l + max_concurrent_handshakes l - 1"

text \<open>Limits that leave room in the 64-bit counters.\<close>

definition sane_limits :: "server_limits \<Rightarrow> bool" where
  "sane_limits l \<longleftrightarrow> max_concurrent_sessions l + max_concurrent_handshakes l < 2 ^ 64"

lemma unat_incr: "unat (x :: u64) + 1 < 2 ^ 64 \<Longrightarrow> unat (x + 1) = unat x + 1"
  by (simp add: unat_word_ariths)

lemma unat_decr: "unat (x :: u64) > 0 \<Longrightarrow> unat (x - 1) = unat x - 1"
  by (rule unat_minus_one) auto

lemma same_buckets: "\<exists>b. s = s\<lparr>per_ip_accept_bucket := b\<rparr>"
  by (rule exI [of _ "per_ip_accept_bucket s"]) simp

lemma filter_frame:
  assumes "pre_handshake_filter now ep s = ((ok, reason), s')"
  shows "\<exists>b. s' = s\<lparr>per_ip_accept_bucket := b\<rparr>"
    and "ok \<Longrightarrow> unat (global_session_count s) < max_concurrent_sessions (conn_limits s)"
    and "ok \<Longrightarrow> ip_count s (ep_address ep) = 0 \<or> ip_count s (ep_address ep) < max_sessions_per_ip (conn_limits s)"
  using assms
  by (auto simp: pre_handshake_filter_def ip_count_def Let_def intro: same_buckets
      split: if_splits prod.splits option.splits)

lemma accept_step_cases:
  assumes "raw_acceptor A"
  obtains b where "accept_step A now acc (Some ep) s = s\<lparr>per_ip_accept_bucket := b\<rparr>"
  | b where "accept_step A now acc (Some ep) s = s\<lparr>per_ip_accept_bucket := b,
        handshakes_in_flight := handshakes_in_flight s + 1, handshaking := handshaking s @ [Some ep]\<rparr>"
      "unat (global_session_count s) < max_concurrent_sessions (conn_limits s)"
      "unat (handshakes_in_flight s) < max_concurrent_handshakes (conn_limits s)"
proof -
  note acc_eq = raw_acceptor.accept_raw_cases [OF assms]
  obtain ok reason s1 where f: "pre_handshake_filter now ep s = ((ok, reason), s1)"
    by (metis prod.exhaust)
  note fr = filter_frame [OF f]
  obtain b where s1: "s1 = s\<lparr>per_ip_accept_bucket := b\<rparr>"
    using fr(1) by blast
  show ?thesis
  proof (cases "acc = None \<and> ok \<and> unat (handshakes_in_flight s) < max_concurrent_handshakes (conn_limits s)")
    case True
    with f s1 have "accept_step A now acc (Some ep) s = s\<lparr>per_ip_accept_bucket := b,
        handshakes_in_flight := handshakes_in_flight s + 1, handshaking := handshaking s @ [Some ep]\<rparr>"
      by (simp add: accept_step_def spawn_handshake_def acc_eq)
    with that(2) fr(2) True show ?thesis
      by blast
  next
    case False
    have "accept_step A now acc (Some ep) s = s\<lparr>per_ip_accept_bucket := per_ip_accept_bucket s\<rparr>
        \<or> accept_step A now acc (Some ep) s = s\<lparr>per_ip_accept_bucket := b\<rparr>"
      using False f s1 by (auto simp: accept_step_def spawn_handshake_def acc_eq split: option.splits)
    with that(1) show ?thesis
      by blast
  qed
qed

lemma filter_ip_fresh:
  assumes "addr \<notin> set xs"
  shows "filter (\<lambda>x. peer_ip ((objs(addr := sess)) x) = ip) xs = filter (\<lambda>x. peer_ip (objs x) = ip) xs"
  using assms by (induction xs) auto

lemma length_filter_remove1:
  "distinct xs \<Longrightarrow> x \<in> set xs \<Longrightarrow>
   length (filter P xs) = length (filter P (remove1 x xs)) + (if P x then 1 else 0)"
  by (induction xs) auto

lemma accept_keeps_ok [inv_intros]:
  assumes "raw_acceptor A" and "server_ok s" and "within_limits l s" and "sane_limits l"
    and "s' = accept_step A now acc (Some ep) s"
  shows "server_ok s' \<and> within_limits l s'"
  using assms(1)
proof (rule accept_step_cases [of A now acc ep s])
  fix b assume "accept_step A now acc (Some ep) s = s\<lparr>per_ip_accept_bucket := b\<rparr>"
  then show ?thesis
    using assms(2,3,5) by (simp add: server_ok_def within_limits_def ip_count_def live_from_def)
next
  fix b assume b: "accept_step A now acc (Some ep) s = s\<lparr>per_ip_accept_bucket := b,
        handshakes_in_flight := handshakes_in_flight s + 1, handshaking := handshaking s @ [Some ep]\<rparr>"
    and g: "unat (global_session_count s) < max_concurrent_sessions (conn_limits s)"
    and h: "unat (handshakes_in_flight s) < max_concurrent_handshakes (conn_limits s)"
  have l: "conn_limits s = l"
    using assms(3) by (simp add: within_limits_def)
  have "unat (handshakes_in_flight s + 1) = length (handshaking s) + 1"
    using h assms(2,4) unfolding l by (subst unat_incr) (simp_all add: server_ok_def sane_limits_def)
  then show ?thesis
    using assms(2,3,5) b g h l
    by (simp add: server_ok_def within_limits_def ip_count_def live_from_def)
qed

lemma ip_count_incr:
  assumes "ip_count s ip + 1 < 2 ^ 64" and "per_ip_count s' = per_ip_incr ip (per_ip_count s)"
  shows "ip_count s' ip' = ip_count s ip' + (if ip' = ip then 1 else 0)"
  using assms unat_incr
  by (auto simp: ip_count_def per_ip_incr_def unat_word_ariths split: option.splits)

lemma ip_count_decr:
  assumes "um_ok (per_ip_count s)" and "0 < ip_count s ip" and "per_ip_count s' = per_ip_decr ip (per_ip_count s)"
  shows "ip_count s' ip' = ip_count s ip' - (if ip' = ip then 1 else 0)"
proof -
  obtain n where n: "um_find (per_ip_count s) ip = Some n" "0 < unat n"
    using assms(2) by (auto simp: ip_count_def split: option.splits)
  have "unat (n - 1) = unat n - 1"
    using n(2) by (rule unat_decr)
  then show ?thesis
    using n assms(3) by (auto simp: ip_count_def per_ip_decr_def split: option.splits)
qed

lemma live_from_le: "live_from s ip \<le> length (dispatching s)"
  by (simp add: live_from_def)

lemma handshake_ends_ok:
  assumes "server_ok s" and "within_limits l s" and "i < length (handshaking s)"
    and "s0 = s\<lparr>handshaking := remove_nth i (handshaking s), handshakes_in_flight := handshakes_in_flight s - 1\<rparr>"
  shows "server_ok s0" and "within_limits l s0"
    and "length (dispatching s0) + length (handshaking s0) + 1 = length (dispatching s) + length (handshaking s)"
proof -
  have len: "length (remove_nth i (handshaking s)) = length (handshaking s) - 1"
    using assms(3) by (simp add: remove_nth_def)
  have "unat (handshakes_in_flight s - 1) = length (handshaking s) - 1"
    using assms(1,3) by (subst unat_decr) (auto simp: server_ok_def)
  then show "server_ok s0" "within_limits l s0"
    "length (dispatching s0) + length (handshaking s0) + 1 = length (dispatching s) + length (handshaking s)"
    using assms len by (auto simp: server_ok_def within_limits_def ip_count_def live_from_def)
qed

lemma admit_keeps_ok:
  assumes "server_ok s" and "within_limits l s" and "sane_limits l" and "addr \<notin> set (dispatching s)"
    and "length (dispatching s) + length (handshaking s) + 1 \<le> max_concurrent_sessions l + max_concurrent_handshakes l - 1"
    and "s' = s\<lparr>session_objects := (session_objects s)(addr := sess),
                 global_session_count := global_session_count s + 1,
                 per_ip_count := per_ip_incr (peer_ip sess) (per_ip_count s),
                 strand_queue := q, dispatching := dispatching s @ [addr]\<rparr>"
  shows "server_ok s' \<and> within_limits l s'"
proof -
  have room: "length (dispatching s) + 1 < 2 ^ 64"
    using assms(3,5) by (simp add: sane_limits_def)
  have "unat (global_session_count s + 1) = length (dispatching s) + 1"
    using room assms(1) by (subst unat_incr) (simp_all add: server_ok_def)
  moreover have "ip_count s' ip = live_from s' ip" for ip
  proof -
    have "ip_count s (peer_ip sess) + 1 < 2 ^ 64"
      using room assms(1) live_from_le [of s "peer_ip sess"] by (simp add: server_ok_def)
    then have "ip_count s' ip = ip_count s ip + (if ip = peer_ip sess then 1 else 0)"
      by (rule ip_count_incr) (simp add: assms(6))
    moreover have "live_from s' ip = live_from s ip + (if ip = peer_ip sess then 1 else 0)"
      by (simp add: live_from_def assms(6) filter_ip_fresh [OF assms(4)] fun_upd_same del: fun_upd_apply)
    ultimately show ?thesis
      using assms(1) by (simp add: server_ok_def)
  qed
  moreover have "n \<noteq> 0" if "um_find (per_ip_count s') ip = Some n" for ip n
  proof -
    have "ip_count s (peer_ip sess) + 1 < 2 ^ 64"
      using room assms(1) live_from_le [of s "peer_ip sess"] by (simp add: server_ok_def)
    from ip_count_incr [OF this, of s' ip] that assms(1,6) show ?thesis
      by (auto simp: ip_count_def server_ok_def per_ip_incr_def split: if_splits option.splits)
  qed
  moreover have "um_ok (per_ip_count s')" "distinct (dispatching s')"
    using assms(1,4,6) by (simp_all add: server_ok_def per_ip_incr_def)
  ultimately show ?thesis
    using assms(1,2,5,6) by (auto simp: server_ok_def within_limits_def)
qed

lemma handshake_keeps_ok [inv_intros]:
  assumes "server_ok s" and "within_limits l s" and "sane_limits l" and "i < length (handshaking s)"
    and "addr \<notin> set (dispatching s)" and "handshake_step i addr outcome s a = (s', a')"
  shows "server_ok s' \<and> within_limits l s'"
proof -
  define s0 where "s0 = s\<lparr>handshaking := remove_nth i (handshaking s), handshakes_in_flight := handshakes_in_flight s - 1\<rparr>"
  note s0 = handshake_ends_ok [OF assms(1,2,4) s0_def]
  consider "s' = s0" | sess where "s' = s0\<lparr>session_objects := (session_objects s0)(addr := sess),
                 global_session_count := global_session_count s0 + 1,
                 per_ip_count := per_ip_incr (peer_ip sess) (per_ip_count s0),
                 strand_queue := strand_queue s0 @ [Insert_session addr], dispatching := dispatching s0 @ [addr]\<rparr>"
    using assms(6) by (auto simp: handshake_step_def s0_def [symmetric] Let_def split: sum.splits option.splits)
  then show ?thesis
  proof cases
    case 1
    with s0 show ?thesis by simp
  next
    case (2 sess)
    have "addr \<notin> set (dispatching s0)"
      using assms(5) by (simp add: s0_def)
    moreover have "length (dispatching s0) + length (handshaking s0) + 1
        \<le> max_concurrent_sessions l + max_concurrent_handshakes l - 1"
      using s0(3) assms(2) by (simp add: within_limits_def)
    ultimately show ?thesis
      by (rule admit_keeps_ok [OF s0(1,2) assms(3) _ _ 2])
  qed
qed

lemma session_done_keeps_ok [inv_intros]:
  assumes "server_ok s" and "within_limits l s" and "addr \<in> set (dispatching s)"
    and "session_done_step addr s a = (s', a')"
  shows "server_ok s' \<and> within_limits l s'"
proof -
  let ?ip = "peer_ip (session_objects s addr)"
  have s': "dispatching s' = remove1 addr (dispatching s)" "active_sessions s' = active_sessions s"
    "sessions_strand s' = sessions_strand s" "session_objects s' = session_objects s"
    "global_session_count s' = global_session_count s - 1" "handshaking s' = handshaking s"
    "handshakes_in_flight s' = handshakes_in_flight s" "conn_limits s' = conn_limits s"
    "per_ip_count s' = per_ip_decr ?ip (per_ip_count s)"
    using assms(4) by (auto simp: session_done_step_def Let_def)
  have dist: "distinct (dispatching s)"
    using assms(1) by (simp add: server_ok_def)
  have live: "live_from s ip = live_from s' ip + (if ?ip = ip then 1 else 0)" for ip
    using length_filter_remove1 [OF dist assms(3), of "\<lambda>x. peer_ip (session_objects s x) = ip"]
    by (simp add: live_from_def s')
  have pos: "0 < ip_count s ?ip"
    using live [of ?ip] assms(1) by (simp add: server_ok_def)
  have "um_ok (per_ip_count s)"
    using assms(1) by (simp add: server_ok_def)
  note decr = ip_count_decr [OF this pos s'(9)]
  have len: "length (dispatching s) > 0" "length (remove1 addr (dispatching s)) = length (dispatching s) - 1"
    using assms(3) by (auto simp: length_remove1)
  have "unat (global_session_count s - 1) = length (dispatching s) - 1"
    using len(1) assms(1) by (subst unat_decr) (auto simp: server_ok_def)
  moreover have "ip_count s' ip = live_from s' ip" for ip
    using decr [of ip] live [of ip] assms(1) by (auto simp: server_ok_def)
  moreover have "n \<noteq> 0" if "um_find (per_ip_count s') ip = Some n" for ip n
    using that assms(1) by (auto simp: s' per_ip_decr_def server_ok_def split: option.splits if_splits)
  moreover have "um_ok (per_ip_count s')"
    using assms(1) by (auto simp: s' per_ip_decr_def server_ok_def split: option.splits)
  ultimately show ?thesis
    using assms(1,2) len by (auto simp: server_ok_def within_limits_def s')
qed

lemma close_each:
  "distinct as \<Longrightarrow> fold (\<lambda>a objs. objs(a := close E (objs a))) as objs x =
     (if x \<in> set as then close E (objs x) else objs x)"
  by (induction as arbitrary: objs) auto

lemma stop_keeps_ok [inv_intros]:
  assumes "server_ok s" and "within_limits l s"
  shows "server_ok (stop_server E s) \<and> within_limits l (stop_server E s)"
proof -
  have "distinct (active_sessions s)"
    using assms(1) by (simp add: server_ok_def)
  then have "live_from (stop_server E s) ip = live_from s ip" for ip
    by (simp add: stop_server_def close_all_sessions_def live_from_def close_each if_distrib cong: if_cong)
  then show ?thesis
    using assms by (simp add: stop_server_def close_all_sessions_def server_ok_def within_limits_def ip_count_def)
qed

lemma server_step_keeps_ok [inv_intros]:
  assumes "raw_acceptor A" and "server_step A c c'" and "sane_limits l"
    and "server_ok (fst c) \<and> within_limits l (fst c)"
  shows "server_ok (fst c') \<and> within_limits l (fst c')"
  using assms(2)
proof (cases rule: server_step.cases)
  case (Accept s a now acc ep)
  with accept_keeps_ok [OF assms(1) _ _ assms(3)] assms(4) show ?thesis
    by simp
next
  case (Handshake i s addr a outcome)
  obtain s' a' where "handshake_step i addr outcome s a = (s', a')"
    by force
  from handshake_keeps_ok [OF _ _ assms(3) _ _ this] this Handshake assms(4) show ?thesis
    by simp
next
  case (Session_done addr s a)
  obtain s' a' where "session_done_step addr s a = (s', a')"
    by force
  with session_done_keeps_ok [of s l addr a s' a'] Session_done assms(4) show ?thesis
    by simp
next
  case (Strand s a)
  then show ?thesis
    using assms(4)
    by (auto simp: strand_step_def server_ok_def within_limits_def ip_count_def live_from_def
        distinct_removeAll split: list.splits strand_task.splits)
next
  case (Stop s a E)
  with stop_keeps_ok [of s l E] assms(4) show ?thesis
    by simp
next
  case (Sessions_run objs s a a')
  then show ?thesis
    using assms(4) by (simp add: server_ok_def within_limits_def ip_count_def live_from_def)
qed

lemma server_run_keeps_ok:
  assumes "raw_acceptor A" and "(server_step A)\<^sup>*\<^sup>* c c'" and "sane_limits l"
    and "server_ok (fst c) \<and> within_limits l (fst c)"
  shows "server_ok (fst c') \<and> within_limits l (fst c')"
  using assms(2,4) by (induction rule: rtranclp_induct) (auto dest: server_step_keeps_ok [OF assms(1) _ assms(3)])

text \<open>A server that was configured and started.\<close>

definition started :: "server_limits \<Rightarrow> (nat \<Rightarrow> ('st, 'wc, 'rc, 'app) session) \<Rightarrow> ('st, 'wc, 'rc, 'v, 'app) server" where
  "started l objs = start_server (set_server_limits l (make_server objs))"

lemma fresh_server_ok:
  "server_ok (started l objs) \<and> within_limits l (started l objs)"
  by (simp add: started_def start_server_def server_ok_def within_limits_def set_server_limits_def make_server_def ip_count_def live_from_def)

lemma channel_is_raw_acceptor: "A \<in> {tcp_accept_raw, ssl_accept_raw} \<Longrightarrow> raw_acceptor A"
  using tcp_acc.raw_acceptor_axioms ssl_acc.raw_acceptor_axioms by auto

section \<open>Properties\<close>

text \<open>
  C18: the counters behind the accept filter are exact. In every reachable state of the server the
  number of handshakes in flight, the number of sessions and, per address, the number of sessions from
  it equal the counters, so every seat that is taken is given back exactly once, however a handshake
  or a session ends; an address without sessions has no entry.
\<close>

theorem server_counters_exact:
  assumes "A \<in> {tcp_accept_raw, ssl_accept_raw}" and "sane_limits l"
    and "(server_step A)\<^sup>*\<^sup>* (started l objs, a0) (s, a)"
  shows "unat (handshakes_in_flight s) = length (handshaking s)
    \<and> unat (global_session_count s) = length (dispatching s)
    \<and> (\<forall>ip. ip_count s ip = live_from s ip)
    \<and> (\<forall>ip. live_from s ip = 0 \<longrightarrow> um_find (per_ip_count s) ip = None)"
proof -
  have ok: "server_ok s"
    using server_run_keeps_ok [OF channel_is_raw_acceptor [OF assms(1)] assms(3,2)] by (simp add: fresh_server_ok)
  have "um_find (per_ip_count s) ip = None" if "live_from s ip = 0" for ip
  proof (rule ccontr)
    assume "um_find (per_ip_count s) ip \<noteq> None"
    then obtain n where n: "um_find (per_ip_count s) ip = Some n" "n \<noteq> 0"
      using ok by (auto simp: server_ok_def)
    then have "0 < ip_count s ip"
      by (simp add: ip_count_def unat_gt_0)
    with that ok show False
      by (simp add: server_ok_def)
  qed
  with ok show ?thesis
    by (simp add: server_ok_def)
qed


text \<open>One session at most, two handshakes at most, no accept-rate limit.\<close>

definition tight_limits :: server_limits where
  "tight_limits = \<lparr>max_concurrent_sessions = 1, max_sessions_per_ip = 1, accept_burst_per_ip = 0,
     accept_refill_per_ip_per_s = 0, max_concurrent_handshakes = 2\<rparr>"

definition sample_peer :: endpoint where
  "sample_peer = \<lparr>ep_address = ''10.0.0.1'', ep_port = 4000\<rparr>"

lemma filter_grants_tight:
  assumes "global_session_count s = 0" and "per_ip_count s = um_empty" and "conn_limits s = tight_limits"
    and "\<And>b. um_find (per_ip_accept_bucket s) (ep_address ep) = Some b \<Longrightarrow> capacity b = 0"
  obtains b where "capacity b = 0"
    and "pre_handshake_filter now ep s =
      ((True, []), s\<lparr>per_ip_accept_bucket := um_put (ep_address ep) b (per_ip_accept_bucket s)\<rparr>)"
proof -
  define b0 where "b0 = (case um_find (per_ip_accept_bucket s) (ep_address ep) of
    Some b \<Rightarrow> b | None \<Rightarrow> default_token_bucket)"
  have b0: "capacity b0 = 0"
    using assms(4) by (auto simp: b0_def default_token_bucket_def split: option.splits)
  have "pre_handshake_filter now ep s = ((True, []), s\<lparr>per_ip_accept_bucket :=
      um_put (ep_address ep) (refill now (b0\<lparr>capacity := 0, refill_per_sec := 0\<rparr>)) (per_ip_accept_bucket s)\<rparr>)"
    using assms(1-3) b0
    by (simp add: pre_handshake_filter_def b0_def [symmetric] tight_limits_def try_take_def Let_def)
  with that [of "refill now (b0\<lparr>capacity := 0, refill_per_sec := 0\<rparr>)"] show ?thesis
    by simp
qed

lemma tight_accept:
  assumes "global_session_count s = 0" and "per_ip_count s = um_empty" and "conn_limits s = tight_limits"
    and "\<And>b. um_find (per_ip_accept_bucket s) (ep_address ep) = Some b \<Longrightarrow> capacity b = 0"
    and "unat (handshakes_in_flight s) < 2"
  obtains b where "capacity b = 0"
    and "accept_step tcp_accept_raw now None (Some ep) s =
      s\<lparr>per_ip_accept_bucket := um_put (ep_address ep) b (per_ip_accept_bucket s),
        handshakes_in_flight := handshakes_in_flight s + 1, handshaking := handshaking s @ [Some ep]\<rparr>"
proof -
  obtain b where "capacity b = 0" and f: "pre_handshake_filter now ep s =
      ((True, []), s\<lparr>per_ip_accept_bucket := um_put (ep_address ep) b (per_ip_accept_bucket s)\<rparr>)"
    using filter_grants_tight [OF assms(1-4)] by blast
  moreover have "accept_step tcp_accept_raw now None (Some ep) s =
      s\<lparr>per_ip_accept_bucket := um_put (ep_address ep) b (per_ip_accept_bucket s),
        handshakes_in_flight := handshakes_in_flight s + 1, handshaking := handshaking s @ [Some ep]\<rparr>"
    using assms(3,5) by (simp add: accept_step_def spawn_handshake_def tcp_acc.accept_raw_cases f tight_limits_def)
  ultimately show ?thesis
    using that by blast
qed

lemma tight_first_accept:
  assumes "t1 = accept_step tcp_accept_raw now None (Some ep) (started tight_limits objs)"
  obtains b1 where "capacity b1 = 0" and "handshaking t1 = [Some ep]" and "dispatching t1 = []"
    and "active_sessions t1 = []" and "strand_queue t1 = []" and "sessions_strand t1"
    and "global_session_count t1 = 0" and "per_ip_count t1 = um_empty" and "conn_limits t1 = tight_limits"
    and "handshakes_in_flight t1 = 1" and "per_ip_accept_bucket t1 = um_put (ep_address ep) b1 um_empty"
proof -
  let ?s0 = "started tight_limits objs"
  have f0: "handshaking ?s0 = []" "dispatching ?s0 = []" "global_session_count ?s0 = 0" "per_ip_count ?s0 = um_empty"
    "conn_limits ?s0 = tight_limits" "handshakes_in_flight ?s0 = 0" "per_ip_accept_bucket ?s0 = um_empty"
    "active_sessions ?s0 = []" "strand_queue ?s0 = []" "sessions_strand ?s0"
    by (simp_all add: started_def start_server_def set_server_limits_def make_server_def)
  obtain b1 where "capacity b1 = 0" and "t1 =
      ?s0\<lparr>per_ip_accept_bucket := um_put (ep_address ep) b1 (per_ip_accept_bucket ?s0),
        handshakes_in_flight := handshakes_in_flight ?s0 + 1, handshaking := handshaking ?s0 @ [Some ep]\<rparr>"
    unfolding assms by (rule tight_accept [of ?s0 ep now]) (simp_all add: f0)
  with that [of b1] show ?thesis
    by (simp add: f0)
qed

text \<open>
  The session cap is checked when a connection is accepted and counted when its handshake ends.
  A server configured for one session in all and one per address accepts two connections from the
  same address while neither is counted and ends up with two sessions from it.
\<close>

theorem session_cap_exceeded:
  "\<exists>(s :: ('st, 'wc, 'rc, 'v, 'app) server) a.
     (server_step tcp_accept_raw)\<^sup>*\<^sup>* (started tight_limits objs, a0) (s, a)
     \<and> unat (global_session_count s) = 2 \<and> ip_count s (peer_ip (sess :: ('st, 'wc, 'rc, 'app) session)) = 2
     \<and> max_concurrent_sessions (conn_limits s) = 1 \<and> max_sessions_per_ip (conn_limits s) = 1"
proof -
  let ?st = "server_step tcp_accept_raw :: ('st, 'wc, 'rc, 'v, 'app) server \<times> 'app \<Rightarrow> _"
  let ?s0 = "started tight_limits objs :: ('st, 'wc, 'rc, 'v, 'app) server"
  define t1 where "t1 = accept_step tcp_accept_raw 1 None (Some sample_peer) ?s0"
  obtain b1 where f1: "capacity b1 = 0" "handshaking t1 = [Some sample_peer]" "dispatching t1 = []"
    "active_sessions t1 = []" "strand_queue t1 = []" "sessions_strand t1" "global_session_count t1 = 0"
    "per_ip_count t1 = um_empty" "conn_limits t1 = tight_limits" "handshakes_in_flight t1 = 1"
    "per_ip_accept_bucket t1 = um_put (ep_address sample_peer) b1 um_empty"
    using t1_def by (rule tight_first_accept)
  obtain b2 where s2: "accept_step tcp_accept_raw 2 None (Some sample_peer) t1 =
      t1\<lparr>per_ip_accept_bucket := um_put (ep_address sample_peer) b2 (per_ip_accept_bucket t1),
        handshakes_in_flight := handshakes_in_flight t1 + 1, handshaking := handshaking t1 @ [Some sample_peer]\<rparr>"
    by (rule tight_accept [of t1 sample_peer 2]) (use f1(1) in \<open>auto simp: f1\<close>)
  define t2 where "t2 = accept_step tcp_accept_raw 2 None (Some sample_peer) t1"
  obtain t3 a3 where t3: "handshake_step 0 0 (Inr (Some sess)) t2 a0 = (t3, a3)" by force
  obtain t4 a4 where t4: "handshake_step 0 1 (Inr (Some sess)) t3 a3 = (t4, a4)" by force
  have f2: "handshaking t2 = [Some sample_peer, Some sample_peer]" "dispatching t2 = []"
    "global_session_count t2 = 0" "per_ip_count t2 = um_empty" "conn_limits t2 = tight_limits"
    by (simp_all add: t2_def s2 f1)
  have f3: "handshaking t3 = [Some sample_peer]" "dispatching t3 = [0]"
    "global_session_count t3 = 1" "per_ip_count t3 = per_ip_incr (peer_ip sess) um_empty"
    "conn_limits t3 = tight_limits"
    using t3 by (auto simp: handshake_step_def f2 remove_nth_def)
  have f4: "global_session_count t4 = 2" "conn_limits t4 = tight_limits"
    "per_ip_count t4 = per_ip_incr (peer_ip sess) (per_ip_incr (peer_ip sess) um_empty)"
    using t4 by (auto simp: handshake_step_def f3 remove_nth_def)
  have "?st (?s0, a0) (t1, a0)" "?st (t1, a0) (t2, a0)"
    unfolding t1_def t2_def by (rule server_step.Accept)+
  moreover have "?st (t2, a0) (t3, a3)" "?st (t3, a3) (t4, a4)"
    using server_step.Handshake [of 0 t2 0 tcp_accept_raw a0 "Inr (Some sess)"]
      server_step.Handshake [of 0 t3 1 tcp_accept_raw a3 "Inr (Some sess)"] t3 t4 f2 f3 by simp_all
  ultimately have "?st\<^sup>*\<^sup>* (?s0, a0) (t4, a4)"
    by (meson rtranclp.rtrancl_into_rtrancl rtranclp.rtrancl_refl)
  with f4 show ?thesis
    by (intro exI [of _ t4] exI [of _ a4]) (simp add: ip_count_def per_ip_incr_def tight_limits_def)
qed

text \<open>Notifications of a snapshot reach exactly the sessions that are wanted.\<close>

lemma try_notify_logical: "logical_session_id (snd (try_notify E f b sess)) = logical_session_id sess"
  by (simp add: try_notify_def try_write_def Let_def split: prod.splits if_splits)

lemma notify_where_at:
  assumes "distinct as" and "\<And>x. wanted (snd (try_notify E f b x)) = wanted x"
  shows "notify_where E wanted f b as objs x =
    (if x \<in> set as \<and> wanted (objs x) then snd (try_notify E f b (objs x)) else objs x)"
  using assms(1)
proof (induction as arbitrary: objs)
  case Nil
  then show ?case by (simp add: notify_where_def)
next
  case (Cons a as)
  then show ?case by (auto simp: notify_where_def)
qed

lemma notify_session_at:
  assumes "server_ok s" and "target \<noteq> []"
  shows "session_objects (notify_session E target f ts args s) x =
    (if x \<in> set (active_sessions s) \<and> logical_session_id (session_objects s x) = target
     then snd (try_notify E f (snd (encode_message (cereal E) ts args)) (session_objects s x))
     else session_objects s x)"
  using assms by (simp add: notify_session_def Let_def server_ok_def notify_where_at try_notify_logical)

lemma reachable_server_ok:
  assumes "A \<in> {tcp_accept_raw, ssl_accept_raw}" and "sane_limits l"
    and "(server_step A)\<^sup>*\<^sup>* (started l objs, a0) (s, a)"
  shows "server_ok s"
  using server_run_keeps_ok [OF channel_is_raw_acceptor [OF assms(1)] assms(3,2)] by (simp add: fresh_server_ok)

text \<open>
  A targeted notification reaches its session and no other. In every reachable state of a
  started server, \<open>notify_session\<close> queues the encoded frame on exactly the active sessions whose
  logical session id is the target, and changes nothing of any other session.
\<close>

theorem notify_session_targets:
  assumes "A \<in> {tcp_accept_raw, ssl_accept_raw}" and "sane_limits l"
    and "(server_step A)\<^sup>*\<^sup>* (started l objs, a0) (s, a)" and "target \<noteq> []"
  shows "session_objects (notify_session E target f ts args s) x =
    (if x \<in> set (active_sessions s) \<and> logical_session_id (session_objects s x) = target
     then snd (try_notify E f (snd (encode_message (cereal E) ts args)) (session_objects s x))
     else session_objects s x)"
  by (rule notify_session_at [OF reachable_server_ok [OF assms(1-3)] assms(4)])

section \<open>A concrete run\<close>

text \<open>One connection is accepted, its handshake gives a session with a logical id, the strand adds it.\<close>

type_synonym sample_server =
  "(mem_stream, write_item list_channel, op_result list_channel, wire_value, nat) server"

definition tenant_session :: sample_session where
  "tenant_session = (sample_session empty_dispatcher [])\<lparr>logical_session_id := ''t''\<rparr>"

definition sample_accepted :: sample_server where
  "sample_accepted = accept_step tcp_accept_raw 1 None (Some sample_peer)
     (started tight_limits (\<lambda>_. sample_session empty_dispatcher []))"

definition sample_admitted :: sample_server where
  "sample_admitted = fst (handshake_step 0 7 (Inr (Some tenant_session)) sample_accepted 0)"

definition sample_serving :: sample_server where
  "sample_serving = strand_step sample_admitted"

lemma sample_accepted_fields:
  "handshaking sample_accepted = [Some sample_peer]" "dispatching sample_accepted = []"
  "active_sessions sample_accepted = []" "strand_queue sample_accepted = []"
  by (rule tight_first_accept [OF sample_accepted_def], simp)+

lemma sample_serving_fields:
  "dispatching sample_serving = [7]" "active_sessions sample_serving = [7]" "handshaking sample_serving = []"
  "session_objects sample_serving 7 = tenant_session"
  by (simp_all add: sample_serving_def sample_admitted_def strand_step_def handshake_step_def
      sample_accepted_fields remove_nth_def)

lemma sample_serving_reachable:
  "(server_step tcp_accept_raw)\<^sup>*\<^sup>* (started tight_limits (\<lambda>_. sample_session empty_dispatcher []), 0)
     (sample_serving, snd (handshake_step 0 7 (Inr (Some tenant_session)) sample_accepted 0))"
proof -
  let ?a = "snd (handshake_step 0 7 (Inr (Some tenant_session)) sample_accepted 0)"
  have "server_step tcp_accept_raw (started tight_limits (\<lambda>_. sample_session empty_dispatcher []), 0) (sample_accepted, 0)"
    unfolding sample_accepted_def by (rule server_step.Accept)
  moreover have "server_step tcp_accept_raw (sample_accepted, 0) (sample_admitted, ?a)"
    using server_step.Handshake [of 0 sample_accepted 7 tcp_accept_raw 0 "Inr (Some tenant_session)"]
    by (simp add: sample_accepted_fields sample_admitted_def)
  moreover have "server_step tcp_accept_raw (sample_admitted, ?a) (sample_serving, ?a)"
    unfolding sample_serving_def by (rule server_step.Strand)
  ultimately show ?thesis
    by (meson rtranclp.rtrancl_into_rtrancl rtranclp.rtrancl_refl)
qed

lemma sane_tight: "sane_limits tight_limits"
  by (simp add: sane_limits_def tight_limits_def)

theorem server_counters_exact_witness:
  "unat (global_session_count sample_serving) = 1 \<and> unat (handshakes_in_flight sample_serving) = 0"
  using server_counters_exact [OF _ sane_tight sample_serving_reachable] by (simp add: sample_serving_fields)


theorem notify_session_targets_witness:
  "session_objects (notify_session (sample_env empty_dispatcher) ''t'' ''f'' [] [] sample_serving) 7 =
     snd (try_notify (sample_env empty_dispatcher) ''f'' (snd (encode_message (cereal (sample_env empty_dispatcher)) [] ([] :: wire_value list)))
       tenant_session)"
  using notify_session_targets [OF _ sane_tight sample_serving_reachable, of "''t''" "sample_env empty_dispatcher" "''f''" "[]" "[]" 7]
  by (simp add: sample_serving_fields tenant_session_def)

end
