(* ===== verification/Channel_State.thy ===== *)
theory Channel_State
  imports Channels
begin

text \<open>
  The channel objects of \<open>tcp_channel.hpp\<close> and \<open>ssl_channel.hpp\<close>: acceptor and filter as state,
  binding, closing, moving, and the composed \<open>accept\<close> and \<open>connect\<close>. Both classes satisfy the locale
  \<open>channel_object\<close>, which is what \<open>server::start\<close> relies on. What the operating system and the
  resolver report are arguments.
\<close>

section \<open>Acceptors\<close>

record acceptor =
  local_ep :: endpoint
  acc_open :: bool

text \<open>
  What binding reports: the outcome of opening and binding the socket (with the endpoint it got), of
  \<open>set_option\<close> and of \<open>listen\<close>. The acceptor is assigned before the last two can throw.
\<close>

record bind_report =
  bound :: "endpoint + error_code"
  option_ec :: "error_code option"
  listen_ec :: "error_code option"

definition bind_acceptor :: "bind_report \<Rightarrow> acceptor option \<Rightarrow> unit result \<times> acceptor option" where
  "bind_acceptor rep acc =
     (case bound rep of
        Inr ec \<Rightarrow> (Inl (system_error ec []), acc)
      | Inl ep \<Rightarrow>
          (let acc1 = Some \<lparr>local_ep = ep, acc_open = True\<rparr> in
           case option_ec rep of
             Some ec \<Rightarrow> (Inl (system_error ec []), acc1)
           | None \<Rightarrow> (case listen_ec rep of
                       Some ec \<Rightarrow> (Inl (system_error ec []), acc1)
                     | None \<Rightarrow> (Inr (), acc1))))"

text \<open>\<open>cancel\<close> throws on an acceptor that is closed already, so a second \<open>close\<close> of the channel does.\<close>

definition close_acceptor :: "acceptor option \<Rightarrow> unit result \<times> acceptor option" where
  "close_acceptor acc =
     (case acc of
        None \<Rightarrow> (Inr (), None)
      | Some a \<Rightarrow> if acc_open a then (Inr (), Some (a\<lparr>acc_open := False\<rparr>)) else (Inl (system_error bad_descriptor []), Some a))"

text \<open>\<open>tcp::endpoint()\<close>; \<open>local_endpoint\<close> of a closed acceptor throws.\<close>

definition default_endpoint :: endpoint where
  "default_endpoint = \<lparr>ep_address = ''0.0.0.0'', ep_port = 0\<rparr>"

definition acceptor_endpoint :: "acceptor option \<Rightarrow> endpoint result" where
  "acceptor_endpoint acc =
     (case acc of None \<Rightarrow> Inr default_endpoint
      | Some a \<Rightarrow> if acc_open a then Inr (local_ep a) else Inl (system_error bad_descriptor []))"

definition acceptor_executor :: "string \<Rightarrow> acceptor option \<Rightarrow> unit result" where
  "acceptor_executor name acc =
     (case acc of None \<Rightarrow> Inl (runtime_error (name @ '': get_executor() called before bind()'')) | Some a \<Rightarrow> Inr ())"

text \<open>\<open>async_accept\<close> of a closed acceptor fails; without an acceptor the behaviour is undefined (\<open>None\<close>).\<close>

definition accept_report :: "acceptor option \<Rightarrow> error_code option \<Rightarrow> error_code option option" where
  "accept_report acc ec = map_option (\<lambda>a. if acc_open a then ec else Some bad_descriptor) acc"

section \<open>\<open>tcp_channel\<close>\<close>

record 's tcp_channel =
  tc_acceptor :: "acceptor option"
  tc_filter :: "'s conn_filter option"

definition make_tcp_channel :: "'s tcp_channel" where
  "make_tcp_channel = \<lparr>tc_acceptor = None, tc_filter = None\<rparr>"

text \<open>The move constructor: the new channel and the moved-from one.\<close>

definition move_tcp_channel :: "'s tcp_channel \<Rightarrow> 's tcp_channel \<times> 's tcp_channel" where
  "move_tcp_channel other =
     (make_tcp_channel\<lparr>tc_acceptor := tc_acceptor other\<rparr>, other\<lparr>tc_acceptor := None\<rparr>)"

definition tcp_get_executor :: "'s tcp_channel \<Rightarrow> unit result" where
  "tcp_get_executor ch = acceptor_executor ''tcp_channel'' (tc_acceptor ch)"

definition tcp_bind :: "bind_report \<Rightarrow> 's tcp_channel \<Rightarrow> unit result \<times> 's tcp_channel" where
  "tcp_bind rep ch = (let (r, acc) = bind_acceptor rep (tc_acceptor ch) in (r, ch\<lparr>tc_acceptor := acc\<rparr>))"

definition tcp_close :: "'s tcp_channel \<Rightarrow> unit result \<times> 's tcp_channel" where
  "tcp_close ch = (let (r, acc) = close_acceptor (tc_acceptor ch) in (r, ch\<lparr>tc_acceptor := acc\<rparr>))"

definition tcp_endpoint :: "'s tcp_channel \<Rightarrow> endpoint result" where
  "tcp_endpoint ch = acceptor_endpoint (tc_acceptor ch)"

definition tcp_set_pre_handshake_filter :: "'s conn_filter option \<Rightarrow> 's tcp_channel \<Rightarrow> 's tcp_channel" where
  "tcp_set_pre_handshake_filter f ch = ch\<lparr>tc_filter := f\<rparr>"

definition tcp_channel_accept_raw ::
    "error_code option \<Rightarrow> endpoint option \<Rightarrow> 's tcp_channel \<Rightarrow> 's \<Rightarrow> (unit result \<times> 's) option" where
  "tcp_channel_accept_raw ec peer ch s =
     map_option (\<lambda>acc. tcp_accept_raw acc (tc_filter ch) peer s) (accept_report (tc_acceptor ch) ec)"

definition tcp_accept ::
    "('st, 'wc, 'rc, 'v, 'app) session_env \<Rightarrow> (nat \<Rightarrow> 'rc) \<Rightarrow> session_limits \<Rightarrow> error_code option \<Rightarrow> endpoint option \<Rightarrow>
     'st \<Rightarrow> 's tcp_channel \<Rightarrow> 's \<Rightarrow> (('st, 'wc, 'rc, 'app) session result \<times> 's) option" where
  "tcp_accept E heap lims ec peer sock ch s =
     map_option (\<lambda>(r, s'). (case r of Inl e \<Rightarrow> Inl e | Inr _ \<Rightarrow> tcp_handshake E heap lims peer sock, s'))
       (tcp_channel_accept_raw ec peer ch s)"

text \<open>
  \<open>connect(address)\<close>: resolve and connect to the first endpoint; the resolver gives at least one
  or throws. \<open>connect_ec\<close> is the outcome of the TCP connect to an endpoint.
\<close>

definition tcp_connect_address ::
    "('st, 'wc, 'rc, 'v, 'app) session_env \<Rightarrow> (nat \<Rightarrow> 'rc) \<Rightarrow> (string \<Rightarrow> string \<Rightarrow> endpoint list result) \<Rightarrow>
     (endpoint \<Rightarrow> error_code option) \<Rightarrow> (endpoint \<Rightarrow> 'st) \<Rightarrow> string \<Rightarrow> ('st, 'wc, 'rc, 'app) session option result" where
  "tcp_connect_address E heap resolve connect_ec sock address =
     (let (host, port) = parse_address address in
      case resolve host port of
        Inl e \<Rightarrow> Inl e
      | Inr eps \<Rightarrow> tcp_connect E heap (connect_ec (hd eps)) (sock (hd eps)))"

section \<open>\<open>ssl_channel\<close>\<close>

record ('ctx, 's) ssl_channel =
  sc_ssl_ctx :: 'ctx
  sc_handshake_timeout :: int
  sc_acceptor :: "acceptor option"
  sc_filter :: "'s conn_filter option"

definition kDefaultHandshakeTimeout :: int where
  "kDefaultHandshakeTimeout = 3000"

definition make_ssl_channel :: "'ctx \<Rightarrow> int \<Rightarrow> ('ctx, 's) ssl_channel" where
  "make_ssl_channel ctx timeout =
     \<lparr>sc_ssl_ctx = ctx, sc_handshake_timeout = timeout, sc_acceptor = None, sc_filter = None\<rparr>"

text \<open>
  The defaulted move constructor moves every member; of the source, only the acceptor pointer has a
  specified value afterwards.
\<close>

definition move_ssl_channel ::
    "'ctx \<Rightarrow> 's conn_filter option \<Rightarrow> ('ctx, 's) ssl_channel \<Rightarrow> ('ctx, 's) ssl_channel \<times> ('ctx, 's) ssl_channel" where
  "move_ssl_channel left_ctx left_filter other =
     (other, other\<lparr>sc_ssl_ctx := left_ctx, sc_acceptor := None, sc_filter := left_filter\<rparr>)"

definition ssl_get_executor :: "('ctx, 's) ssl_channel \<Rightarrow> unit result" where
  "ssl_get_executor ch = acceptor_executor ''ssl_channel'' (sc_acceptor ch)"

definition ssl_bind :: "bind_report \<Rightarrow> ('ctx, 's) ssl_channel \<Rightarrow> unit result \<times> ('ctx, 's) ssl_channel" where
  "ssl_bind rep ch = (let (r, acc) = bind_acceptor rep (sc_acceptor ch) in (r, ch\<lparr>sc_acceptor := acc\<rparr>))"

definition ssl_close :: "('ctx, 's) ssl_channel \<Rightarrow> unit result \<times> ('ctx, 's) ssl_channel" where
  "ssl_close ch = (let (r, acc) = close_acceptor (sc_acceptor ch) in (r, ch\<lparr>sc_acceptor := acc\<rparr>))"

definition ssl_endpoint :: "('ctx, 's) ssl_channel \<Rightarrow> endpoint result" where
  "ssl_endpoint ch = acceptor_endpoint (sc_acceptor ch)"

definition ssl_set_pre_handshake_filter :: "'s conn_filter option \<Rightarrow> ('ctx, 's) ssl_channel \<Rightarrow> ('ctx, 's) ssl_channel" where
  "ssl_set_pre_handshake_filter f ch = ch\<lparr>sc_filter := f\<rparr>"

definition ssl_channel_accept_raw ::
    "error_code option \<Rightarrow> endpoint option \<Rightarrow> ('ctx, 's) ssl_channel \<Rightarrow> 's \<Rightarrow> (unit result \<times> 's) option" where
  "ssl_channel_accept_raw ec peer ch s =
     map_option (\<lambda>acc. ssl_accept_raw acc (sc_filter ch) peer s) (accept_report (sc_acceptor ch) ec)"

text \<open>
  \<open>detail::peer_fingerprint\<close>: \<open>peer\<close> is what \<open>SSL_get_peer_certificate\<close> returned, \<open>digest\<close> the SHA-256
  of a certificate.
\<close>

definition ssl_peer_fingerprint :: "('cert \<Rightarrow> u8 list option) \<Rightarrow> 'cert option \<Rightarrow> string" where
  "ssl_peer_fingerprint digest peer = (case peer of None \<Rightarrow> [] | Some cert \<Rightarrow> fingerprint_sha256 (digest cert))"

definition ssl_accept ::
    "('st, 'wc, 'rc, 'v, 'app) session_env \<Rightarrow> (nat \<Rightarrow> 'rc) \<Rightarrow> session_limits \<Rightarrow> error_code option \<Rightarrow> endpoint option \<Rightarrow>
     'st \<Rightarrow> handshake_race \<Rightarrow> ('cert \<Rightarrow> u8 list option) \<Rightarrow> 'cert option \<Rightarrow> ('ctx, 's) ssl_channel \<Rightarrow> 's \<Rightarrow>
     (('st, 'wc, 'rc, 'app) session result \<times> 's) option" where
  "ssl_accept E heap lims ec peer sock race digest cert ch s =
     map_option (\<lambda>(r, s'). (case r of Inl e \<Rightarrow> Inl e
         | Inr _ \<Rightarrow> ssl_handshake E heap lims peer sock race (ssl_peer_fingerprint digest cert), s'))
       (ssl_channel_accept_raw ec peer ch s)"

definition ssl_connect_address ::
    "('st, 'wc, 'rc, 'v, 'app) session_env \<Rightarrow> (nat \<Rightarrow> 'rc) \<Rightarrow> (string \<Rightarrow> string \<Rightarrow> endpoint list result) \<Rightarrow>
     (endpoint \<Rightarrow> error_code option) \<Rightarrow> (endpoint \<Rightarrow> 'st) \<Rightarrow> (endpoint \<Rightarrow> handshake_race) \<Rightarrow> string \<Rightarrow>
     ('st, 'wc, 'rc, 'app) session option result" where
  "ssl_connect_address E heap resolve connect_ec sock race address =
     (let (host, port) = ssl_parse_address address in
      case resolve host port of
        Inl e \<Rightarrow> Inl e
      | Inr eps \<Rightarrow> ssl_connect E heap (connect_ec (hd eps)) (sock (hd eps)) (race (hd eps)))"

section \<open>What the server relies on\<close>

locale channel_object =
  fixes bind :: "bind_report \<Rightarrow> 'ch \<Rightarrow> unit result \<times> 'ch" and close_ch :: "'ch \<Rightarrow> unit result \<times> 'ch"
    and executor :: "'ch \<Rightarrow> unit result" and endpoint_of :: "'ch \<Rightarrow> endpoint result"
    and set_filter :: "'s conn_filter option \<Rightarrow> 'ch \<Rightarrow> 'ch"
    and accept :: "error_code option \<Rightarrow> endpoint option \<Rightarrow> 'ch \<Rightarrow> 's \<Rightarrow> (unit result \<times> 's) option"
    and acceptor_of :: "'ch \<Rightarrow> acceptor option" and filter_of :: "'ch \<Rightarrow> 's conn_filter option"
    and raw :: "error_code option \<Rightarrow> 's conn_filter option \<Rightarrow> endpoint option \<Rightarrow> 's \<Rightarrow> unit result \<times> 's"
  assumes raw_ok: "raw_acceptor raw"
    and bind_acc: "acceptor_of (snd (bind rep ch)) = snd (bind_acceptor rep (acceptor_of ch))"
    and bind_res: "fst (bind rep ch) = fst (bind_acceptor rep (acceptor_of ch))"
    and bind_filter: "filter_of (snd (bind rep ch)) = filter_of ch"
    and close_acc: "acceptor_of (snd (close_ch ch)) = snd (close_acceptor (acceptor_of ch))"
    and close_res: "fst (close_ch ch) = fst (close_acceptor (acceptor_of ch))"
    and close_filter: "filter_of (snd (close_ch ch)) = filter_of ch"
    and set_acc: "acceptor_of (set_filter f ch) = acceptor_of ch" and set_get: "filter_of (set_filter f ch) = f"
    and endpoint_acc: "endpoint_of ch = acceptor_endpoint (acceptor_of ch)"
    and executor_acc: "acceptor_of ch \<noteq> None \<Longrightarrow> executor ch = Inr ()"
    and accept_acc: "accept ec peer ch s = map_option (\<lambda>acc. raw acc (filter_of ch) peer s) (accept_report (acceptor_of ch) ec)"
begin

text \<open>A successful bind leaves an open acceptor at the endpoint it reports.\<close>

lemma bound_acceptor:
  assumes "bind rep ch = (Inr (), ch')"
  shows "\<exists>ep. bound rep = Inl ep \<and> acceptor_of ch' = Some \<lparr>local_ep = ep, acc_open = True\<rparr>"
  using assms bind_acc [of rep ch] bind_res [of rep ch]
  by (auto simp: bind_acceptor_def Let_def split: sum.splits option.splits)

lemma bound_ready:
  assumes "bind rep ch = (Inr (), ch')"
  shows "executor ch' = Inr ()" and "\<exists>ep. bound rep = Inl ep \<and> endpoint_of ch' = Inr ep"
proof -
  obtain ep where "bound rep = Inl ep" and acc: "acceptor_of ch' = Some \<lparr>local_ep = ep, acc_open = True\<rparr>"
    using bound_acceptor [OF assms] by blast
  moreover have "endpoint_of ch' = Inr ep"
    unfolding endpoint_acc acc by (simp add: acceptor_endpoint_def)
  ultimately show "executor ch' = Inr ()" and "\<exists>ep. bound rep = Inl ep \<and> endpoint_of ch' = Inr ep"
    by (simp_all add: executor_acc)
qed

text \<open>Once bound and given a filter, every accepted known peer went through that filter.\<close>

lemma bound_accepts:
  assumes "bind rep ch = (Inr (), ch')"
  shows "accept ec peer (set_filter f ch') s = Some (raw ec f peer s)"
proof -
  obtain ep where "acceptor_of ch' = Some \<lparr>local_ep = ep, acc_open = True\<rparr>"
    using bound_acceptor [OF assms] by blast
  then show ?thesis
    by (simp add: accept_acc set_acc set_get accept_report_def)
qed

lemma closed_refuses:
  assumes "bind rep ch = (Inr (), ch')"
  shows "accept ec peer (snd (close_ch (set_filter f ch'))) s = Some (Inl (system_error bad_descriptor []), s)"
    and "fst (close_ch (set_filter f ch')) = Inr ()"
    and "fst (close_ch (snd (close_ch (set_filter f ch')))) = Inl (system_error bad_descriptor [])"
proof -
  obtain ep where "acceptor_of ch' = Some \<lparr>local_ep = ep, acc_open = True\<rparr>"
    using bound_acceptor [OF assms] by blast
  then show "accept ec peer (snd (close_ch (set_filter f ch'))) s = Some (Inl (system_error bad_descriptor []), s)"
    and "fst (close_ch (set_filter f ch')) = Inr ()"
    and "fst (close_ch (snd (close_ch (set_filter f ch')))) = Inl (system_error bad_descriptor [])"
    by (simp_all add: accept_acc close_acc close_res set_acc accept_report_def close_acceptor_def
        raw_acceptor.accept_failed [OF raw_ok])
qed

end

interpretation tcp_ch: channel_object tcp_bind tcp_close tcp_get_executor tcp_endpoint tcp_set_pre_handshake_filter
  tcp_channel_accept_raw tc_acceptor tc_filter tcp_accept_raw
  by unfold_locales
     (auto simp: tcp_acc.raw_acceptor_axioms tcp_bind_def tcp_close_def tcp_get_executor_def tcp_endpoint_def
       tcp_set_pre_handshake_filter_def tcp_channel_accept_raw_def acceptor_executor_def Let_def split_beta
       intro: tcp_acc.raw_acceptor_axioms split: option.splits)

interpretation ssl_ch: channel_object ssl_bind ssl_close ssl_get_executor ssl_endpoint ssl_set_pre_handshake_filter
  ssl_channel_accept_raw sc_acceptor sc_filter ssl_accept_raw
  by unfold_locales
     (auto simp: ssl_bind_def ssl_close_def ssl_get_executor_def ssl_endpoint_def
       ssl_set_pre_handshake_filter_def ssl_channel_accept_raw_def acceptor_executor_def Let_def split_beta split: option.splits)

end
