(* ===== verification/Server_Lifecycle.thy ===== *)
theory Server_Lifecycle
  imports Server Channel_State
begin

text \<open>
  The server together with its channel object: \<open>start\<close>, the accept loop over the channel, the setters
  and the move constructor of \<open>server.hpp\<close>, and how \<open>stop\<close> relates to the accept loop. The filter the
  server installs reads its clock and its own state, so a channel that carries it works on pairs of
  a clock reading and a server.
\<close>

section \<open>Starting\<close>

definition stored_filter :: "(int \<times> ('st, 'wc, 'rc, 'v, 'app) server) conn_filter" where
  "stored_filter ep ns =
     (let (now, s) = ns; (verdict, s') = pre_handshake_filter now ep s in (verdict, (now, s')))"

text \<open>\<open>start\<close> up to the accept loop it spawns, over the operations of the channel's class.\<close>

definition server_start ::
    "(bind_report \<Rightarrow> 'ch \<Rightarrow> unit result \<times> 'ch) \<Rightarrow> ('ch \<Rightarrow> unit result) \<Rightarrow>
     ((int \<times> ('st, 'wc, 'rc, 'v, 'app) server) conn_filter option \<Rightarrow> 'ch \<Rightarrow> 'ch) \<Rightarrow> bind_report \<Rightarrow> 'ch \<Rightarrow>
     ('st, 'wc, 'rc, 'v, 'app) server \<Rightarrow> unit result \<times> 'ch \<times> ('st, 'wc, 'rc, 'v, 'app) server" where
  "server_start bind get_executor set_filter rep ch s =
     (case bind rep ch of
        (Inl e, ch1) \<Rightarrow> (Inl e, ch1, s)
      | (Inr _, ch1) \<Rightarrow>
          (case (if sessions_strand s then Inr () else get_executor ch1) of
             Inl e \<Rightarrow> (Inl e, ch1, s)
           | Inr _ \<Rightarrow> (Inr (), set_filter (Some stored_filter) ch1, start_server s)))"

definition start_tcp ::
    "bind_report \<Rightarrow> (int \<times> ('st, 'wc, 'rc, 'v, 'app) server) tcp_channel \<Rightarrow> ('st, 'wc, 'rc, 'v, 'app) server \<Rightarrow>
     unit result \<times> (int \<times> ('st, 'wc, 'rc, 'v, 'app) server) tcp_channel \<times> ('st, 'wc, 'rc, 'v, 'app) server" where
  "start_tcp = server_start tcp_bind tcp_get_executor tcp_set_pre_handshake_filter"

definition start_ssl ::
    "bind_report \<Rightarrow> ('ctx, int \<times> ('st, 'wc, 'rc, 'v, 'app) server) ssl_channel \<Rightarrow> ('st, 'wc, 'rc, 'v, 'app) server \<Rightarrow>
     unit result \<times> ('ctx, int \<times> ('st, 'wc, 'rc, 'v, 'app) server) ssl_channel \<times> ('st, 'wc, 'rc, 'v, 'app) server" where
  "start_ssl = server_start ssl_bind ssl_get_executor ssl_set_pre_handshake_filter"

text \<open>One iteration of the accept loop on the channel object; \<open>None\<close> is a null acceptor.\<close>

definition channel_accept_step ::
    "(error_code option \<Rightarrow> endpoint option \<Rightarrow> 'ch \<Rightarrow> int \<times> ('st, 'wc, 'rc, 'v, 'app) server \<Rightarrow>
        (unit result \<times> int \<times> ('st, 'wc, 'rc, 'v, 'app) server) option) \<Rightarrow>
     int \<Rightarrow> error_code option \<Rightarrow> endpoint option \<Rightarrow> 'ch \<Rightarrow> ('st, 'wc, 'rc, 'v, 'app) server \<Rightarrow>
     ('st, 'wc, 'rc, 'v, 'app) server option" where
  "channel_accept_step accept now ec peer ch s =
     map_option (\<lambda>(r, t, s'). case r of Inl e \<Rightarrow> s' | Inr _ \<Rightarrow> spawn_handshake peer s') (accept ec peer ch (now, s))"

section \<open>Setters, getters and the move constructor\<close>

definition set_on_session_open ::
    "'app session_hook option \<Rightarrow> ('st, 'wc, 'rc, 'v, 'app) server \<Rightarrow> ('st, 'wc, 'rc, 'v, 'app) server" where
  "set_on_session_open cb s = s\<lparr>on_session_open := cb\<rparr>"

definition set_on_session_close ::
    "'app session_hook option \<Rightarrow> ('st, 'wc, 'rc, 'v, 'app) server \<Rightarrow> ('st, 'wc, 'rc, 'v, 'app) server" where
  "set_on_session_close cb s = s\<lparr>on_session_close := cb\<rparr>"

definition get_server_limits :: "('st, 'wc, 'rc, 'v, 'app) server \<Rightarrow> server_limits" where
  "get_server_limits s = conn_limits s"

definition get_session_limits :: "('st, 'wc, 'rc, 'v, 'app) server \<Rightarrow> session_limits" where
  "get_session_limits s = server_session_limits s"

text \<open>
  The move constructor: the new server, the moved-from one, and whether a task that moves the session
  set was posted to the strand; \<open>take_sessions\<close> is that task. What is left of the moved dispatcher
  (\<open>left\<close>) and of the moved session set (\<open>rest\<close>) the standard does not specify.
\<close>

definition take_sessions ::
    "nat list \<Rightarrow> ('st, 'wc, 'rc, 'v, 'app) server \<Rightarrow> ('st, 'wc, 'rc, 'v, 'app) server \<Rightarrow>
     ('st, 'wc, 'rc, 'v, 'app) server \<times> ('st, 'wc, 'rc, 'v, 'app) server" where
  "take_sessions rest s other = (s\<lparr>active_sessions := active_sessions other\<rparr>, other\<lparr>active_sessions := rest\<rparr>)"

definition move_server ::
    "('v, 'app) dispatcher \<Rightarrow> nat list \<Rightarrow> ('st, 'wc, 'rc, 'v, 'app) server \<Rightarrow>
     ('st, 'wc, 'rc, 'v, 'app) server \<times> ('st, 'wc, 'rc, 'v, 'app) server \<times> bool" where
  "move_server left rest other =
     (let (d, d') = move_dispatcher left (server_dispatcher other);
          s = (make_server (session_objects other))\<lparr>server_dispatcher := d, sessions_strand := sessions_strand other\<rparr>;
          other1 = other\<lparr>server_dispatcher := d', sessions_strand := False\<rparr>
      in if sessions_strand s then (s, other1, True)
         else let (s', other') = take_sessions rest s other1 in (s', other', False))"

section \<open>The accept loop on the channel object\<close>

lemma stored_filter_runs:
  "stored_filter ep (now, s) = (fst (pre_handshake_filter now ep s), (now, snd (pre_handshake_filter now ep s)))"
  by (simp add: stored_filter_def split_beta)

lemma tcp_accept_stored:
  "tcp_accept_raw acc (Some stored_filter) peer (now, s) =
     (fst (tcp_accept_raw acc (Some (pre_handshake_filter now)) peer s),
      now, snd (tcp_accept_raw acc (Some (pre_handshake_filter now)) peer s))"
  by (simp add: tcp_acc.accept_raw_cases stored_filter_runs split_beta split: option.split)

lemma ssl_accept_stored:
  "ssl_accept_raw acc (Some stored_filter) peer (now, s) =
     (fst (ssl_accept_raw acc (Some (pre_handshake_filter now)) peer s),
      now, snd (ssl_accept_raw acc (Some (pre_handshake_filter now)) peer s))"
  by (simp add: ssl_acc.accept_raw_cases stored_filter_runs split_beta split: option.split)

lemma start_succeeds:
  assumes "server_start bind get_executor set_filter rep ch s = (Inr (), ch', s')"
  obtains ch1 where "bind rep ch = (Inr (), ch1)" and "ch' = set_filter (Some stored_filter) ch1" and "s' = start_server s"
  using assms by (auto simp: server_start_def split: prod.splits sum.splits if_splits)

lemma tcp_started_accepts:
  assumes "start_tcp rep ch s = (Inr (), ch', s')"
  shows "channel_accept_step tcp_channel_accept_raw now ec peer ch' t = Some (accept_step tcp_accept_raw now ec peer t)"
  using assms unfolding start_tcp_def
  by (rule start_succeeds)
     (simp add: channel_accept_step_def tcp_ch.bound_accepts tcp_accept_stored accept_step_def split_beta split: sum.split)

lemma ssl_started_accepts:
  assumes "start_ssl rep ch s = (Inr (), ch', s')"
  shows "channel_accept_step ssl_channel_accept_raw now ec peer ch' t = Some (accept_step ssl_accept_raw now ec peer t)"
  using assms unfolding start_ssl_def
  by (rule start_succeeds)
     (simp add: channel_accept_step_def ssl_ch.bound_accepts ssl_accept_stored accept_step_def split_beta split: sum.split)

lemma stop_fields:
  "conn_limits (stop_server E s) = conn_limits s" "global_session_count (stop_server E s) = global_session_count s"
  "handshakes_in_flight (stop_server E s) = handshakes_in_flight s" "per_ip_count (stop_server E s) = per_ip_count s"
  "per_ip_accept_bucket (stop_server E s) = per_ip_accept_bucket s" "handshaking (stop_server E s) = handshaking s"
  "sessions_strand (stop_server E s) = sessions_strand s"
  by (simp_all add: stop_server_def close_all_sessions_def)

lemma stop_buckets: "stop_server E (s\<lparr>per_ip_accept_bucket := b\<rparr>) = (stop_server E s)\<lparr>per_ip_accept_bucket := b\<rparr>"
  by (simp add: stop_server_def close_all_sessions_def)

lemma filter_after_stop:
  "pre_handshake_filter now ep (stop_server E s) =
     (fst (pre_handshake_filter now ep s), stop_server E (snd (pre_handshake_filter now ep s)))"
  unfolding pre_handshake_filter_def stop_fields by (simp add: stop_buckets Let_def split_beta)

lemma spawn_after_stop: "spawn_handshake peer (stop_server E s) = stop_server E (spawn_handshake peer s)"
  by (simp add: spawn_handshake_def stop_server_def close_all_sessions_def)

lemma accept_after_stop:
  assumes "raw_acceptor A"
  shows "accept_step A now ec peer (stop_server E s) = stop_server E (accept_step A now ec peer s)"
  by (simp add: accept_step_def raw_acceptor.accept_raw_cases [OF assms] filter_after_stop spawn_after_stop split_beta
      split: option.split)

section \<open>Properties\<close>


text \<open>
  \<open>stop\<close> does not stop accepting. It closes the active sessions and nothing else: an accept after a
  stop does exactly what it would have done before, so new connections are admitted and handed to
  their handshakes as if the server had not been stopped.
\<close>

theorem stop_keeps_accepting:
  "accept_step tcp_accept_raw now ec peer (stop_server E s) = stop_server E (accept_step tcp_accept_raw now ec peer s)
   \<and> accept_step ssl_accept_raw now ec peer (stop_server E s) = stop_server E (accept_step ssl_accept_raw now ec peer s)"
  by (intro conjI accept_after_stop tcp_acc.raw_acceptor_axioms ssl_acc.raw_acceptor_axioms)

text \<open>
  C26: the open hook learns who connected. When a TLS handshake completes in time, the session it
  makes is admitted, the hook runs once with the lowercase hexadecimal SHA-256 of the certificate the
  peer presented, its address and the session's token, and the seat is charged to the peer's address;
  a handshake that fails or times out runs no hook, charges nothing and gives its slot back.
\<close>

theorem open_hook_sees_peer:
  assumes "on_session_open s = Some hook" and "digest cert = Some d" and "ip_count s (ep_address ep) + 1 < 2 ^ 64"
    and "ssl_handshake E heap lims (Some ep) sock race (ssl_peer_fingerprint digest (Some cert)) = out"
  shows "(race = HandshakeFinished None \<longrightarrow>
       (\<exists>sess. out = Inr sess \<and> handshake_step i addr (map_sum id Some out) s app =
           (fst (handshake_step i addr (Inr (Some sess)) s app),
            snd (hook \<lparr>info_peer_fingerprint = hex_encode d, info_peer_address = endpoint_string ep, session_token = addr\<rparr> app))
         \<and> ip_count (fst (handshake_step i addr (Inr (Some sess)) s app)) (ep_address ep) = ip_count s (ep_address ep) + 1))
    \<and> (race \<noteq> HandshakeFinished None \<longrightarrow>
       handshake_step i addr (map_sum id Some out) s app =
         (s\<lparr>handshaking := remove_nth i (handshaking s), handshakes_in_flight := handshakes_in_flight s - 1\<rparr>, app))"
proof (intro conjI impI)
  assume ok: "race = HandshakeFinished None"
  let ?sess = "set_peer (Some ep) (set_peer_fingerprint (hex_encode d) (make_session E sock heap lims))"
  have out: "out = Inr ?sess"
    using assms(2,4) ok by (auto simp: ssl_handshake_def race_handshake_def ssl_peer_fingerprint_def fingerprint_sha256_def)
  have peer: "peer_fingerprint ?sess = hex_encode d" "peer_address ?sess = endpoint_string ep" "peer_ip ?sess = ep_address ep"
    by (simp_all add: set_peer_def set_peer_fingerprint_def set_peer_address_def set_peer_ip_def)
  have "ip_count (fst (handshake_step i addr (Inr (Some ?sess)) s app)) (ep_address ep) = ip_count s (ep_address ep) + 1"
    using ip_count_incr [OF assms(3), of "fst (handshake_step i addr (Inr (Some ?sess)) s app)" "ep_address ep"] peer(3)
    by (simp add: handshake_step_def Let_def)
  with out peer assms(1) show "\<exists>sess. out = Inr sess \<and> handshake_step i addr (map_sum id Some out) s app =
           (fst (handshake_step i addr (Inr (Some sess)) s app),
            snd (hook \<lparr>info_peer_fingerprint = hex_encode d, info_peer_address = endpoint_string ep, session_token = addr\<rparr> app))
         \<and> ip_count (fst (handshake_step i addr (Inr (Some sess)) s app)) (ep_address ep) = ip_count s (ep_address ep) + 1"
    by (intro exI [of _ ?sess]) (simp add: handshake_step_def session_info_of_def run_hook_def Let_def)
next
  assume bad: "race \<noteq> HandshakeFinished None"
  then obtain e where "out = Inl e"
    using assms(4) by (auto simp: ssl_handshake_def race_handshake_def split: handshake_race.splits option.splits)
  then show "handshake_step i addr (map_sum id Some out) s app =
         (s\<lparr>handshaking := remove_nth i (handshaking s), handshakes_in_flight := handshakes_in_flight s - 1\<rparr>, app)"
    by (simp add: handshake_step_def Let_def)
qed

text \<open>
  A closed channel fails every accept at once: the loop goes round without ever waiting. Closing the
  channel a second time throws.
\<close>

lemma closed_channel_spins:
  assumes "start_tcp rep ch s = (Inr (), ch', s')"
  shows "channel_accept_step tcp_channel_accept_raw now ec peer (snd (tcp_close ch')) t = Some t
    \<and> fst (tcp_close (snd (tcp_close ch'))) = Inl (system_error bad_descriptor [])"
  using assms unfolding start_tcp_def
  by (rule start_succeeds) (simp add: channel_accept_step_def tcp_ch.closed_refuses)

text \<open>
  A moved server keeps its methods and loses its limits, hooks and counters; a moved \<open>tcp_channel\<close>
  loses its filter, so that no limit is left on its connections.
\<close>

lemma moved_server_defaults:
  "server_dispatcher (fst (move_server left rest s)) = server_dispatcher s
   \<and> conn_limits (fst (move_server left rest s)) = default_server_limits
   \<and> on_session_open (fst (move_server left rest s)) = None \<and> global_session_count (fst (move_server left rest s)) = 0"
  by (simp add: move_server_def move_dispatcher_def take_sessions_def make_server_def Let_def)

lemma moved_tcp_channel_unfiltered:
  assumes "start_tcp rep ch s = (Inr (), ch', s')"
  shows "channel_accept_step tcp_channel_accept_raw now None peer (fst (move_tcp_channel ch')) t = Some (spawn_handshake peer t)"
proof -
  obtain ch1 where ch1: "tcp_bind rep ch = (Inr (), ch1)" "ch' = tcp_set_pre_handshake_filter (Some stored_filter) ch1"
    using assms unfolding start_tcp_def by (rule start_succeeds)
  obtain ep where "tc_acceptor ch1 = Some \<lparr>local_ep = ep, acc_open = True\<rparr>"
    using tcp_ch.bound_acceptor [OF ch1(1)] by blast
  then show ?thesis
    by (simp add: channel_accept_step_def move_tcp_channel_def make_tcp_channel_def tcp_channel_accept_raw_def ch1(2)
        tcp_set_pre_handshake_filter_def accept_report_def tcp_acc.accept_unfiltered)
qed

section \<open>Concrete runs\<close>

definition local_report :: bind_report where
  "local_report = \<lparr>bound = Inl \<lparr>ep_address = ''127.0.0.1'', ep_port = 9000\<rparr>, option_ec = None, listen_ec = None\<rparr>"

definition idle_server :: sample_server where
  "idle_server = make_server (\<lambda>_. sample_session empty_dispatcher [])"

definition listening :: "(int \<times> sample_server) tcp_channel" where
  "listening = \<lparr>tc_acceptor = Some \<lparr>local_ep = \<lparr>ep_address = ''127.0.0.1'', ep_port = 9000\<rparr>, acc_open = True\<rparr>,
     tc_filter = Some stored_filter\<rparr>"

definition ssl_listening :: "(unit, int \<times> sample_server) ssl_channel" where
  "ssl_listening = (make_ssl_channel () 3000)\<lparr>
     sc_acceptor := Some \<lparr>local_ep = \<lparr>ep_address = ''127.0.0.1'', ep_port = 9000\<rparr>, acc_open = True\<rparr>,
     sc_filter := Some stored_filter\<rparr>"

definition abcd_digest :: "unit \<Rightarrow> u8 list option" where
  "abcd_digest cert = Some [0xAB, 0xCD]"

lemma sample_starts:
  "start_tcp local_report make_tcp_channel idle_server = (Inr (), listening, start_server idle_server)"
  "start_ssl local_report (make_ssl_channel () 3000) idle_server = (Inr (), ssl_listening, start_server idle_server)"
  by (simp_all add: start_tcp_def start_ssl_def server_start_def tcp_bind_def ssl_bind_def bind_acceptor_def local_report_def
      make_tcp_channel_def make_ssl_channel_def tcp_get_executor_def ssl_get_executor_def acceptor_executor_def
      tcp_set_pre_handshake_filter_def ssl_set_pre_handshake_filter_def idle_server_def make_server_def Let_def listening_def ssl_listening_def)


theorem open_hook_sees_peer_witness:
  "\<exists>out. ssl_handshake (sample_env empty_dispatcher) (\<lambda>_. ([], 0, False)) default_session_limits (Some sample_peer)
       ([], [], True) (HandshakeFinished None) (ssl_peer_fingerprint abcd_digest (Some ())) = out
     \<and> snd (handshake_step 0 5 (map_sum id Some out)
           (set_on_session_open (Some (\<lambda>info n. (Inr (), n + length (info_peer_fingerprint info)))) idle_server) 0) = 4"
proof -
  let ?h = "\<lambda>info n. (Inr () :: unit result, n + length (info_peer_fingerprint info))"
  let ?s = "set_on_session_open (Some ?h) idle_server"
  have hook: "on_session_open ?s = Some ?h" and room: "ip_count ?s (ep_address sample_peer) + 1 < 2 ^ 64"
    by (simp_all add: set_on_session_open_def idle_server_def make_server_def ip_count_def)
  have len: "length (hex_encode [0xAB, 0xCD]) = 4"
    by simp
  have cert: "abcd_digest () = Some [0xAB, 0xCD]"
    by (simp add: abcd_digest_def)
  from open_hook_sees_peer [where digest = abcd_digest and cert = "()" and E = "sample_env empty_dispatcher"
      and heap = "\<lambda>_. ([], 0, False)" and lims = default_session_limits and sock = "([], [], True)"
      and race = "HandshakeFinished None" and i = 0 and addr = 5 and app = 0, OF hook cert room refl]
  show ?thesis
    using len by (auto dest!: arg_cong [of _ _ snd])
qed

end
