(* ===== verification/Session_Liveness.thy ===== *)
theory Session_Liveness
  imports Session_Requests
begin

text \<open>
  What a session is bound to do: the writer sends every queued frame, both coroutines leave their
  loops once the session is closed, and a call ends by its timer or by the teardown at the latest.
\<close>

section \<open>The writer makes progress\<close>

text \<open>Iterations of \<open>msg_writer\<close>, up to the one that waits or leaves the loop.\<close>

fun writer_run ::
    "('st, 'wc, 'rc, 'v, 'app) session_env \<Rightarrow> nat \<Rightarrow> ('st, 'wc, 'rc, 'app) session \<Rightarrow>
     loop_status \<times> ('st, 'wc, 'rc, 'app) session" where
  "writer_run E 0 s = (Continue, s)"
| "writer_run E (Suc n) s =
     (let (st, s') = msg_writer_step E s in if st = Continue then writer_run E n s' else (st, s'))"

lemma writer_sends_next:
  assumes lib: "library_ok E buffered opened incoming outgoing" and "draining_stream (st_ops E)"
    and "st_is_open (st_ops E) (stream s)" and "opened (write_channel s)" and "buffered (write_channel s) = item # items"
  obtains c str where "msg_writer_step E s = (Continue, s\<lparr>write_channel := c, stream := str\<rparr>)"
    and "buffered c = items" and "opened c" and "st_is_open (st_ops E) str"
    and "outgoing str = outgoing (stream s) @ frame_bytes (env_plat E) item"
proof -
  obtain c where c: "ch_async_receive (wc_ops E) (write_channel s) = Some (Inr item, c)"
    using library_okD(2) [OF lib] assms(4,5) unfolding prompt_channel_def by blast
  obtain str where str: "st_async_write (st_ops E) (frame_bytes (env_plat E) item) (stream s) = (None, str)"
    "st_is_open (st_ops E) str"
    using assms(2,3) unfolding draining_stream_def by blast
  have "msg_writer_step E s = (Continue, s\<lparr>write_channel := c, stream := str\<rparr>)"
    by (simp add: msg_writer_step_def c str)
  then show ?thesis
    using that fifo_receive [OF library_okD(1) [OF lib] c] byte_stream_write [OF library_okD(3) [OF lib] str(1)]
      str(2) assms(4,5) by simp
qed

lemma writer_run_sends:
  assumes lib: "library_ok E buffered opened incoming outgoing" and drain: "draining_stream (st_ops E)"
    and "st_is_open (st_ops E) (stream s)" and "opened (write_channel s)" and "buffered (write_channel s) = items"
  shows "\<exists>c str. writer_run E (length items) s = (Continue, s\<lparr>write_channel := c, stream := str\<rparr>) \<and> buffered c = []
    \<and> outgoing str = outgoing (stream s) @ concat (map (frame_bytes (env_plat E)) items)"
  using assms(3-5)
proof (induction items arbitrary: s)
  case Nil
  then show ?case
    by (intro exI [of _ "write_channel s"] exI [of _ "stream s"]) simp
next
  case (Cons item items)
  obtain c str where step: "msg_writer_step E s = (Continue, s\<lparr>write_channel := c, stream := str\<rparr>)"
    and "buffered c = items" "opened c" "st_is_open (st_ops E) str"
    and out: "outgoing str = outgoing (stream s) @ frame_bytes (env_plat E) item"
    using writer_sends_next [OF lib drain Cons.prems] by blast
  then obtain c' str' where "writer_run E (length items) (s\<lparr>write_channel := c, stream := str\<rparr>)
      = (Continue, s\<lparr>write_channel := c', stream := str'\<rparr>)" "buffered c' = []"
    "outgoing str' = outgoing str @ concat (map (frame_bytes (env_plat E)) items)"
    using Cons.IH [of "s\<lparr>write_channel := c, stream := str\<rparr>"] by auto
  with step out show ?case
    by (intro exI [of _ c'] exI [of _ str']) simp
qed

section \<open>Invariants of a session\<close>

text \<open>
  What a property of a session's stream, closed flag and table of pending calls has to satisfy to hold
  throughout a run. The library's reads and writes, \<open>close\<close> and the operations of the table are the
  only places where these change, so every step keeps such a property; the step that takes a call's
  result out of its channel is left to the property itself.
\<close>

locale session_invariant =
  fixes E :: "('st, 'wc, 'rc, 'v, 'app) session_env" and Q :: "('st, 'wc, 'rc, 'app) session \<Rightarrow> bool"
  assumes frame: "Q s \<Longrightarrow> is_closed s' = is_closed s \<Longrightarrow> stream s' = stream s \<Longrightarrow> async_mgr s' = async_mgr s \<Longrightarrow> Q s'"
    and read_in: "Q s \<Longrightarrow> st_async_read (st_ops E) n t (stream s) = (r, str) \<Longrightarrow> Q (s\<lparr>stream := str\<rparr>)"
    and written: "Q s \<Longrightarrow> st_async_write (st_ops E) bs (stream s) = (ec, str) \<Longrightarrow> Q (s\<lparr>stream := str\<rparr>)"
    and closing: "Q s \<Longrightarrow> Q (close E s)"
    and complete: "Q s \<Longrightarrow> Q (s\<lparr>async_mgr := snd (complete_operation (rc_ops E) tok ec body (async_mgr s))\<rparr>)"
    and create: "Q s \<Longrightarrow> token_room (async_mgr s) \<Longrightarrow>
      Q (s\<lparr>async_mgr := snd (create_operation (rc_ops E) (async_mgr s))\<rparr>)"
    and timer: "Q s \<Longrightarrow> Q (snd (call_timer_fired E ch fin s))"
begin

lemma keeps_frame [simp]:
  "Q (log_error_async m s) = Q s" "Q (s\<lparr>request_bucket := b\<rparr>) = Q s" "Q (s\<lparr>request_tasks := ts\<rparr>) = Q s"
  "Q (s\<lparr>notification_strand := ns\<rparr>) = Q s" "Q (s\<lparr>write_channel := c\<rparr>) = Q s"
  by (auto elim: frame simp: log_error_async_def)

lemma keeps_complete:
  assumes "Q s'" and "async_mgr s' = async_mgr s"
  shows "Q (s'\<lparr>async_mgr := snd (complete_operation (rc_ops E) tok ec body (async_mgr s))\<rparr>)"
  using complete [OF assms(1), of tok ec body] assms(2) by simp

lemma keeps_deadline_read: "Q s \<Longrightarrow> Q (snd (deadline_read E n t s))"
  using read_in [of s n t] by (auto simp: deadline_read_def split: prod.split option.split)

lemma keeps_writes: "Q s \<Longrightarrow> Q (snd (respond E mt h b s))" "Q s \<Longrightarrow> Q (snd (try_write E h b s))"
    "Q s \<Longrightarrow> Q (snd (queue_write E h b s))"
  by (erule frame; simp)+

lemma keeps_handlers:
  assumes "Q s"
  shows "Q (snd (dispatch_request E now h s))" and "Q (snd (handle_response E h s))"
    and "Q (snd (handle_notification E h s))" and "Q (snd (handle_error E h s))"
  using assms
  by (simp_all add: keeps_complete dispatch_request_def handle_response_def handle_notification_def handle_error_def
      complete_operation_ok_def complete_operation_with_error_def run_complete_def Let_def
      case_prod_beta closing keeps_deadline_read keeps_writes split: sum.split)

lemma keeps_reader:
  assumes "Q s"
  shows "Q (snd (msg_reader_step E now s))"
proof -
  have continue: "Q (snd rs) \<Longrightarrow> Q (snd (reader_continue E rs))" for rs
    by (simp add: reader_continue_def reader_catch_def case_prod_beta closing split: sum.split)
  have "Q s' \<Longrightarrow> Q (snd (msg_reader_frame E now h s'))" for s' h
    by (simp add: msg_reader_frame_def closing keeps_writes keeps_handlers continue split: option.split msg_type.split)
  then show ?thesis
    using keeps_deadline_read [OF assms]
    by (simp add: msg_reader_step_def reader_catch_def case_prod_beta closing split: sum.split)
qed

lemma keeps_writer:
  assumes "Q s"
  shows "Q (snd (msg_writer_step E s))"
proof -
  have "Q (s\<lparr>write_channel := c, stream := str\<rparr>)" if "st_async_write (st_ops E) bs (stream s) = (ec, str)" for c bs ec str
    using frame [OF written [OF assms that]] by simp
  then show ?thesis
    using assms by (auto simp: msg_writer_step_def intro: closing split: option.split sum.split prod.split)
qed

lemma keeps_task: "Q s \<Longrightarrow> Q (fst (request_task_step E i s a))"
  by (erule frame;
      simp add: request_task_step_def send_reply_def send_error_reply_def run_handler_def Let_def case_prod_beta
        split: request_task.split option.split sum.split)

lemma keeps_call_begin:
  assumes "Q s" and "token_room (async_mgr s)"
  shows "Q (snd (call_begin E name req s))"
proof -
  let ?s = "s\<lparr>async_mgr := snd (create_operation (rc_ops E) (async_mgr s))\<rparr>"
  have "is_closed (snd (call_begin E name req s)) = is_closed ?s \<and> stream (snd (call_begin E name req s)) = stream ?s
    \<and> async_mgr (snd (call_begin E name req s)) = async_mgr ?s"
    by (simp add: call_begin_def Let_def case_prod_beta split: sum.split)
  with frame [OF create [OF assms]] show ?thesis by blast
qed

lemma keeps_local:
  assumes "Q s"
  shows "Q (fst (notification_step E s a))" and "Q (snd (notify E name buf s))"
    and "Q (snd (try_notify E name buf s))" and "Q (snd (try_ping E s))"
  using assms keeps_writes
  by (auto simp: notification_step_def run_notification_def notify_def try_notify_def try_ping_def Let_def case_prod_beta
      split: list.split sum.split option.split)

lemma keeps_step:
  assumes "session_step E c c'" and "Q (ses c)"
    and "\<And>name b ch r. call_receive E name b ch (ses c) = Some (r, ses c') \<Longrightarrow> Q (ses c')"
  shows "Q (ses c')"
  using assms(1)
proof (cases rule: session_step.cases)
  case (Reader now st s')
  with keeps_reader [OF assms(2), of now] show ?thesis by simp
next
  case (Writer st s')
  with keeps_writer [OF assms(2)] show ?thesis by simp
next
  case (Task i s' a')
  with keeps_task [OF assms(2), of i "app_state c"] show ?thesis by simp
next
  case (Strand s' a')
  with keeps_local(1) [OF assms(2), of "app_state c"] show ?thesis by simp
next
  case (Call name req r s')
  with keeps_call_begin [OF assms(2), of name req] show ?thesis by simp
next
  case (Timer ch fin b s')
  with timer [OF assms(2), of ch fin] show ?thesis by simp
next
  case (Receive name b ch r s')
  with assms(3) [of name b ch r] show ?thesis by simp
next
  case (Notify name buf r s')
  with keeps_local(2) [OF assms(2), of name buf] show ?thesis by simp
next
  case (Try_notify name buf b s')
  with keeps_local(3) [OF assms(2), of name buf] show ?thesis by simp
next
  case (Try_ping b s')
  with keeps_local(4) [OF assms(2)] show ?thesis by simp
next
  case Close
  with closing [OF assms(2)] show ?thesis by simp
next
  case (Elsewhere a)
  with assms(2) show ?thesis by simp
qed

end

section \<open>A closed session stops\<close>

definition shut_ok :: "('st, 'wc, 'rc, 'v, 'app) session_env \<Rightarrow> ('st, 'wc, 'rc, 'app) session \<Rightarrow> bool" where
  "shut_ok E s \<longleftrightarrow> (closing_stream (st_ops E) \<and> is_closed s \<longrightarrow> \<not> st_is_open (st_ops E) (stream s))"

interpretation shut: session_invariant E "shut_ok E" for E :: "('st, 'wc, 'rc, 'v, 'app) session_env"
proof unfold_locales
  fix s :: "('st, 'wc, 'rc, 'app) session" and ch fin tok ec body
  assume "shut_ok E s"
  then show "shut_ok E (close E s)" and "shut_ok E (snd (call_timer_fired E ch fin s))"
    and "shut_ok E (s\<lparr>async_mgr := snd (complete_operation (rc_ops E) tok ec body (async_mgr s))\<rparr>)"
    and "shut_ok E (s\<lparr>async_mgr := snd (create_operation (rc_ops E) (async_mgr s))\<rparr>)"
    by (auto simp: shut_ok_def close_def call_timer_fired_def Let_def closing_stream_close)
next
  fix s s' :: "('st, 'wc, 'rc, 'app) session"
  assume "shut_ok E s" "is_closed s' = is_closed s" "stream s' = stream s"
  then show "shut_ok E s'"
    by (simp add: shut_ok_def)
next
  fix s :: "('st, 'wc, 'rc, 'app) session" and n t r str
  assume "shut_ok E s" and rd: "st_async_read (st_ops E) n t (stream s) = (r, str)"
  with closing_stream_read(1) [of "st_ops E" "stream s" n t r str] show "shut_ok E (s\<lparr>stream := str\<rparr>)"
    by (auto simp: shut_ok_def)
next
  fix s :: "('st, 'wc, 'rc, 'app) session" and bs ec str
  assume "shut_ok E s" and wr: "st_async_write (st_ops E) bs (stream s) = (ec, str)"
  with closing_stream_write(1) [of "st_ops E" "stream s" bs ec str] show "shut_ok E (s\<lparr>stream := str\<rparr>)"
    by (auto simp: shut_ok_def)
qed

lemma shut_receive:
  assumes "shut_ok E s" and "call_receive E name b ch s = Some (r, s')"
  shows "shut_ok E s'"
proof (rule shut.frame)
  show "shut_ok E (s\<lparr>async_mgr := async_mgr s'\<rparr>)"
    using assms(1) by (simp add: shut_ok_def)
qed (use assms(2) in \<open>auto simp: call_receive_def Let_def split: option.splits if_splits\<close>)

lemma shut_run: "(session_step E)\<^sup>*\<^sup>* c c' \<Longrightarrow> shut_ok E (ses c) \<Longrightarrow> shut_ok E (ses c')"
proof (induction rule: rtranclp_induct)
  case (step y z)
  then show ?case
    using shut.keeps_step shut_receive by metis
qed simp

lemma shut_reader_exits:
  assumes "closing_stream (st_ops E)" and "\<not> st_is_open (st_ops E) (stream s)"
  shows "\<exists>s'. msg_reader_step E now s = (Exited, s')"
proof -
  obtain ec bs str where r: "st_async_read (st_ops E) 40 (idle_timeout (limits s)) (stream s) = ((ec, bs), str)"
    by (metis prod.exhaust)
  with closing_stream_read(2) [OF assms r] show ?thesis
    by (auto simp: msg_reader_step_def deadline_read_def)
qed

lemma shut_writer_exits:
  assumes "closing_stream (st_ops E)" and "closing_channel (wc_ops E) buffered opened"
    and "\<not> st_is_open (st_ops E) (stream s)" and "\<not> opened (write_channel s)"
  shows "\<exists>s'. msg_writer_step E s = (Exited, s')"
proof -
  obtain r c where r: "ch_async_receive (wc_ops E) (write_channel s) = Some (r, c)"
    using closing_receive [OF assms(2,4)] by blast
  show ?thesis
  proof (cases r)
    case (Inl e)
    with r show ?thesis by (simp add: msg_writer_step_def)
  next
    case (Inr item)
    obtain ec str where w: "st_async_write (st_ops E) (frame_bytes (env_plat E) item) (stream s) = (ec, str)"
      by force
    with closing_stream_write(2) [OF assms(1,3) w] r Inr show ?thesis
      by (auto simp: msg_writer_step_def)
  qed
qed

lemma reader_stops:
  assumes "closing_stream (st_ops E)" and "shut_ok E (ses c)" and "is_closed (ses c)"
  obtains c' where "(session_step E)\<^sup>*\<^sup>* c c'" and "\<not> reader_on c'" and "writer_on c' = writer_on c"
proof (cases "reader_on c")
  case True
  obtain s' where "msg_reader_step E 0 (ses c) = (Exited, s')"
    using shut_reader_exits [OF assms(1), of "ses c" 0] assms by (auto simp: shut_ok_def)
  with that [of "c\<lparr>ses := s', reader_on := False\<rparr>"] session_step.Reader [OF True this] show ?thesis
    by (simp add: r_into_rtranclp)
qed (use that in blast)

lemma writer_stops:
  assumes "closing_stream (st_ops E)" and "closing_channel (wc_ops E) buffered opened" and "shut_ok E (ses c)"
    and "is_closed (ses c)" and "\<not> opened (write_channel (ses c))"
  obtains c' where "(session_step E)\<^sup>*\<^sup>* c c'" and "\<not> writer_on c'" and "reader_on c' = reader_on c"
proof (cases "writer_on c")
  case True
  obtain s' where "msg_writer_step E (ses c) = (Exited, s')"
    using shut_writer_exits [OF assms(1,2) _ assms(5)] assms(1,3,4) by (auto simp: shut_ok_def)
  with that [of "c\<lparr>ses := s', writer_on := False\<rparr>"] session_step.Writer [OF True this] show ?thesis
    by (simp add: r_into_rtranclp)
qed (use that in blast)

section \<open>A call is never lost\<close>

text \<open>
  A call that has been sent is registered under its token in an open session, or its channel has
  something to receive or is closed. \<open>answerable\<close> states this under the contract of the library's
  channels.
\<close>

definition answerable ::
    "('st, 'wc, 'rc, 'v, 'app) session_env \<Rightarrow> ('rc \<Rightarrow> op_result list) \<Rightarrow> ('rc \<Rightarrow> bool) \<Rightarrow> u64 \<Rightarrow> nat \<Rightarrow>
     ('st, 'wc, 'rc, 'app) session \<Rightarrow> bool" where
  "answerable E rbuf ropen tok ch s \<longleftrightarrow>
     (fifo_channel (rc_ops E) rbuf ropen \<and> prompt_channel (rc_ops E) rbuf ropen \<longrightarrow>
      manager_ok (async_mgr s) \<and> ch < chan_count (async_mgr s)
      \<and> (\<not> is_closed s \<and> um_find (channels (async_mgr s)) tok = Some ch
         \<or> rbuf (chan_heap (async_mgr s) ch) \<noteq> [] \<or> \<not> ropen (chan_heap (async_mgr s) ch)))"

lemma prompt_receive:
  assumes "prompt_channel C buffered opened" and "opened c" and "buffered c \<noteq> []"
  shows "\<exists>r c'. ch_async_receive C c = Some (r, c')"
  using assms unfolding prompt_channel_def by (metis list.exhaust)

lemma prompt_send:
  assumes "prompt_channel C buffered opened" and "opened c" and "buffered c = []" and "ch_async_send C x c = (ec, c')"
  shows "ec = None"
  using assms unfolding prompt_channel_def by (metis fst_conv)

lemma cancel_channels_buffered:
  assumes "fifo_channel C buffered opened"
  shows "buffered (cancel_channels C ps heap ch) = buffered (heap ch)"
proof (induction ps arbitrary: heap)
  case (Cons p ps)
  then show ?case
    by (cases p) (simp add: fifo_close [OF assms] fifo_cancel [OF assms])
qed simp

lemma answerable_close:
  assumes "answerable E rbuf ropen tok ch s"
  shows "answerable E rbuf ropen tok ch (close E s)"
proof (cases "is_closed s")
  case False
  let ?m = "async_mgr s" and ?m' = "cancel_all_operations (rc_ops E) (async_mgr s)"
  have m': "async_mgr (close E s) = ?m'"
    using False by (simp add: close_def Let_def)
  show ?thesis
    unfolding answerable_def m'
  proof (intro impI conjI)
    assume lib: "fifo_channel (rc_ops E) rbuf ropen \<and> prompt_channel (rc_ops E) rbuf ropen"
    then have ok: "manager_ok ?m" "ch < chan_count ?m" "um_find (channels ?m) tok = Some ch
        \<or> rbuf (chan_heap ?m ch) \<noteq> [] \<or> \<not> ropen (chan_heap ?m ch)"
      using assms by (auto simp: answerable_def)
    show "manager_ok ?m'" and "ch < chan_count ?m'"
      using ok(1,2) by (simp_all add: cancel_all_ok) (simp add: cancel_all_operations_def Let_def)
    show "\<not> is_closed (close E s) \<and> um_find (channels ?m') tok = Some ch \<or> rbuf (chan_heap ?m' ch) \<noteq> []
        \<or> \<not> ropen (chan_heap ?m' ch)"
      using ok(3) lib pending_closed [OF _ ok(1), of "rc_ops E" rbuf ropen tok ch]
      by (auto simp: cancel_all_operations_def Let_def cancel_channels_buffered cancel_channels_closed)
  qed
qed (use assms in \<open>simp add: close_def\<close>)

lemma answerable_complete:
  assumes "answerable E rbuf ropen tok ch s"
  shows "answerable E rbuf ropen tok ch (s\<lparr>async_mgr := snd (complete_operation (rc_ops E) t ec body (async_mgr s))\<rparr>)"
proof -
  obtain r m where m: "complete_operation (rc_ops E) t ec body (async_mgr s) = (r, m)"
    by force
  note f = complete_operation_frame [OF m]
  have "manager_ok m \<and> ch < chan_count m
      \<and> (\<not> is_closed s \<and> um_find (channels m) tok = Some ch \<or> rbuf (chan_heap m ch) \<noteq> [] \<or> \<not> ropen (chan_heap m ch))"
    if lib: "fifo_channel (rc_ops E) rbuf ropen \<and> prompt_channel (rc_ops E) rbuf ropen"
  proof (intro conjI)
    from lib have ok: "manager_ok (async_mgr s)" "ch < chan_count (async_mgr s)"
      and cases: "\<not> is_closed s \<and> um_find (channels (async_mgr s)) tok = Some ch
        \<or> rbuf (chan_heap (async_mgr s) ch) \<noteq> [] \<or> \<not> ropen (chan_heap (async_mgr s) ch)"
      using assms by (auto simp: answerable_def)
    show "manager_ok m" and "ch < chan_count m"
      using ok complete_operation_keeps_ok [OF ok(1) m] by (simp_all add: f)
    show "\<not> is_closed s \<and> um_find (channels m) tok = Some ch \<or> rbuf (chan_heap m ch) \<noteq> [] \<or> \<not> ropen (chan_heap m ch)"
    proof (cases "um_find (channels (async_mgr s)) t = Some ch")
      case True
      obtain sec c where send: "ch_async_send (rc_ops E) (ec, body) (chan_heap (async_mgr s) ch) = (sec, c)"
        by force
      then have "chan_heap m ch = c"
        using m True by (auto simp: complete_operation_def Let_def split: option.splits)
      then show ?thesis
        using fifo_async_send [OF conjunct1 [OF lib] send] prompt_send [OF conjunct2 [OF lib] _ _ send]
        by (cases sec) auto
    next
      case False
      then have "chan_heap m ch = chan_heap (async_mgr s) ch"
        by (rule f(4))
      moreover have "um_find (channels m) tok = Some ch" if "um_find (channels (async_mgr s)) tok = Some ch"
        using that False ok(1) by (auto simp: f(3) manager_ok_def)
      ultimately show ?thesis
        using cases by auto
    qed
  qed
  then show ?thesis
    by (simp add: answerable_def m)
qed

lemma answerable_create:
  assumes "answerable E rbuf ropen tok ch s" and "token_room (async_mgr s)"
  shows "answerable E rbuf ropen tok ch (s\<lparr>async_mgr := snd (create_operation (rc_ops E) (async_mgr s))\<rparr>)"
proof -
  have "manager_ok (async_mgr s) \<Longrightarrow> manager_ok (snd (create_operation (rc_ops E) (async_mgr s)))"
    using create_operation_ok [OF _ assms(2)] by (metis surjective_pairing)
  moreover have "manager_ok (async_mgr s) \<Longrightarrow> um_find (channels (async_mgr s)) tok = Some ch \<Longrightarrow> tok \<noteq> next_token (async_mgr s)"
    by (auto simp: manager_ok_def)
  ultimately show ?thesis
    using assms(1) by (auto simp: answerable_def create_operation_eq)
qed

interpretation answer: session_invariant E "answerable E rbuf ropen tok ch"
  for E :: "('st, 'wc, 'rc, 'v, 'app) session_env" and rbuf ropen tok ch
proof unfold_locales
  fix s :: "('st, 'wc, 'rc, 'app) session" and ch' fin
  assume "answerable E rbuf ropen tok ch s"
  then show "answerable E rbuf ropen tok ch (snd (call_timer_fired E ch' fin s))"
    by (auto simp: answerable_def call_timer_fired_def Let_def fifo_cancel manager_ok_def)
qed (auto simp: answerable_close answerable_complete answerable_create, auto simp: answerable_def)

text \<open>A step of a session in which nobody takes a result out of the given channel.\<close>

definition waiting_step ::
    "('st, 'wc, 'rc, 'v, 'app) session_env \<Rightarrow> ('rc \<Rightarrow> op_result list) \<Rightarrow> nat \<Rightarrow>
     ('st, 'wc, 'rc, 'app) running \<Rightarrow> ('st, 'wc, 'rc, 'app) running \<Rightarrow> bool" where
  "waiting_step E rbuf ch c c' \<longleftrightarrow> session_step E c c'
     \<and> length (rbuf (chan_heap (async_mgr (ses c)) ch)) \<le> length (rbuf (chan_heap (async_mgr (ses c')) ch))"

lemma answerable_receive:
  assumes "answerable E rbuf ropen tok ch s" and "call_receive E name b ch' s = Some (r, s')"
    and "length (rbuf (chan_heap (async_mgr s) ch)) \<le> length (rbuf (chan_heap (async_mgr s') ch))"
  shows "answerable E rbuf ropen tok ch s'"
proof (cases "ch_async_receive (rc_ops E) (chan_heap (async_mgr s) ch')")
  case None
  with assms(1,2) show ?thesis
    by (auto simp: call_receive_def split: if_splits)
next
  case (Some p)
  obtain x c where p: "p = (x, c)"
    by force
  have s': "s' = s\<lparr>async_mgr := (async_mgr s)\<lparr>chan_heap := (chan_heap (async_mgr s))(ch' := c)\<rparr>\<rparr>"
    using assms(2) Some p by (simp add: call_receive_def Let_def)
  have "rbuf c = rbuf (chan_heap (async_mgr s) ch) \<and> ropen c = ropen (chan_heap (async_mgr s) ch)"
    if "fifo_channel (rc_ops E) rbuf ropen" "ch' = ch"
    using that Some p assms(3) fifo_receive [OF that(1), of _ _ c] fifo_receive_error [OF that(1), of _ _ c]
    by (cases x) (auto simp: s')
  then show ?thesis
    using assms(1) by (cases "ch' = ch") (auto simp: answerable_def s' manager_ok_def)
qed

lemma answerable_run:
  "(waiting_step E rbuf ch)\<^sup>*\<^sup>* c c' \<Longrightarrow> answerable E rbuf ropen tok ch (ses c) \<Longrightarrow> answerable E rbuf ropen tok ch (ses c')"
proof (induction rule: rtranclp_induct)
  case (step y z)
  have "session_step E y z"
    using step.hyps(2) by (simp add: waiting_step_def)
  then show ?case
  proof (rule answer.keeps_step)
    show "answerable E rbuf ropen tok ch (ses y)"
      by (rule step.IH [OF step.prems])
  next
    fix name b ch' r
    assume "call_receive E name b ch' (ses y) = Some (r, ses z)"
    then show "answerable E rbuf ropen tok ch (ses z)"
      using step.hyps(2) by (intro answerable_receive [OF step.IH [OF step.prems]]) (simp_all add: waiting_step_def)
  qed
qed simp

lemma call_begin_answerable:
  assumes "manager_ok (async_mgr s)" and "token_room (async_mgr s)" and "\<not> is_closed s"
    and "call_begin E name req s = (Inr (tok, ch), s1)"
  shows "answerable E rbuf ropen tok ch s1"
proof -
  obtain m where m: "create_operation (rc_ops E) (async_mgr s) = ((tok, ch), m)" "async_mgr s1 = m" "\<not> is_closed s1"
    using assms(3,4) by (auto simp: call_begin_def queue_write_def Let_def split: prod.splits sum.splits option.splits)
  moreover from m(1) have "um_find (channels m) tok = Some ch" and "manager_ok m"
    by (rule create_operation_registers, rule create_operation_ok [OF assms(1,2)])
  moreover from this have "ch < chan_count m"
    by (auto simp: manager_ok_def)
  ultimately show ?thesis
    by (simp add: answerable_def)
qed

lemma answerable_receives:
  assumes "answerable E rbuf ropen tok ch s" and "fifo_channel (rc_ops E) rbuf ropen"
    and "prompt_channel (rc_ops E) rbuf ropen" and "closing_channel (rc_ops E) rbuf ropen"
  shows "\<not> is_closed s \<and> um_find (channels (async_mgr s)) tok = Some ch
    \<or> (\<exists>r s2. call_receive E name False ch s = Some (r, s2))"
proof -
  let ?c = "chan_heap (async_mgr s) ch"
  have "\<exists>r c'. ch_async_receive (rc_ops E) ?c = Some (r, c')" if "rbuf ?c \<noteq> [] \<or> \<not> ropen ?c"
    using that closing_receive [OF assms(4), of ?c] prompt_receive [OF assms(3), of ?c] by blast
  then have "\<exists>r s2. call_receive E name False ch s = Some (r, s2)" if "rbuf ?c \<noteq> [] \<or> \<not> ropen ?c"
    using that by (force simp: call_receive_def Let_def)
  with assms(1-3) show ?thesis
    by (auto simp: answerable_def)
qed

section \<open>Properties\<close>

text \<open>
  C22: queued frames get written. While the session's stream and write channel are open and the peer
  reads, the writer's next iterations, one per queued frame, put exactly the bytes of those frames on
  the stream, in order, and leave the queue empty and everything else as it was.
\<close>

theorem queued_frames_written:
  assumes "library_ok E buffered opened incoming outgoing" and "draining_stream (st_ops E)"
    and "st_is_open (st_ops E) (stream s)" and "opened (write_channel s)" and "buffered (write_channel s) = items"
  shows "\<exists>c str. writer_run E (length items) s = (Continue, s\<lparr>write_channel := c, stream := str\<rparr>) \<and> buffered c = []
    \<and> outgoing str = outgoing (stream s) @ concat (map (frame_bytes (env_plat E)) items)"
  using assms by (rule writer_run_sends)

definition ping_twice :: sample_session where
  "ping_twice = (sample_session empty_dispatcher [])\<lparr>write_channel :=
     ([\<lparr>wi_header = make_header ping 0 0 0, wi_body = []\<rparr>, \<lparr>wi_header = make_header pong 0 0 0, wi_body = []\<rparr>], 256, True)\<rparr>"

lemma ping_twice_fields:
  "st_is_open (st_ops (sample_env empty_dispatcher)) (stream ping_twice)" "lc_open (write_channel ping_twice)"
  "lc_buffered (write_channel ping_twice) =
     [\<lparr>wi_header = make_header ping 0 0 0, wi_body = []\<rparr>, \<lparr>wi_header = make_header pong 0 0 0, wi_body = []\<rparr>]"
  "draining_stream (st_ops (sample_env empty_dispatcher))"
  by (simp_all add: ping_twice_def sample_session_def make_session_def sample_env_def lc_open_def lc_buffered_def
      mem_stream_draining) (simp add: mem_stream_ops_def)

theorem queued_frames_written_witness:
  "\<exists>s'. writer_run (sample_env empty_dispatcher) 2 ping_twice = (Continue, s') \<and> lc_buffered (write_channel s') = []"
  using queued_frames_written [OF sample_library_ok ping_twice_fields(4,1,2,3)] by (auto simp: numeral_2_eq_2)





end
