(* ===== verification/Framing.thy ===== *)
theory Framing
  imports Session_Liveness "HOL-Library.Multiset"
begin

text \<open>
  A reference definition of the wire format: how a byte stream divides into frames for a reader with
  a given size limit. It knows nothing of coroutines, deadlines or replies; the accounting of requests
  compares the session with it.
\<close>

section \<open>Cutting a byte stream into frames\<close>

text \<open>Keepalives have no body; every other frame has as many bytes as its header says.\<close>

definition body_size :: "msg_type \<Rightarrow> header_type \<Rightarrow> u64" where
  "body_size mt h = (if mt \<in> {nop, ping, pong} then 0 else h ! MSG_SIZE_IDX)"

text \<open>
  The frames of a stream, up to the first byte that cannot be framed. A frame over the limit is the
  last one and stands there without its body.
\<close>

function frames :: "platform \<Rightarrow> u64 \<Rightarrow> buffer_type \<Rightarrow> write_item list" where
  "frames P maxsz bs =
     (if length bs < 40 then []
      else let h = header_of_bytes P 5 (take 40 bs); body = drop 40 bs in
        if h ! MAGIC_HEADER_IDX \<noteq> MAGIC_HEADER_NUMBER then []
        else case to_msg_type (h ! MSG_TYPE_IDX) of
               None \<Rightarrow> []
             | Some mt \<Rightarrow>
                 let sz = body_size mt h in
                 if sz > maxsz then [\<lparr>wi_header = h, wi_body = []\<rparr>]
                 else if length body < unat sz then []
                 else \<lparr>wi_header = h, wi_body = take (unat sz) body\<rparr> # frames P maxsz (drop (unat sz) body))"
  by auto
termination by (relation "measure (\<lambda>(P, maxsz, bs). length bs)") auto

declare frames.simps [simp del]

definition frame_type :: "write_item \<Rightarrow> msg_type option" where
  "frame_type item = to_msg_type (wi_header item ! MSG_TYPE_IDX)"

text \<open>What the reader sees once it holds the 40 bytes of a header.\<close>

lemma frames_header:
  assumes "length bs = 40" and "h = header_of_bytes P 5 bs"
  shows "h ! 0 \<noteq> MAGIC_HEADER_NUMBER \<or> to_msg_type (h ! 2) = None \<Longrightarrow> frames P maxsz (bs @ rest) = []"
    and "h ! 0 = MAGIC_HEADER_NUMBER \<Longrightarrow> to_msg_type (h ! 2) = Some mt \<Longrightarrow> body_size mt h > maxsz \<Longrightarrow>
      frames P maxsz (bs @ rest) = [\<lparr>wi_header = h, wi_body = []\<rparr>]"
    and "h ! 0 = MAGIC_HEADER_NUMBER \<Longrightarrow> to_msg_type (h ! 2) = Some mt \<Longrightarrow> \<not> body_size mt h > maxsz \<Longrightarrow>
      length body = unat (body_size mt h) \<Longrightarrow>
      frames P maxsz (bs @ body @ rest) = \<lparr>wi_header = h, wi_body = body\<rparr> # frames P maxsz rest"
  using assms by (auto simp: frames.simps [of P maxsz "bs @ rest"] frames.simps [of P maxsz "bs @ body @ rest"] Let_def
      split: option.split)

lemma frames_short: "length bs < 40 \<Longrightarrow> frames P maxsz bs = []"
  by (simp add: frames.simps)

text \<open>Bytes that have not arrived yet only add frames at the end.\<close>

lemma frames_prefix: "prefix (frames P maxsz bs) (frames P maxsz (bs @ later))"
proof (induction P maxsz bs rule: frames.induct)
  case (1 P maxsz bs)
  let ?h = "header_of_bytes P 5 (take 40 bs)" and ?body = "drop 40 bs"
  show ?case
  proof (cases "40 \<le> length bs \<and> ?h ! 0 = MAGIC_HEADER_NUMBER")
    case False
    then have "frames P maxsz bs = []"
      by (auto simp: frames.simps [of P maxsz bs])
    then show ?thesis
      by simp
  next
    case True
    show ?thesis
    proof (cases "to_msg_type (?h ! 2)")
      case None
      with True show ?thesis
        by (simp add: frames.simps [of P maxsz bs])
    next
      case (Some mt)
      let ?n = "unat (body_size mt ?h)"
      have eq: "frames P maxsz (bs @ later) =
        (if body_size mt ?h > maxsz then [\<lparr>wi_header = ?h, wi_body = []\<rparr>]
         else if length (?body @ later) < ?n then []
         else \<lparr>wi_header = ?h, wi_body = take ?n (?body @ later)\<rparr> # frames P maxsz (drop ?n (?body @ later)))"
        using True Some by (simp add: frames.simps [of P maxsz "bs @ later"] Let_def)
      have eq0: "frames P maxsz bs =
        (if body_size mt ?h > maxsz then [\<lparr>wi_header = ?h, wi_body = []\<rparr>]
         else if length ?body < ?n then []
         else \<lparr>wi_header = ?h, wi_body = take ?n ?body\<rparr> # frames P maxsz (drop ?n ?body))"
        using True Some by (simp add: frames.simps [of P maxsz bs] Let_def)
      show ?thesis
      proof (cases "body_size mt ?h > maxsz \<or> length ?body < ?n")
        case True
        with eq eq0 show ?thesis by auto
      next
        case False
        from 1 [OF _ refl refl _ _ refl] True Some False
        have "prefix (frames P maxsz (drop ?n ?body)) (frames P maxsz (drop ?n ?body @ later))"
          by auto
        with False eq eq0 show ?thesis
          by simp
      qed
    qed
  qed
qed

text \<open>A frame whose length the header can hold.\<close>

definition wire_item :: "write_item \<Rightarrow> bool" where
  "wire_item item \<longleftrightarrow> good_item item \<and> length (wi_body item) < 2 ^ 64"

lemma wire_item_size:
  assumes "wire_item item" and "frame_type item = Some mt"
  shows "unat (body_size mt (wi_header item)) = length (wi_body item)"
  using assms by (auto simp: wire_item_def good_item_def body_size_def unat_of_nat frame_type_def)

lemma frames_cons:
  assumes "wire_item item"
  shows "frames P maxsz (frame_bytes P item @ rest) =
    (if length (wi_body item) > unat maxsz then [item\<lparr>wi_body := []\<rparr>] else item # frames P maxsz rest)"
proof -
  obtain mt where mt: "frame_type item = Some mt"
    using assms by (auto simp: wire_item_def good_item_def frame_type_def)
  note sz = wire_item_size [OF assms mt]
  have h: "length (wi_header item) = 5" "wi_header item ! 0 = MAGIC_HEADER_NUMBER"
    using assms by (simp_all add: wire_item_def good_item_def)
  have bytes: "frame_bytes P item @ rest = header_bytes P (wi_header item) @ wi_body item @ rest"
    by (simp add: frame_bytes_def)
  note cut = frames_header [of "header_bytes P (wi_header item)" "wi_header item" P]
  have over: "length (wi_body item) > unat maxsz \<longleftrightarrow> body_size mt (wi_header item) > maxsz"
    by (simp add: word_less_nat_alt sz)
  show ?thesis
  proof (cases "body_size mt (wi_header item) > maxsz")
    case True
    with cut(2) [of mt maxsz "wi_body item @ rest"] h mt show ?thesis
      unfolding bytes over by (simp add: frame_type_def)
  next
    case False
    with cut(3) [of mt maxsz "wi_body item" rest] h mt sz show ?thesis
      unfolding bytes over by (simp add: frame_type_def)
  qed
qed

text \<open>
  Round trip: cutting what was framed gives the frames back, when none is over the limit.
\<close>

lemma frames_roundtrip:
  assumes "list_all wire_item items" and "\<forall>item \<in> set items. length (wi_body item) \<le> unat maxsz"
  shows "frames P maxsz (concat (map (frame_bytes P) items) @ rest) = items @ frames P maxsz rest"
  using assms by (induction items) (auto simp: frames_cons)

text \<open>Otherwise they are the frames before the first one over the limit, and that one's header.\<close>

lemma frames_of_items:
  assumes "list_all wire_item items"
  shows "prefix (map wi_header (frames P maxsz (concat (map (frame_bytes P) items)))) (map wi_header items)"
  using assms by (induction items) (auto simp: frames_cons frames_short)

end
