(* ===== verification/Session_Accounting.thy ===== *)
theory Session_Accounting
  imports Framing
begin

text \<open>
  Requests are accounted for: over any interleaving of a session's coroutines, tasks and calls, every
  request frame of the byte stream is handed to a handler at most once and answered at most once, and
  nothing else is.
\<close>

section \<open>The ledger\<close>

text \<open>The frames a session has yet to read: none once it is closed.\<close>

definition unread ::
    "('st, 'wc, 'rc, 'v, 'app) session_env \<Rightarrow> ('st \<Rightarrow> buffer_type) \<Rightarrow> ('st, 'wc, 'rc, 'app) session \<Rightarrow>
     write_item list" where
  "unread E incoming s =
     (if is_closed s then [] else frames (env_plat E) (max_message_bytes (limits s)) (incoming (stream s)))"

type_synonym request_id = "u64 \<times> u64"

definition rid :: "header_type \<Rightarrow> request_id" where
  "rid h = (h ! CALL_ID_IDX, h ! USER_TOKEN_IDX)"

fun task_header :: "request_task \<Rightarrow> header_type" where
  "task_header (Spawned h b) = h"
| "task_header (Replying h r) = h"

definition request_ids :: "write_item list \<Rightarrow> request_id multiset" where
  "request_ids items = mset (map (rid \<circ> wi_header) (filter (\<lambda>i. frame_type i = Some request) items))"

definition reply_ids :: "write_item list \<Rightarrow> request_id multiset" where
  "reply_ids items = mset (map (rid \<circ> wi_header) (filter (\<lambda>i. frame_type i \<in> {Some response, Some error}) items))"

text \<open>The tokens of the calls among the frames.\<close>

definition request_tokens :: "write_item list \<Rightarrow> u64 list" where
  "request_tokens items = map (\<lambda>i. wi_header i ! USER_TOKEN_IDX) (filter (\<lambda>i. frame_type i = Some request) items)"

text \<open>The replies that may still be sent: for tasks in flight and for requests not read yet.\<close>

definition owed ::
    "('st, 'wc, 'rc, 'v, 'app) session_env \<Rightarrow> ('st \<Rightarrow> buffer_type) \<Rightarrow> ('st, 'wc, 'rc, 'app) session \<Rightarrow>
     request_id multiset" where
  "owed E incoming s = mset (map (rid \<circ> task_header) (request_tasks s)) + request_ids (unread E incoming s)"

text \<open>The handler runs that may still start: for spawned tasks and for requests not read yet.\<close>

type_synonym invocation = "header_type \<times> buffer_type"

fun spawned_invocations :: "request_task list \<Rightarrow> invocation multiset" where
  "spawned_invocations [] = {#}"
| "spawned_invocations (Spawned h b # ts) = add_mset (h, b) (spawned_invocations ts)"
| "spawned_invocations (Replying h r # ts) = spawned_invocations ts"

definition runnable :: "u64 \<Rightarrow> write_item \<Rightarrow> bool" where
  "runnable maxsz item \<longleftrightarrow> frame_type item = Some request \<and> wi_header item ! MSG_SIZE_IDX \<le> maxsz"

definition invocations :: "u64 \<Rightarrow> write_item list \<Rightarrow> invocation multiset" where
  "invocations maxsz items = mset (map (\<lambda>i. (wi_header i, wi_body i)) (filter (runnable maxsz) items))"

definition todo ::
    "('st, 'wc, 'rc, 'v, 'app) session_env \<Rightarrow> ('st \<Rightarrow> buffer_type) \<Rightarrow> ('st, 'wc, 'rc, 'app) session \<Rightarrow>
     invocation multiset" where
  "todo E incoming s = spawned_invocations (request_tasks s)
     + invocations (max_message_bytes (limits s)) (unread E incoming s)"

lemma request_ids_simps [simp]:
  "request_ids [] = {#}"
  "request_ids (i # items) =
     (if frame_type i = Some request then {#rid (wi_header i)#} else {#}) + request_ids items"
  by (simp_all add: request_ids_def)

lemma reply_ids_simps [simp]:
  "reply_ids [] = {#}"
  "reply_ids (i # items) =
     (if frame_type i \<in> {Some response, Some error} then {#rid (wi_header i)#} else {#}) + reply_ids items"
  "reply_ids (items @ items') = reply_ids items + reply_ids items'"
  by (simp_all add: reply_ids_def)

lemma request_tokens_simps [simp]:
  "request_tokens [] = []"
  "request_tokens (i # items) = (if frame_type i = Some request then [wi_header i ! USER_TOKEN_IDX] else []) @ request_tokens items"
  "request_tokens (items @ items') = request_tokens items @ request_tokens items'"
  by (simp_all add: request_tokens_def)

lemma invocations_simps [simp]:
  "invocations maxsz [] = {#}"
  "invocations maxsz (i # items) =
     (if runnable maxsz i then {#(wi_header i, wi_body i)#} else {#}) + invocations maxsz items"
  by (simp_all add: invocations_def)

lemma spawned_invocations_append [simp]:
  "spawned_invocations (ts @ ts') = spawned_invocations ts + spawned_invocations ts'"
  by (induction ts rule: spawned_invocations.induct) simp_all

lemma frame_type_make_header [simp]:
  "frame_type \<lparr>wi_header = make_header mt sz cid tok, wi_body = b\<rparr> = Some mt"
  by (simp add: frame_type_def)

lemma reply_item_ledger [simp]:
  "frame_type (reply_item mt h b) = Some mt" "rid (wi_header (reply_item mt h b)) = rid h"
  by (simp_all add: reply_item_def rid_def)

text \<open>
  One step keeps the books: the replies it put on the queue were owed, what it ran was to do, and
  nothing was added to either account. Besides, a request among the queued frames carries the next
  token, a response is the one a task had ready, only a handler makes one ready, and no frame to read
  comes from anywhere but the stream.
\<close>

definition responses_ready :: "request_task list \<Rightarrow> write_item list \<Rightarrow> bool" where
  "responses_ready ts items \<longleftrightarrow>
     (\<forall>i \<in> set items. frame_type i = Some response \<longrightarrow> (\<exists>h b. Replying h (Some b) \<in> set ts \<and> i = reply_item response h b))"

definition issues ::
    "('st, 'wc, 'rc, 'app) session \<Rightarrow> write_item list \<Rightarrow> ('st, 'wc, 'rc, 'app) session \<Rightarrow> bool" where
  "issues s items s' \<longleftrightarrow> (request_tokens items = []
       \<or> request_tokens items = [next_token (async_mgr s)] \<and> next_token (async_mgr s') = next_token (async_mgr s) + 1)
     \<and> responses_ready (request_tasks s) items"

lemma responses_ready_simps [simp]:
  "responses_ready ts []"
  "responses_ready ts (i # items) \<longleftrightarrow> responses_ready ts items
     \<and> (frame_type i = Some response \<longrightarrow> (\<exists>h b. Replying h (Some b) \<in> set ts \<and> i = reply_item response h b))"
  by (auto simp: responses_ready_def)

lemma responses_ready_mono: "responses_ready ts items \<Longrightarrow> set ts \<subseteq> set ts' \<Longrightarrow> responses_ready ts' items"
  unfolding responses_ready_def by blast

definition books ::
    "('st, 'wc, 'rc, 'v, 'app) session_env \<Rightarrow> ('wc \<Rightarrow> write_item list) \<Rightarrow> ('st \<Rightarrow> buffer_type) \<Rightarrow>
     ('st, 'wc, 'rc, 'app) session \<Rightarrow> invocation list \<Rightarrow> ('st, 'wc, 'rc, 'app) session \<Rightarrow> bool" where
  "books E buffered incoming s xs s' \<longleftrightarrow>
     (\<exists>items. buffered (write_channel s') = buffered (write_channel s) @ items \<and> issues s items s'
        \<and> reply_ids items + owed E incoming s' \<subseteq># owed E incoming s)
     \<and> mset xs + todo E incoming s' \<subseteq># todo E incoming s
     \<and> (xs = [] \<longrightarrow> (\<forall>h r. Replying h r \<in> set (request_tasks s') \<longrightarrow> Replying h r \<in> set (request_tasks s)))
     \<and> set (unread E incoming s') \<subseteq> set (unread E incoming s)"

lemma booksI:
  assumes "buffered (write_channel s') = buffered (write_channel s) @ items" and "issues s items s'"
    and "reply_ids items + owed E incoming s' \<subseteq># owed E incoming s"
    and "mset xs + todo E incoming s' \<subseteq># todo E incoming s"
    and "\<And>h r. xs = [] \<Longrightarrow> Replying h r \<in> set (request_tasks s') \<Longrightarrow> Replying h r \<in> set (request_tasks s)"
    and "set (unread E incoming s') \<subseteq> set (unread E incoming s)"
  shows "books E buffered incoming s xs s'"
  using assms by (auto simp: books_def)

text \<open>Closing drops what was unread; anything else that leaves tasks and stream alone changes nothing.\<close>

lemma unread_closed: "is_closed s \<Longrightarrow> unread E incoming s = []"
  by (simp add: unread_def)

lemma books_queue:
  assumes "buffered (write_channel s') = buffered (write_channel s) @ items" and "reply_ids items = {#}" "issues s items s'"
    and "request_tasks s' = request_tasks s"
    and "is_closed s' \<or> unread E incoming s' = unread E incoming s"
    and "limits s' = limits s"
  shows "books E buffered incoming s [] s'"
  using assms by (intro booksI [OF assms(1)]) (auto simp: owed_def todo_def unread_closed)

section \<open>The reader\<close>

lemma deadline_read_bytes:
  assumes "library_ok E buffered opened incoming outgoing" and "deadline_read E n t s = (Inr bs, s1)"
  shows "length bs = n" and "incoming (stream s) = bs @ incoming (stream s1)" and "s1 = s\<lparr>stream := stream s1\<rparr>"
proof -
  obtain st where "st_async_read (st_ops E) n t (stream s) = ((None, bs), st)" and s1: "s1 = s\<lparr>stream := st\<rparr>"
    using assms(2) by (auto simp: deadline_read_def split: prod.splits option.splits)
  from byte_stream_read [OF library_okD(3) [OF assms(1)] this(1)] s1
  show "length bs = n" and "incoming (stream s) = bs @ incoming (stream s1)" and "s1 = s\<lparr>stream := stream s1\<rparr>"
    by simp_all
qed

text \<open>
  What handling a frame with header \<open>h\<close> of type \<open>mt\<close> may come to: the session is given up before
  anything was done, the frame is over the limit, or exactly its body is consumed. A reply is only
  ever queued for a request, and not when a task was spawned for it.
\<close>

definition only_replies :: "write_item list \<Rightarrow> request_id multiset \<Rightarrow> bool" where
  "only_replies items ids \<longleftrightarrow> reply_ids items \<subseteq># ids \<and> request_tokens items = []"

lemma only_replies_simps [simp]:
  "only_replies [] ids" "only_replies [reply_item response h b] {#rid h#}" "only_replies [reply_item error h b] {#rid h#}"
  by (simp_all add: only_replies_def)

definition only_errors :: "write_item list \<Rightarrow> request_id multiset \<Rightarrow> bool" where
  "only_errors items ids \<longleftrightarrow> only_replies items ids \<and> responses_ready [] items"

lemma only_errors_simps [simp]: "only_errors [] ids" "only_errors [reply_item error h b] {#rid h#}"
  by (simp_all add: only_errors_def)

lemma only_errorsD:
  "only_errors items ids \<Longrightarrow> reply_ids items \<subseteq># ids" "only_errors items ids \<Longrightarrow> request_tokens items = []"
  "only_errors items ids \<Longrightarrow> responses_ready ts items"
  by (auto simp: only_errors_def only_replies_def intro: responses_ready_mono)

definition may_reply :: "msg_type \<Rightarrow> header_type \<Rightarrow> request_id multiset" where
  "may_reply mt h = (if mt = request then {#rid h#} else {#})"

inductive frame_outcome ::
    "('wc \<Rightarrow> write_item list) \<Rightarrow> ('st \<Rightarrow> buffer_type) \<Rightarrow> msg_type \<Rightarrow> header_type \<Rightarrow>
     ('st, 'wc, 'rc, 'app) session \<Rightarrow> unit result \<times> ('st, 'wc, 'rc, 'app) session \<Rightarrow> bool"
  for buffered :: "'wc \<Rightarrow> write_item list" and incoming :: "'st \<Rightarrow> buffer_type" and mt h
    and s :: "('st, 'wc, 'rc, 'app) session" where
  Dropped: "buffered (write_channel s') = buffered (write_channel s) \<Longrightarrow> request_tasks s' = request_tasks s \<Longrightarrow>
    r \<noteq> Inr () \<or> is_closed s' \<Longrightarrow> frame_outcome buffered incoming mt h s (r, s')"
| Oversized: "h ! 1 > max_message_bytes (limits s) \<Longrightarrow>
    buffered (write_channel s') = buffered (write_channel s) @ items \<Longrightarrow> only_errors items (may_reply mt h) \<Longrightarrow>
    request_tasks s' = request_tasks s \<Longrightarrow>
    r \<noteq> Inr () \<or> is_closed s' \<Longrightarrow> frame_outcome buffered incoming mt h s (r, s')"
| Answered: "\<not> h ! 1 > max_message_bytes (limits s) \<Longrightarrow>
    length body = unat (h ! 1) \<Longrightarrow> incoming (stream s) = body @ incoming (stream s') \<Longrightarrow>
    buffered (write_channel s') = buffered (write_channel s) @ items \<Longrightarrow> only_errors items (may_reply mt h) \<Longrightarrow>
    request_tasks s' = request_tasks s \<Longrightarrow> frame_outcome buffered incoming mt h s (r, s')"
| Accepted: "\<not> h ! 1 > max_message_bytes (limits s) \<Longrightarrow>
    length body = unat (h ! 1) \<Longrightarrow> incoming (stream s) = body @ incoming (stream s') \<Longrightarrow>
    buffered (write_channel s') = buffered (write_channel s) \<Longrightarrow> mt = request \<Longrightarrow>
    request_tasks s' = request_tasks s @ [Spawned h body] \<Longrightarrow> frame_outcome buffered incoming mt h s (r, s')"

lemma deadline_read_same:
  assumes "deadline_read E n t s = (r, s1)"
  shows "write_channel s1 = write_channel s" "request_tasks s1 = request_tasks s" "limits s1 = limits s"
    "is_closed s1 = is_closed s"
  using assms deadline_read_fields [of E n t s] by simp_all

lemma run_complete_same:
  assumes "run_complete rm s = (r, s1)"
  shows "write_channel s1 = write_channel s" "request_tasks s1 = request_tasks s" "stream s1 = stream s"
  using assms run_complete_fields [of rm s] by simp_all

lemma read_body_outcome:
  assumes lib: "library_ok E buffered opened incoming outgoing"
    and "deadline_read E (unat (h ! 1)) t s = rd" and "\<not> h ! 1 > max_message_bytes (limits s)"
    and "\<And>e s1. rd = (Inl e, s1) \<Longrightarrow> rs = (Inl e, s1)"
    and "\<And>body s1. rd = (Inr body, s1) \<Longrightarrow> write_channel (snd rs) = write_channel s1
           \<and> request_tasks (snd rs) = request_tasks s1 \<and> stream (snd rs) = stream s1"
  shows "frame_outcome buffered incoming mt h s rs"
proof (cases rd rule: result_pair_cases)
  case (Throw e s1)
  note same = deadline_read_same [OF assms(2) [unfolded Throw]]
  from assms(4) [OF Throw] same show ?thesis
    by (auto intro: frame_outcome.Dropped)
next
  case (Value body s1)
  note same = deadline_read_same [OF assms(2) [unfolded Value]]
    and bytes = deadline_read_bytes [OF lib assms(2) [unfolded Value]]
  show ?thesis
    using assms(5) [OF Value] same bytes assms(3)
    by (cases rs) (auto intro!: frame_outcome.Answered [where items = "[]" and body = body])
qed

lemma close_log_same:
  assumes "library_ok E buffered opened incoming outgoing"
  shows "buffered (write_channel (close E (log_error_async m s))) = buffered (write_channel s)"
    and "request_tasks (close E (log_error_async m s)) = request_tasks s"
  using close_queue(1) [OF assms] by simp_all

lemma handle_response_outcome:
  assumes lib: "library_ok E buffered opened incoming outgoing"
  shows "frame_outcome buffered incoming mt h s (handle_response E h s)"
proof (cases "h ! 1 > max_message_bytes (limits s)")
  case True
  then show ?thesis
    using close_log_same [OF lib] by (auto simp: handle_response_def Let_def intro: frame_outcome.Dropped)
next
  case False
  show ?thesis
    by (rule read_body_outcome [OF lib refl False, of "message_read_timeout (limits s)"])
      (use False in \<open>simp_all add: handle_response_def Let_def\<close>)
qed

lemma handle_notification_outcome:
  assumes lib: "library_ok E buffered opened incoming outgoing"
  shows "frame_outcome buffered incoming mt h s (handle_notification E h s)"
proof (cases "h ! 1 > max_message_bytes (limits s)")
  case True
  then show ?thesis
    using close_log_same [OF lib] by (auto simp: handle_notification_def Let_def intro: frame_outcome.Dropped)
next
  case False
  show ?thesis
    by (rule read_body_outcome [OF lib refl False, of "message_read_timeout (limits s)"])
      (use False in \<open>simp_all add: handle_notification_def Let_def\<close>)
qed

lemma frame_outcome_before:
  assumes "frame_outcome buffered incoming mt h s0 rs"
    and "write_channel s0 = write_channel s" "request_tasks s0 = request_tasks s" "limits s0 = limits s" "stream s0 = stream s"
  shows "frame_outcome buffered incoming mt h s rs"
  using assms by (simp add: frame_outcome.simps)

lemma handle_error_outcome:
  assumes lib: "library_ok E buffered opened incoming outgoing"
  shows "frame_outcome buffered incoming mt h s (handle_error E h s)"
proof (rule frame_outcome_before)
  let ?s0 = "log_error_async ''Received error message'' s"
  show "frame_outcome buffered incoming mt h ?s0 (handle_error E h s)"
  proof (cases "h ! 1 > 0")
    case False
    then have zero: "h ! 1 = 0"
      using word_neq_0_conv by blast
    obtain r s1 where eq: "handle_error E h s = (r, s1)"
      by force
    with zero have "run_complete (complete_operation_with_error (rc_ops E) (h ! 4) invalid_argument_ec (async_mgr ?s0)) ?s0 = (r, s1)"
      by (simp add: handle_error_def Let_def)
    from run_complete_same [OF this] zero show ?thesis
      unfolding eq by (intro frame_outcome.Answered [where body = "[]" and items = "[]"]) simp_all
  next
    case True
    show ?thesis
    proof (cases "h ! 1 > max_message_bytes (limits ?s0)")
      case over: True
      with True show ?thesis
        using close_log_same [OF lib] by (auto simp: handle_error_def Let_def intro: frame_outcome.Dropped)
    next
      case False
      show ?thesis
        by (rule read_body_outcome [OF lib refl False, of "message_read_timeout (limits ?s0)"])
          (use False True in \<open>simp_all add: handle_error_def Let_def\<close>)
    qed
  qed
qed simp_all

lemma respond_same:
  assumes "respond E mt h b s = (r, s1)"
  shows "request_tasks s1 = request_tasks s" "limits s1 = limits s" "stream s1 = stream s" "is_closed s1 = is_closed s"
  using assms respond_fields [of E mt h b s] by simp_all

lemma dispatch_request_outcome:
  assumes lib: "library_ok E buffered opened incoming outgoing"
  shows "frame_outcome buffered incoming request h s (dispatch_request E now h s)"
proof (cases "h ! 1 > max_message_bytes (limits s)")
  case True
  let ?log = "log_error_async (''Rejecting oversized request: '' @ to_string (unat (h ! MSG_SIZE_IDX))
                @ '' > limit '' @ to_string (unat (max_message_bytes (limits s)))) s"
  obtain r s1 where r: "respond E error h [] ?log = (r, s1)"
    by force
  note one = respond_at_most_one [OF lib r] and same = respond_same [OF r]
  have "dispatch_request E now h s = (case r of Inl e \<Rightarrow> (Inl e, s1) | Inr u \<Rightarrow> (Inr (), close E s1))"
    using True r by (simp add: dispatch_request_def Let_def del: append.simps)
  then show ?thesis
    using True one same close_queue(1) [OF lib, of s1]
    by (auto intro!: frame_outcome.Oversized [where items = "if r = Inr () then [reply_item error h []] else []"]
        simp: may_reply_def split: sum.splits)
next
  case False
  obtain ok b where tt: "try_take 1 now (request_bucket s) = (ok, b)"
    by force
  let ?s1 = "s\<lparr>request_bucket := b\<rparr>"
  let ?s0 = "if ok then ?s1 else log_error_async ''Request rate limit exceeded'' ?s1"
  obtain rd where rd: "deadline_read E (unat (h ! 1)) (message_read_timeout (limits s)) ?s0 = rd"
    by blast
  have eq: "dispatch_request E now h s = (case rd of (Inl e, s2) \<Rightarrow> (Inl e, s2)
      | (Inr body, s2) \<Rightarrow> if ok then (Inr (), s2\<lparr>request_tasks := request_tasks s2 @ [Spawned h body]\<rparr>)
                         else respond E error h [] s2)"
    using False tt rd by (cases ok) (simp_all add: dispatch_request_def Let_def split: prod.split sum.split)
  show ?thesis
  proof (cases rd rule: result_pair_cases)
    case (Throw e s2)
    with eq deadline_read_same [OF rd [unfolded Throw]] show ?thesis
      by (cases ok) (auto intro: frame_outcome.Dropped)
  next
    case (Value body s2)
    note bytes = deadline_read_bytes [OF lib rd [unfolded Value]] and same = deadline_read_same [OF rd [unfolded Value]]
    show ?thesis
    proof (cases ok)
      case True
      with eq Value bytes same False show ?thesis
        by (auto intro: frame_outcome.Accepted)
    next
      case nok: False
      obtain r s3 where r: "respond E error h [] s2 = (r, s3)"
        by force
      from eq Value nok r have "dispatch_request E now h s = (r, s3)"
        by simp
      then show ?thesis
        using nok bytes same respond_same [OF r] respond_at_most_one [OF lib r] False
        by (auto intro!: frame_outcome.Answered [where body = body and items = "if r = Inr () then [reply_item error h []] else []"]
            simp: may_reply_def)
    qed
  qed
qed

lemma reader_continue_same:
  assumes lib: "library_ok E buffered opened incoming outgoing" and "reader_continue E (r, s1) = (st, s')"
  shows "buffered (write_channel s') = buffered (write_channel s1)" "request_tasks s' = request_tasks s1"
    "limits s' = limits s1" "is_closed s' \<or> r = Inr () \<and> s' = s1"
  using assms(2) close_queue(1) [OF lib]
  by (auto simp: reader_continue_def reader_catch_def simp del: append.simps split: sum.splits)

lemma subset_single_add: "A \<subseteq># {#x#} \<Longrightarrow> A \<subseteq># add_mset x B"
  by (erule subset_mset.order_trans) simp

lemma outcome_books:
  assumes lib: "library_ok E buffered opened incoming outgoing" and "\<not> is_closed s0"
    and bs: "length bs = 40" "h = header_of_bytes (env_plat E) 5 bs" "incoming (stream s0) = bs @ incoming str"
    and h: "h ! 0 = MAGIC_HEADER_NUMBER" "to_msg_type (h ! 2) = Some mt" "mt \<notin> {nop, ping, pong}"
    and out: "frame_outcome buffered incoming mt h (s0\<lparr>stream := str\<rparr>) (r, s1)" and "limits s1 = limits s0"
    and cont: "reader_continue E (r, s1) = (st, s')"
  shows "books E buffered incoming s0 [] s'"
proof -
  note same = reader_continue_same [OF lib cont]
  have sz: "body_size mt h = h ! 1"
    using h(3) by (simp add: body_size_def)
  note cut = frames_header [OF bs(1,2)]
  let ?max = "max_message_bytes (limits s0)"
  have type: "frame_type \<lparr>wi_header = h, wi_body = b\<rparr> = Some mt" for b
    using h(2) by (simp add: frame_type_def)
  have unread: "unread E incoming s0 = frames (env_plat E) ?max (bs @ incoming str)"
    using assms(2) bs(3) by (simp add: unread_def)
  from out show ?thesis
  proof (cases rule: frame_outcome.cases)
    case Dropped
    with same show ?thesis
      by (intro books_queue [where items = "[]"]) (auto simp: assms(10) issues_def)
  next
    case (Oversized items)
    then have closed: "is_closed s'"
      using same(4) by auto
    have "unread E incoming s0 = [\<lparr>wi_header = h, wi_body = []\<rparr>]"
      using cut(2) [OF h(1,2)] Oversized(1) unread sz by simp
    with Oversized same closed only_errorsD [OF Oversized(3)] show ?thesis
      by (intro booksI [where items = items]) (auto simp: owed_def todo_def unread_closed type may_reply_def issues_def)
  next
    case (Answered body items)
    have "unread E incoming s0 = \<lparr>wi_header = h, wi_body = body\<rparr> # frames (env_plat E) ?max (incoming (stream s1))"
      using cut(3) [OF h(1,2), of ?max body] Answered(1-3) unread sz by simp
    moreover have "is_closed s' \<or> unread E incoming s' = frames (env_plat E) ?max (incoming (stream s1))"
      using same(4) assms(10) by (auto simp: unread_def)
    ultimately show ?thesis
      using Answered same assms(10) only_errorsD [OF Answered(5)]
      by (intro booksI [where items = items])
        (auto simp: owed_def todo_def unread_closed type may_reply_def issues_def
          intro: subset_mset.add_mono subset_single_add)
  next
    case (Accepted body)
    have "unread E incoming s0 = \<lparr>wi_header = h, wi_body = body\<rparr> # frames (env_plat E) ?max (incoming (stream s1))"
      using cut(3) [OF h(1,2), of ?max body] Accepted(1-3) unread sz by simp
    moreover have "is_closed s' \<or> unread E incoming s' = frames (env_plat E) ?max (incoming (stream s1))"
      using same(4) assms(10) by (auto simp: unread_def)
    ultimately show ?thesis
      using Accepted same assms(10)
      by (intro booksI [where items = "[]"])
        (auto simp: owed_def todo_def unread_closed type runnable_def not_less issues_def)
  qed
qed

lemma try_write_books:
  assumes lib: "library_ok E buffered opened incoming outgoing"
    and "try_write E (make_header mt sz cid tok) b s = (ok, s')" and "mt \<notin> {response, error, request}"
  shows "books E buffered incoming s [] s'" and "request_tasks s' = request_tasks s" and "stream s' = stream s"
    and "limits s' = limits s" and "is_closed s' = is_closed s"
proof -
  let ?x = "\<lparr>wi_header = make_header mt sz cid tok, wi_body = b\<rparr>"
  obtain c where send: "ch_try_send (wc_ops E) ?x (write_channel s) = (ok, c)" and s': "s' = s\<lparr>write_channel := c\<rparr>"
    using assms(2) by (auto simp: try_write_def Let_def split: prod.splits)
  show "books E buffered incoming s [] s'"
    using fifo_try_send [OF library_okD(1) [OF lib] send] assms(3) s'
    by (intro books_queue [where items = "if ok then [?x] else []"]) (auto simp: unread_def issues_def)
qed (use assms(2) try_write_fields [of E "make_header mt sz cid tok" b s] in simp_all)

lemma queue_write_books:
  assumes lib: "library_ok E buffered opened incoming outgoing"
    and "queue_write E (make_header mt sz cid tok) b s = (r, s')" and "mt \<notin> {response, error, request}"
  shows "books E buffered incoming s [] s'"
proof -
  let ?x = "\<lparr>wi_header = make_header mt sz cid tok, wi_body = b\<rparr>"
  obtain ec c where send: "ch_async_send (wc_ops E) ?x (write_channel s) = (ec, c)"
    by force
  then have s': "s' = s\<lparr>write_channel := c\<rparr>"
    using assms(2) by (auto simp: queue_write_def split: option.splits)
  show ?thesis
    using fifo_async_send [OF library_okD(1) [OF lib] send] assms(3) s'
    by (intro books_queue [where items = "if ec = None then [?x] else []"]) (auto simp: unread_def issues_def)
qed

text \<open>A keepalive is one frame without a body and no request.\<close>

lemma keepalive_unread:
  assumes "\<not> is_closed s0" and "length bs = 40" "h = header_of_bytes (env_plat E) 5 bs"
    and "incoming (stream s0) = bs @ incoming (stream s1)" "s1 = s0\<lparr>stream := str\<rparr>"
    and "h ! 0 = MAGIC_HEADER_NUMBER" "to_msg_type (h ! 2) = Some mt" "mt \<in> {nop, ping, pong}"
  shows "owed E incoming s0 = owed E incoming s1" and "todo E incoming s0 = todo E incoming s1"
    and "set (unread E incoming s1) \<subseteq> set (unread E incoming s0)"
proof -
  have "unread E incoming s0 = \<lparr>wi_header = h, wi_body = []\<rparr> # unread E incoming s1"
    using frames_header(3) [OF assms(2,3,6,7), of "max_message_bytes (limits s0)" "[]" "incoming (stream s1)"] assms
    by (simp add: unread_def body_size_def)
  moreover have "frame_type \<lparr>wi_header = h, wi_body = []\<rparr> \<noteq> Some request"
    using assms(7,8) by (auto simp: frame_type_def)
  ultimately show "owed E incoming s0 = owed E incoming s1" and "todo E incoming s0 = todo E incoming s1"
    and "set (unread E incoming s1) \<subseteq> set (unread E incoming s0)"
    by (auto simp: owed_def todo_def runnable_def assms(5))
qed

lemma books_from:
  assumes "books E buffered incoming s1 xs s'" and "write_channel s1 = write_channel s0"
    and "owed E incoming s0 = owed E incoming s1" and "todo E incoming s0 = todo E incoming s1"
    and "set (unread E incoming s1) \<subseteq> set (unread E incoming s0)"
    and "async_mgr s1 = async_mgr s0" and "request_tasks s1 = request_tasks s0"
  shows "books E buffered incoming s0 xs s'"
  using assms by (auto simp: books_def issues_def)

lemma books_refl [simp]: "books E buffered incoming s [] s"
  by (rule booksI [where items = "[]"]) (simp_all add: issues_def)

lemma reader_frame_books:
  assumes lib: "library_ok E buffered opened incoming outgoing" and "\<not> is_closed s0"
    and bs: "length bs = 40" "h = header_of_bytes (env_plat E) 5 bs" "incoming (stream s0) = bs @ incoming (stream s1)"
    and s1: "s1 = s0\<lparr>stream := stream s1\<rparr>" and frame: "msg_reader_frame E now h s1 = (st, s')"
  shows "books E buffered incoming s0 [] s'"
proof (cases "h ! 0 = MAGIC_HEADER_NUMBER \<and> to_msg_type (h ! 2) \<noteq> None")
  case False
  then obtain m where "s' = close E (log_error_async m s1)"
    using violation_frame [of h E now s1] frame by auto
  moreover have "request_tasks s1 = request_tasks s0" "write_channel s1 = write_channel s0" "limits s1 = limits s0"
    by (subst s1, simp)+
  ultimately show ?thesis
    using close_log_same [OF lib] by (intro books_queue [where items = "[]"]) (simp_all add: issues_def)
next
  case True
  then obtain mt where mt: "h ! 0 = MAGIC_HEADER_NUMBER" "to_msg_type (h ! 2) = Some mt"
    by auto
  have wc: "write_channel s1 = write_channel s0" "limits s1 = limits s0" "async_mgr s1 = async_mgr s0"
    "request_tasks s1 = request_tasks s0"
    by (subst s1, simp)+
  note alive = books_from [OF _ wc(1) keepalive_unread [OF assms(2) bs s1 mt] wc(3,4)]
  have handled: "books E buffered incoming s0 [] s'"
    if "mt \<notin> {nop, ping, pong}" "frame_outcome buffered incoming mt h s1 rs" "limits (snd rs) = limits s1"
      "reader_continue E rs = (st, s')" for rs
    using outcome_books [OF lib assms(2) bs mt that(1), of "fst rs" "snd rs"] that s1 wc by simp
  show ?thesis
  proof (cases mt)
    case ping
    then have "try_write E (make_header pong 0 0 0) [] s1 = (fst (try_write E (make_header pong 0 0 0) [] s1), s')"
      using frame mt by (simp add: msg_reader_frame_def prod_eq_iff)
    from try_write_books(1) [OF lib this] ping alive show ?thesis
      by simp
  next
    case request
    with frame mt handled [of "dispatch_request E now h s1"] dispatch_request_outcome [OF lib] show ?thesis
      by (simp add: msg_reader_frame_def)
  next
    case response
    with frame mt handled [OF _ handle_response_outcome [OF lib]] show ?thesis
      by (simp add: msg_reader_frame_def)
  next
    case notification
    with frame mt handled [OF _ handle_notification_outcome [OF lib]] show ?thesis
      by (simp add: msg_reader_frame_def)
  next
    case error
    with frame mt handled [OF _ handle_error_outcome [OF lib]] show ?thesis
      by (simp add: msg_reader_frame_def)
  qed (use frame mt alive in \<open>simp_all add: msg_reader_frame_def\<close>)
qed

text \<open>Only an open session gets a header.\<close>

lemma header_read_open:
  assumes "closing_stream (st_ops E)" and "shut_ok E s" and "deadline_read E 40 t s = (Inr bs, s1)"
  shows "\<not> is_closed s"
proof
  assume "is_closed s"
  with assms(1,2) have "\<not> st_is_open (st_ops E) (stream s)"
    by (simp add: shut_ok_def)
  from closing_stream_read(2) [OF assms(1) this, of 40] assms(3) show False
    by (fastforce simp: deadline_read_def split: prod.splits option.splits)
qed

lemma reader_books:
  assumes lib: "library_ok E buffered opened incoming outgoing"
    and closing: "closing_stream (st_ops E)" and shut: "shut_ok E s" and step: "msg_reader_step E now s = (st, s')"
  shows "books E buffered incoming s [] s'"
proof (cases "deadline_read E 40 (idle_timeout (limits s)) s" rule: result_pair_cases)
  case (Throw e s1)
  note same = deadline_read_same [OF Throw]
  have "s' = reader_catch E e s1"
    using step Throw by (simp add: msg_reader_step_def)
  then show ?thesis
    using same close_log_same [OF lib] by (intro books_queue [where items = "[]"]) (simp_all add: reader_catch_def issues_def)
next
  case (Value bs s1)
  note bytes = deadline_read_bytes [OF lib Value]
  have "\<not> is_closed s"
    by (rule header_read_open [OF closing shut Value])
  moreover have "msg_reader_frame E now (header_of_bytes (env_plat E) 5 bs) s1 = (st, s')"
    using step Value by (simp add: msg_reader_step_def)
  ultimately show ?thesis
    using reader_frame_books [OF lib _ bytes(1) refl bytes(2,3)] by blast
qed

section \<open>Tasks\<close>

lemma spawned_replaced:
  "i < length ts \<Longrightarrow> ts ! i = Spawned h b \<Longrightarrow>
   add_mset (h, b) (spawned_invocations (ts[i := Replying h r])) = spawned_invocations ts"
proof (induction ts arbitrary: i rule: spawned_invocations.induct)
  case (2 h' b' ts)
  then show ?case
    by (cases i) auto
next
  case (3 h' r' ts)
  then show ?case
    by (cases i) auto
qed simp

lemma remove_nth_ledger:
  assumes "i < length ts"
  shows "add_mset (f (ts ! i)) (mset (map f (remove_nth i ts))) = mset (map f ts)"
    and "ts ! i = Replying h r \<Longrightarrow> spawned_invocations (remove_nth i ts) = spawned_invocations ts"
proof -
  have ts: "ts = take i ts @ ts ! i # drop (Suc i) ts"
    by (rule id_take_nth_drop [OF assms])
  show "add_mset (f (ts ! i)) (mset (map f (remove_nth i ts))) = mset (map f ts)"
    by (subst (3) ts) (simp add: remove_nth_def)
  show "spawned_invocations (remove_nth i ts) = spawned_invocations ts" if "ts ! i = Replying h r"
    by (subst (2) ts) (simp add: remove_nth_def that)
qed

lemma set_remove_nth: "x \<in> set (remove_nth i xs) \<Longrightarrow> x \<in> set xs"
  by (auto simp: remove_nth_def dest: in_set_takeD in_set_dropD)

lemma send_reply_at_most_one:
  assumes lib: "library_ok E buffered opened incoming outgoing"
  obtains items where "buffered (write_channel (send_reply E h rsp s)) = buffered (write_channel s) @ items"
    "only_replies items {#rid h#}" "responses_ready [Replying h rsp] items"
proof -
  let ?P = "\<lambda>s items. buffered (write_channel (send_reply E h rsp s)) = buffered (write_channel s) @ items
      \<and> only_replies items {#rid h#} \<and> responses_ready [Replying h rsp] items"
  have err: "\<exists>items. buffered (write_channel (send_error_reply E h s1)) = buffered (write_channel s1) @ items
      \<and> only_replies items {#rid h#} \<and> responses_ready [Replying h rsp] items" for s1
    using respond_at_most_one [OF lib surjective_pairing, of error h "[]" s1]
    by (auto simp: send_error_reply_def)
  have "\<exists>items. ?P s items"
  proof (cases rsp)
    case None
    with err [of s] show ?thesis by (simp add: send_reply_def)
  next
    case (Some b)
    show ?thesis
    proof (cases "respond E response h b s" rule: result_pair_cases)
      case (Throw e s1)
      with Some err [of "log_dispatch_error E e s1"] respond_at_most_one [OF lib Throw] show ?thesis
        by (simp add: send_reply_def)
    next
      case (Value u s1)
      with Some respond_at_most_one [OF lib Value] show ?thesis
        by (auto simp: send_reply_def)
    qed
  qed
  with that show thesis by blast
qed

lemma send_reply_same [simp]:
  "request_tasks (send_reply E h rsp s) = request_tasks s" "stream (send_reply E h rsp s) = stream s"
  "limits (send_reply E h rsp s) = limits s" "is_closed (send_reply E h rsp s) = is_closed s"
  by (auto simp: send_reply_def send_error_reply_def log_dispatch_error_def dest: respond_same
      split: option.split prod.split sum.split)

lemma fold_ctx_actions_limits [simp]: "limits (fold apply_ctx_action acts s) = limits s"
proof (induction acts arbitrary: s)
  case (Cons a acts)
  then show ?case by (cases a) simp_all
qed simp

lemma run_handler_limits: "run_handler E h buf s a = (t, s', a') \<Longrightarrow> limits s' = limits s"
  by (auto simp: run_handler_def log_dispatch_error_def Let_def split: prod.splits sum.splits)

lemma task_books:
  assumes lib: "library_ok E buffered opened incoming outgoing" and i: "i < length (request_tasks s)"
    and step: "request_task_step E i s a = (s', a')"
  shows "books E buffered incoming s
    (case request_tasks s ! i of Spawned h b \<Rightarrow> [(h, b)] | Replying h r \<Rightarrow> []) s'"
proof (cases "request_tasks s ! i")
  case (Spawned h b)
  obtain t s1 a1 where run: "run_handler E h b s a = (t, s1, a1)"
    by (metis prod.exhaust)
  obtain r where t: "t = Replying h r"
    by (rule run_handler_outcome [OF run]) auto
  note fields = run_handler_fields [OF run] run_handler_limits [OF run]
  have s': "s' = s1\<lparr>request_tasks := (request_tasks s)[i := Replying h r]\<rparr>"
    using step Spawned run t fields by (simp add: request_task_step_def)
  have "map (rid \<circ> task_header) ((request_tasks s)[i := Replying h r]) = map (rid \<circ> task_header) (request_tasks s)"
    using Spawned i by (simp add: map_update list_update_same_conv)
  then have "owed E incoming s' = owed E incoming s"
    using s' fields by (simp add: owed_def unread_def)
  moreover have "add_mset (h, b) (todo E incoming s') = todo E incoming s"
    using spawned_replaced [OF i Spawned, of r] s' fields by (simp add: todo_def unread_def)
  ultimately show ?thesis
    using Spawned s' fields by (intro booksI [where items = "[]"]) (auto simp: issues_def unread_def)
next
  case (Replying h r)
  let ?s1 = "s\<lparr>request_tasks := remove_nth i (request_tasks s)\<rparr>"
  obtain items where items: "buffered (write_channel (send_reply E h r ?s1)) = buffered (write_channel ?s1) @ items"
    "only_replies items {#rid h#}" "responses_ready [Replying h r] items"
    by (rule send_reply_at_most_one [OF lib])
  have "Replying h r \<in> set (request_tasks s)"
    using nth_mem [OF i] Replying by simp
  with items(3) have ready: "responses_ready (request_tasks s) items"
    by (auto elim: responses_ready_mono)
  have s': "s' = send_reply E h r ?s1"
    using step Replying by (simp add: request_task_step_def)
  have "add_mset (rid h) (owed E incoming s') = owed E incoming s"
    using remove_nth_ledger(1) [OF i, of "rid \<circ> task_header"] Replying s' by (simp add: owed_def unread_def)
  then have "reply_ids items + owed E incoming s' \<subseteq># owed E incoming s"
    using subset_mset.add_mono [OF conjunct1 [OF items(2) [unfolded only_replies_def]] subset_mset.order_refl, of "owed E incoming s'"] by simp
  moreover have "todo E incoming s' = todo E incoming s"
    using remove_nth_ledger(2) [OF i Replying] s' by (simp add: todo_def unread_def)
  ultimately show ?thesis
    using Replying s' items ready by (intro booksI [where items = items]) (auto simp: only_replies_def issues_def unread_def dest: set_remove_nth)
qed

section \<open>Whole runs\<close>

lemma writer_ledger:
  assumes lib: "library_ok E buffered opened incoming outgoing" and "msg_writer_step E s = (st, s')"
  shows "owed E incoming s' \<subseteq># owed E incoming s" and "todo E incoming s' \<subseteq># todo E incoming s"
    and "set (unread E incoming s') \<subseteq> set (unread E incoming s)"
proof -
  from assms(2) have "owed E incoming s' \<subseteq># owed E incoming s \<and> todo E incoming s' \<subseteq># todo E incoming s
      \<and> set (unread E incoming s') \<subseteq> set (unread E incoming s)"
  proof (cases rule: msg_writer_step_cases)
    case (Sent item c str)
    with byte_stream_write [OF library_okD(3) [OF lib] Sent(3)] show ?thesis
      by (simp add: owed_def todo_def unread_def)
  qed (simp_all add: owed_def todo_def unread_closed)
  then show "owed E incoming s' \<subseteq># owed E incoming s" and "todo E incoming s' \<subseteq># todo E incoming s"
    and "set (unread E incoming s') \<subseteq> set (unread E incoming s)"
    by simp_all
qed

text \<open>
  \<open>handler_starts E c x c'\<close>: the step runs a request handler, on the header and body in \<open>x\<close>.
  A trace records these, in order.
\<close>

definition handler_starts ::
    "('st, 'wc, 'rc, 'v, 'app) session_env \<Rightarrow> ('st, 'wc, 'rc, 'app) running \<Rightarrow> invocation \<Rightarrow>
     ('st, 'wc, 'rc, 'app) running \<Rightarrow> bool" where
  "handler_starts E c x c' \<longleftrightarrow>
     (\<exists>i s' a'. i < length (request_tasks (ses c)) \<and> request_tasks (ses c) ! i = Spawned (fst x) (snd x)
        \<and> request_task_step E i (ses c) (app_state c) = (s', a') \<and> c' = c\<lparr>ses := s', app_state := a'\<rparr>)"

inductive session_trace ::
    "('st, 'wc, 'rc, 'v, 'app) session_env \<Rightarrow> ('st, 'wc, 'rc, 'app) running \<Rightarrow> invocation list \<Rightarrow>
     ('st, 'wc, 'rc, 'app) running \<Rightarrow> bool"
  for E :: "('st, 'wc, 'rc, 'v, 'app) session_env" and c where
  Start: "session_trace E c [] c"
| Handler: "session_trace E c xs c' \<Longrightarrow> handler_starts E c' x c'' \<Longrightarrow> session_trace E c (xs @ [x]) c''"
| Other: "session_trace E c xs c' \<Longrightarrow> session_step E c' c'' \<Longrightarrow> \<forall>x. \<not> handler_starts E c' x c'' \<Longrightarrow>
    session_trace E c xs c''"

lemma handler_startsI:
  "i < length (request_tasks (ses c)) \<Longrightarrow> request_tasks (ses c) ! i = Spawned h b \<Longrightarrow>
   request_task_step E i (ses c) (app_state c) = (s', a') \<Longrightarrow>
   handler_starts E c (h, b) (c\<lparr>ses := s', app_state := a'\<rparr>)"
  by (auto simp: handler_starts_def)

lemma handler_starts_step: "handler_starts E c x c' \<Longrightarrow> session_step E c c'"
  by (auto simp: handler_starts_def intro: session_step.Task)

lemma trace_is_run: "session_trace E c xs c' \<Longrightarrow> (session_step E)\<^sup>*\<^sup>* c c'"
  by (induction rule: session_trace.induct) (auto dest: handler_starts_step intro: rtranclp.rtrancl_into_rtrancl)

lemma run_has_trace: "(session_step E)\<^sup>*\<^sup>* c c' \<Longrightarrow> \<exists>xs. session_trace E c xs c'"
  by (induction rule: rtranclp_induct) (blast intro: session_trace.intros)+

lemma handler_starts_books:
  assumes "library_ok E buffered opened incoming outgoing" and "handler_starts E c x c'"
  shows "books E buffered incoming (ses c) [x] (ses c')"
  using assms(2) task_books [OF assms(1)] by (fastforce simp: handler_starts_def)

lemma close_books:
  assumes "library_ok E buffered opened incoming outgoing"
  shows "books E buffered incoming s [] (close E s)"
  using close_queue(1) [OF assms, of s] by (intro books_queue [where items = "[]"]) (simp_all add: issues_def)

lemma quiet_books:
  assumes "write_channel s' = write_channel s" "request_tasks s' = request_tasks s" "stream s' = stream s"
    "is_closed s' = is_closed s" "limits s' = limits s"
  shows "books E buffered incoming s [] s'"
  using assms by (intro books_queue [where items = "[]"]) (simp_all add: unread_def issues_def)

lemma notification_step_limits: "notification_step E s a = (s', a') \<Longrightarrow> limits s' = limits s"
  by (auto simp: notification_step_def run_notification_def Let_def
      split: list.splits prod.splits sum.splits option.splits)

lemma call_begin_books:
  assumes lib: "library_ok E buffered opened incoming outgoing" and "call_begin E name req s = (r, s')"
  shows "books E buffered incoming s [] s'"
proof -
  obtain tok ch m where c: "create_operation (rc_ops E) (async_mgr s) = ((tok, ch), m)"
    by (metis prod.exhaust)
  then have tok: "tok = next_token (async_mgr s)" "next_token m = next_token (async_mgr s) + 1"
    by (auto simp: create_operation_eq)
  let ?x = "\<lparr>wi_header = make_header request (of_nat (length req)) (shash64 (env_plat E) name) tok, wi_body = req\<rparr>"
  obtain ec wc where send: "ch_async_send (wc_ops E) ?x (write_channel s) = (ec, wc)"
    by force
  have "s' = s\<lparr>async_mgr := m, write_channel := wc\<rparr>"
    using assms(2) c send by (auto simp: call_begin_def queue_write_def Let_def split: option.splits)
  then show ?thesis
    using fifo_async_send [OF library_okD(1) [OF lib] send] tok
    by (intro books_queue [where items = "if ec = None then [?x] else []"]) (auto simp: unread_def issues_def)
qed

lemma step_books:
  assumes lib: "library_ok E buffered opened incoming outgoing"
    and closing: "closing_stream (st_ops E)" and shut: "shut_ok E (ses c)" and step: "session_step E c c'"
    and quiet: "\<forall>x. \<not> handler_starts E c x c'" and "\<nexists>st. msg_writer_step E (ses c) = (st, ses c')"
  shows "books E buffered incoming (ses c) [] (ses c')"
  using step
proof (cases rule: session_step.cases)
  case (Reader now st s')
  with reader_books [OF lib closing shut] show ?thesis by simp
next
  case (Task i s' a')
  have "request_tasks (ses c) ! i \<noteq> Spawned h b" for h b
    using handler_startsI [OF Task(2) _ Task(3)] quiet Task(1) by blast
  with task_books [OF lib Task(2,3)] Task(1) show ?thesis
    by (auto split: request_task.splits)
next
  case (Strand s' a')
  with notification_step_fields [OF Strand(2)] notification_step_limits [OF Strand(2)] show ?thesis
    by (intro quiet_books) simp_all
next
  case (Call name req r s')
  with call_begin_books [OF lib] show ?thesis by simp
next
  case (Timer ch fin b s')
  then show ?thesis
    by (intro quiet_books) (auto simp: call_timer_fired_def Let_def split: if_splits)
next
  case (Receive name b ch r s')
  then show ?thesis
    by (intro quiet_books) (auto simp: call_receive_def Let_def split: option.splits if_splits)
next
  case (Notify name buf r s')
  with queue_write_books [OF lib] show ?thesis by (simp add: notify_def)
next
  case (Try_notify name buf b s')
  with try_write_books(1) [OF lib] show ?thesis by (simp add: try_notify_def)
next
  case (Try_ping b s')
  with try_write_books(1) [OF lib] show ?thesis by (simp add: try_ping_def)
next
  case Close
  with close_books [OF lib] show ?thesis by simp
next
  case (Elsewhere a)
  then show ?thesis by (intro quiet_books) simp_all
qed (use assms(6) in auto)

lemma step_todo:
  assumes lib: "library_ok E buffered opened incoming outgoing"
    and closing: "closing_stream (st_ops E)" and shut: "shut_ok E (ses c)" and step: "session_step E c c'"
    and quiet: "\<forall>x. \<not> handler_starts E c x c'"
  shows "todo E incoming (ses c') \<subseteq># todo E incoming (ses c)"
  using step_books [OF lib closing shut step quiet] writer_ledger(2) [OF lib]
  by (cases "\<exists>st. msg_writer_step E (ses c) = (st, ses c')") (auto simp: books_def)

text \<open>
  A step of the writer takes from the queue what it puts on the stream; every other step appends to
  the queue, and the frames it appends are well-formed and accounted for.
\<close>

lemma writer_adds_nothing:
  assumes lib: "library_ok E buffered opened incoming outgoing" and "msg_writer_step E s = (st, s')"
    and "buffered (write_channel s') = buffered (write_channel s) @ items"
  shows "items = []"
  using assms(2,3) close_queue(1) [OF lib] fifo_receive [OF library_okD(1) [OF lib]]
    fifo_receive_error [OF library_okD(1) [OF lib]]
  by (cases rule: msg_writer_step_cases) fastforce+

lemma step_owed:
  assumes lib: "library_ok E buffered opened incoming outgoing"
    and closing: "closing_stream (st_ops E)" and shut: "shut_ok E (ses c)" and step: "session_step E c c'"
    and on: "writer_on c'"
  shows "\<exists>items. list_all good_item items
        \<and> wire E buffered outgoing (ses c') =
            wire E buffered outgoing (ses c) @ concat (map (frame_bytes (env_plat E)) items)
        \<and> issues (ses c) items (ses c') \<and> reply_ids items + owed E incoming (ses c') \<subseteq># owed E incoming (ses c)"
  using lib step
proof (cases rule: session_step_cases)
  case (1 st)
  with on writer_step_wire [OF lib 1(2)] writer_ledger(1) [OF lib 1(2)] show ?thesis
    by (intro exI [of _ "[]"]) (simp add: issues_def)
next
  case 2
  obtain items where items: "list_all good_item items"
    "buffered (write_channel (ses c')) = buffered (write_channel (ses c)) @ items"
    "outgoing (stream (ses c')) = outgoing (stream (ses c))"
    using 2(1) by (auto simp: extends_def)
  have "issues (ses c) items (ses c') \<and> reply_ids items + owed E incoming (ses c') \<subseteq># owed E incoming (ses c)"
  proof (cases "\<exists>st. msg_writer_step E (ses c) = (st, ses c')")
    case True
    then obtain st where w: "msg_writer_step E (ses c) = (st, ses c')" ..
    from writer_adds_nothing [OF lib w items(2)] writer_ledger(1) [OF lib w] show ?thesis
      by (simp add: issues_def)
  next
    case False
    have "\<exists>xs. books E buffered incoming (ses c) xs (ses c')"
      using step_books [OF lib closing shut step] handler_starts_books [OF lib] False by blast
    then show ?thesis
      using items(2) by (auto simp: books_def)
  qed
  with items show ?thesis
    by (intro exI [of _ items]) (simp add: wire_def)
qed

text \<open>The accounts of a session that starts at a frame boundary, in terms of the bytes to come.\<close>

lemma unread_subset:
  "request_ids (unread E incoming s)
     \<subseteq># request_ids (frames (env_plat E) (max_message_bytes (limits s)) (incoming (stream s)))"
  "invocations maxsz (unread E incoming s)
     \<subseteq># invocations maxsz (frames (env_plat E) (max_message_bytes (limits s)) (incoming (stream s)))"
  by (simp_all add: unread_def)

lemma spend_trans:
  fixes acc :: "'a multiset"
  assumes "spent + acc' \<subseteq># acc" and "paid + acc'' \<subseteq># acc'"
  shows "spent + paid + acc'' \<subseteq># acc"
  unfolding add.assoc by (rule subset_mset.order_trans [OF subset_mset.add_left_mono [OF assms(2)] assms(1)])

lemma trace_todo:
  assumes "library_ok E buffered opened incoming outgoing" and "closing_stream (st_ops E)" and "shut_ok E (ses c)"
    and "session_trace E c xs c'"
  shows "mset xs + todo E incoming (ses c') \<subseteq># todo E incoming (ses c)"
  using assms(4)
proof (induction rule: session_trace.induct)
  case (Handler xs c' x c'')
  have "{#x#} + todo E incoming (ses c'') \<subseteq># todo E incoming (ses c')"
    using handler_starts_books [OF assms(1) Handler.hyps(2)] by (simp add: books_def)
  from spend_trans [OF Handler.IH this] show ?case
    by simp
next
  case (Other xs c' c'')
  have "shut_ok E (ses c')"
    by (rule shut_run [OF trace_is_run [OF Other.hyps(1)] assms(3)])
  from spend_trans [OF Other.IH, of "{#}"] step_todo [OF assms(1,2) this Other.hyps(2,3)] show ?case
    by simp
qed simp

lemma run_owed:
  assumes "library_ok E buffered opened incoming outgoing" and "closing_stream (st_ops E)" and "shut_ok E (ses c)"
    and "(session_step E)\<^sup>*\<^sup>* c c'" and "writer_on c'"
  shows "\<exists>items. list_all good_item items
    \<and> wire E buffered outgoing (ses c') =
        wire E buffered outgoing (ses c) @ concat (map (frame_bytes (env_plat E)) items)
    \<and> reply_ids items + owed E incoming (ses c') \<subseteq># owed E incoming (ses c)"
  using assms(4,5)
proof (induction rule: rtranclp_induct)
  case base
  then show ?case
    by (intro exI [of _ "[]"]) simp
next
  case (step c' c'')
  have "writer_on c'"
    using step.hyps(2) step.prems by (cases rule: session_step.cases) auto
  then obtain i where i: "list_all good_item i"
    "wire E buffered outgoing (ses c') = wire E buffered outgoing (ses c) @ concat (map (frame_bytes (env_plat E)) i)"
    "reply_ids i + owed E incoming (ses c') \<subseteq># owed E incoming (ses c)"
    using step.IH by blast
  from step_owed [OF assms(1,2) shut_run [OF step.hyps(1) assms(3)] step.hyps(2) step.prems]
  obtain j where j: "list_all good_item j"
    "wire E buffered outgoing (ses c'') = wire E buffered outgoing (ses c') @ concat (map (frame_bytes (env_plat E)) j)"
    "reply_ids j + owed E incoming (ses c'') \<subseteq># owed E incoming (ses c')"
    by blast
  with i(1,2) j(1,2) spend_trans [OF i(3) j(3)] show ?case
    by (intro exI [of _ "i @ j"]) simp
qed

section \<open>At most once\<close>

text \<open>
  C10: a request is executed at most once, whatever interleaves. Over any run of a session, whatever
  bytes the peer sends, the handlers that run (with the tasks that wait for theirs to run) are run on
  the header and body of request frames of the byte stream within the size limit, each frame at most
  once; nothing else reaches a handler through a request.
\<close>

theorem requests_run_at_most_once:
  assumes "library_ok E buffered opened incoming outgoing" and "closing_stream (st_ops E)" and "shut_ok E (ses c)"
    and "session_trace E c xs c'"
  shows "mset xs + spawned_invocations (request_tasks (ses c'))
    \<subseteq># spawned_invocations (request_tasks (ses c))
       + invocations (max_message_bytes (limits (ses c)))
           (frames (env_plat E) (max_message_bytes (limits (ses c))) (incoming (stream (ses c))))"
proof -
  have "mset xs + spawned_invocations (request_tasks (ses c')) \<subseteq># mset xs + todo E incoming (ses c')"
    by (simp add: todo_def)
  also have "\<dots> \<subseteq># todo E incoming (ses c)"
    by (rule trace_todo [OF assms])
  also have "\<dots> \<subseteq># spawned_invocations (request_tasks (ses c))
       + invocations (max_message_bytes (limits (ses c)))
           (frames (env_plat E) (max_message_bytes (limits (ses c))) (incoming (stream (ses c))))"
    using unread_subset(2) by (simp add: todo_def)
  finally show ?thesis .
qed

text \<open>
  A request is answered at most once, and only requests are. Over any run of a session, as long
  as its writer runs, what it put on the wire is whole frames, and the responses and errors among
  them, together with the replies still to come from tasks in flight, carry the call ids and tokens of
  request frames of the byte stream, one reply for each at most.
\<close>

theorem requests_answered_at_most_once:
  assumes "library_ok E buffered opened incoming outgoing" and "closing_stream (st_ops E)" and "shut_ok E (ses c)"
    and "(session_step E)\<^sup>*\<^sup>* c c'" and "writer_on c'"
  shows "\<exists>items. list_all good_item items
    \<and> wire E buffered outgoing (ses c') =
        wire E buffered outgoing (ses c) @ concat (map (frame_bytes (env_plat E)) items)
    \<and> reply_ids items + mset (map (rid \<circ> task_header) (request_tasks (ses c')))
        \<subseteq># mset (map (rid \<circ> task_header) (request_tasks (ses c)))
           + request_ids (frames (env_plat E) (max_message_bytes (limits (ses c))) (incoming (stream (ses c))))"
proof -
  from run_owed [OF assms] obtain items where items: "list_all good_item items"
    "wire E buffered outgoing (ses c') = wire E buffered outgoing (ses c) @ concat (map (frame_bytes (env_plat E)) items)"
    "reply_ids items + owed E incoming (ses c') \<subseteq># owed E incoming (ses c)"
    by blast
  have "reply_ids items + mset (map (rid \<circ> task_header) (request_tasks (ses c'))) \<subseteq># reply_ids items + owed E incoming (ses c')"
    by (simp add: owed_def)
  also note items(3)
  also have "owed E incoming (ses c) \<subseteq># mset (map (rid \<circ> task_header) (request_tasks (ses c)))
           + request_ids (frames (env_plat E) (max_message_bytes (limits (ses c))) (incoming (stream (ses c))))"
    using unread_subset(1) by (simp add: owed_def)
  finally show ?thesis
    using items(1,2) by blast
qed

section \<open>A run that serves a request\<close>

definition call_item :: "u64 \<Rightarrow> write_item" where
  "call_item cid = \<lparr>wi_header = make_header request 2 cid 1, wi_body = [1, 2]\<rparr>"

definition serving :: "u64 \<Rightarrow> (mem_stream, write_item list_channel, op_result list_channel, nat) running" where
  "serving cid = \<lparr>ses = sample_session empty_dispatcher (frame_bytes sample_platform (call_item cid)), app_state = 0,
     reader_on = True, writer_on = True\<rparr>"

lemma serving_fields:
  "ms_incoming (stream (ses (serving cid))) = frame_bytes sample_platform (call_item cid)"
  "limits (ses (serving cid)) = default_session_limits" "request_tasks (ses (serving cid)) = []"
  "app_state (serving cid) = 0" "reader_on (serving cid)" "writer_on (serving cid)"
  "shut_ok (sample_env empty_dispatcher) (ses (serving cid))"
  "fst (try_take 1 5 (request_bucket (ses (serving cid))))"
  by (simp_all add: serving_def ms_incoming_def sample_session_def make_session_def shut_ok_def default_session_limits_def
      default_token_bucket_def try_take_def refill_def Let_def)

lemma call_item_fields:
  "wire_item (call_item cid)" "fits default_session_limits (call_item cid)" "frame_type (call_item cid) = Some request"
  "runnable (max_message_bytes default_session_limits) (call_item cid)"
  "wi_header (call_item cid) = make_header request 2 cid 1" "wi_body (call_item cid) = [1, 2]"
  by (simp_all add: call_item_def wire_item_def fits_def good_item_def frame_type_def runnable_def default_session_limits_def
      word_le_nat_alt)

lemma serving_frames:
  "frames sample_platform (max_message_bytes default_session_limits) (frame_bytes sample_platform (call_item cid)) = [call_item cid]"
  using frames_cons [OF call_item_fields(1), of sample_platform "max_message_bytes default_session_limits" cid "[]"]
  by (simp add: call_item_def default_session_limits_def frames_short)

lemma sample_env_fields [simp]:
  "env_plat (sample_env d) = sample_platform" "st_ops (sample_env d) = mem_stream_ops"
  by (simp_all add: sample_env_def le_env_def sample_platform_def)

lemma serving_trace:
  obtains c' where "session_trace (sample_env empty_dispatcher) (serving cid) [(make_header request 2 cid 1, [1, 2])] c'"
    "writer_on c'" "map task_header (request_tasks (ses c')) = [make_header request 2 cid 1]"
proof -
  let ?E = "sample_env empty_dispatcher" and ?c = "serving cid" and ?h = "make_header request 2 cid 1"
  obtain st s1 where read: "msg_reader_step ?E 5 (ses ?c) = (st, s1)"
    by force
  have item: "call_item cid = \<lparr>wi_header = make_header request (of_nat (length [1, 2 :: u8])) cid 1, wi_body = [1, 2]\<rparr>"
    by (simp add: call_item_def)
  have "st = Continue" and tasks: "request_tasks s1 = [Spawned ?h [1, 2]]"
    using read_request [OF sample_library_ok item _ _ serving_fields(8) read, of "[]"] call_item_fields(2) serving_fields(1-3)
    by (simp_all add: call_item_def)
  define c1 where "c1 = ?c\<lparr>ses := s1, reader_on := True\<rparr>"
  have step: "session_step ?E ?c c1"
    using session_step.Reader [OF serving_fields(5) read] \<open>st = Continue\<close> by (simp add: c1_def)
  have "session_trace ?E ?c [] c1"
    by (rule session_trace.Other [OF session_trace.Start step]) (simp add: handler_starts_def serving_fields)
  moreover obtain s2 a2 where run: "request_task_step ?E 0 (ses c1) (app_state c1) = (s2, a2)"
    by force
  moreover have spawned: "0 < length (request_tasks (ses c1))" "request_tasks (ses c1) ! 0 = Spawned ?h [1, 2]"
    by (simp_all add: c1_def tasks)
  ultimately have "session_trace ?E ?c [(?h, [1, 2])] (c1\<lparr>ses := s2, app_state := a2\<rparr>)"
    using session_trace.Handler [OF _ handler_startsI [OF spawned run], of ?c "[]"] by simp
  moreover have "map task_header (request_tasks s2) = [?h]"
    using run tasks by (auto simp: request_task_step_def c1_def run_handler_def Let_def split: prod.splits sum.splits)
  ultimately show thesis
    using that [of "c1\<lparr>ses := s2, app_state := a2\<rparr>"] by (simp add: c1_def serving_fields)
qed

theorem requests_run_at_most_once_witness:
  "\<exists>c'. session_trace (sample_env empty_dispatcher) (serving 7) [(make_header request 2 7 1, [1, 2])] c'
     \<and> spawned_invocations (request_tasks (ses c')) = {#}"
proof -
  obtain c' where run: "session_trace (sample_env empty_dispatcher) (serving 7) [(make_header request 2 7 1, [1, 2])] c'"
    by (rule serving_trace)
  have "{#(make_header request 2 7 1, [1, 2])#} + spawned_invocations (request_tasks (ses c'))
      \<subseteq># {#(make_header request 2 7 1, [1, 2])#}"
    using requests_run_at_most_once [OF sample_library_ok _ serving_fields(7) run]
    by (simp add: mem_stream_closing serving_fields serving_frames call_item_fields)
  then have "spawned_invocations (request_tasks (ses c')) = {#}"
    by (simp add: subset_mset.add_le_same_cancel1)
  with run show ?thesis
    by blast
qed

theorem requests_answered_at_most_once_witness:
  "\<exists>c' items. (session_step (sample_env empty_dispatcher))\<^sup>*\<^sup>* (serving 7) c'
     \<and> wire (sample_env empty_dispatcher) lc_buffered ms_outgoing (ses c') =
         wire (sample_env empty_dispatcher) lc_buffered ms_outgoing (ses (serving 7))
           @ concat (map (frame_bytes sample_platform) items)
     \<and> reply_ids items = {#} \<and> request_tasks (ses c') \<noteq> []"
proof -
  obtain c' where run: "session_trace (sample_env empty_dispatcher) (serving 7) [(make_header request 2 7 1, [1, 2])] c'"
    and on: "writer_on c'" and tasks: "map task_header (request_tasks (ses c')) = [make_header request 2 7 1]"
    by (rule serving_trace)
  note star = trace_is_run [OF run]
  from requests_answered_at_most_once [OF sample_library_ok _ serving_fields(7) star on]
  obtain items where "wire (sample_env empty_dispatcher) lc_buffered ms_outgoing (ses c') =
         wire (sample_env empty_dispatcher) lc_buffered ms_outgoing (ses (serving 7))
           @ concat (map (frame_bytes sample_platform) items)"
    and "reply_ids items + mset (map rid (map task_header (request_tasks (ses c')))) \<subseteq># request_ids [call_item 7]"
    by (auto simp: mem_stream_closing serving_fields serving_frames)
  moreover from this have "reply_ids items = {#}"
    using tasks by (simp add: call_item_fields subset_mset.add_le_same_cancel2)
  moreover have "request_tasks (ses c') \<noteq> []"
    using tasks by auto
  ultimately show ?thesis
    using star by (intro exI [of _ c'] exI [of _ items] conjI)
qed

end
