(* ===== verification/At_Most_Once.thy ===== *)
theory At_Most_Once
  imports Session_Accounting
begin

text \<open>
  Calls are executed at most once, end to end: the requests a session sends carry distinct tokens, and
  the session at the other end runs a handler at most once for each. With the runs that witness the
  theorems of the accounting.
\<close>

section \<open>Tokens of a caller\<close>

text \<open>The counter of tokens never goes back.\<close>

lemma unat_incr_cases: "unat (w + 1 :: u64) = unat w + 1 \<or> w = - 1"
  using unatSuc [of w] by (cases "1 + w = 0") (auto simp: add.commute [of 1 w] add_eq_0_iff2)

lemma le_unat_incr: "w \<noteq> - 1 \<Longrightarrow> unat w \<le> unat (w + 1 :: u64)"
  using unat_incr_cases [of w] by auto

interpretation issued: session_invariant E "\<lambda>s. n \<le> unat (next_token (async_mgr s))"
  for E :: "('st, 'wc, 'rc, 'v, 'app) session_env" and n
proof unfold_locales
  fix s :: "('st, 'wc, 'rc, 'app) session"
  assume le: "n \<le> unat (next_token (async_mgr s))"
  then show "n \<le> unat (next_token (async_mgr (close E s)))"
    by (simp add: close_def Let_def cancel_all_operations_def)
  show "n \<le> unat (next_token (async_mgr (snd (call_timer_fired E ch fin s))))" for ch fin
    using le by (simp add: call_timer_fired_def Let_def)
  show "n \<le> unat (next_token (async_mgr (s\<lparr>async_mgr := snd (complete_operation (rc_ops E) tok ec body (async_mgr s))\<rparr>)))"
    for tok ec body
    using le by (simp add: complete_operation_def Let_def split: option.split prod.split)
  show "n \<le> unat (next_token (async_mgr (s\<lparr>async_mgr := snd (create_operation (rc_ops E) (async_mgr s))\<rparr>)))"
    if "token_room (async_mgr s)"
    using le le_unat_incr [OF that [unfolded token_room_def]] by (simp add: create_operation_eq)
qed simp_all

lemma issued_receive:
  "call_receive E name b ch s = Some (r, s') \<Longrightarrow> next_token (async_mgr s') = next_token (async_mgr s)"
  by (auto simp: call_receive_def Let_def split: option.splits if_splits)

lemma step_next_token:
  "session_step E c c' \<Longrightarrow> unat (next_token (async_mgr (ses c))) \<le> unat (next_token (async_mgr (ses c')))"
  by (erule issued.keeps_step) (auto dest: issued_receive)

text \<open>
  The requests a session puts on the wire carry tokens that were not used before: they lie between the
  counter's value before and after.
\<close>

lemma run_issues:
  assumes "library_ok E buffered opened incoming outgoing" and "closing_stream (st_ops E)" and "shut_ok E (ses c)"
    and "(session_step E)\<^sup>*\<^sup>* c c'" and "writer_on c'"
  shows "\<exists>items. list_all good_item items
    \<and> wire E buffered outgoing (ses c') =
        wire E buffered outgoing (ses c) @ concat (map (frame_bytes (env_plat E)) items)
    \<and> distinct (request_tokens items)
    \<and> (\<forall>t \<in> set (request_tokens items). unat t < unat (next_token (async_mgr (ses c'))))"
  using assms(4,5)
proof (induction rule: rtranclp_induct)
  case base
  then show ?case
    by (intro exI [of _ "[]"]) simp
next
  case (step c' c'')
  have "writer_on c'"
    using step.hyps(2) step.prems by (cases rule: session_step.cases) auto
  then obtain i where i: "list_all good_item i"
    "wire E buffered outgoing (ses c') = wire E buffered outgoing (ses c) @ concat (map (frame_bytes (env_plat E)) i)"
    "distinct (request_tokens i)" "\<forall>t \<in> set (request_tokens i). unat t < unat (next_token (async_mgr (ses c')))"
    using step.IH by blast
  from step_owed [OF assms(1,2) shut_run [OF step.hyps(1) assms(3)] step.hyps(2) step.prems]
  obtain j where j: "list_all good_item j"
    "wire E buffered outgoing (ses c'') = wire E buffered outgoing (ses c') @ concat (map (frame_bytes (env_plat E)) j)"
    "issues (ses c') j (ses c'')"
    by blast
  note mono = step_next_token [OF step.hyps(2)]
  have "distinct (request_tokens (i @ j))
      \<and> (\<forall>t \<in> set (request_tokens (i @ j)). unat t < unat (next_token (async_mgr (ses c''))))"
    using conjunct1 [OF j(3) [unfolded issues_def]]
  proof
    assume "request_tokens j = []"
    with i(3,4) mono show ?thesis
      by fastforce
  next
    assume "request_tokens j = [next_token (async_mgr (ses c'))]
      \<and> next_token (async_mgr (ses c'')) = next_token (async_mgr (ses c')) + 1"
    moreover from this have "unat (next_token (async_mgr (ses c'))) < unat (next_token (async_mgr (ses c'')))"
      using mono unat_incr_cases [of "next_token (async_mgr (ses c'))"]
      by (auto simp: unsigned_minus_1_eq_mask mask_eq_exp_minus_1)
    ultimately show ?thesis
      using i(3,4) by fastforce
  qed
  with i(1,2) j(1,2) show ?case
    by (intro exI [of _ "i @ j"]) simp
qed

section \<open>From the caller to the handler\<close>

lemma mset_subset_distinct:
  assumes "mset xs \<subseteq># mset ys" and "distinct (map f ys)"
  shows "distinct (map f xs)"
proof -
  obtain zs where "mset (xs @ zs) = mset ys"
    using assms(1) by (metis mset_subset_eq_exists_conv mset_append ex_mset)
  then have "mset (map f (xs @ zs)) = mset (map f ys)"
    unfolding mset_map by simp
  then have "distinct (map f (xs @ zs))"
    using assms(2) mset_eq_imp_distinct_iff by blast
  then show ?thesis
    by simp
qed

text \<open>The invocations a frame list allows, as a list; those of a prefix come first.\<close>

definition call_list :: "write_item list \<Rightarrow> invocation list" where
  "call_list items = map (\<lambda>i. (wi_header i, wi_body i)) (filter (\<lambda>i. frame_type i = Some request) items)"

lemma call_list_tokens: "map (\<lambda>x. fst x ! USER_TOKEN_IDX) (call_list items) = request_tokens items"
  by (simp add: call_list_def request_tokens_def)

lemma runnable_frames:
  assumes "list_all wire_item items"
  shows "invocations maxsz (frames P maxsz (concat (map (frame_bytes P) items))) \<subseteq># mset (call_list items)"
  using assms
proof (induction items)
  case Nil
  then show ?case
    by (simp add: frames_short)
next
  case (Cons item items)
  then have size: "frame_type item = Some request \<Longrightarrow> unat (wi_header item ! 1) = length (wi_body item)"
    using wire_item_size [of item request] by (simp add: body_size_def)
  show ?case
  proof (cases "length (wi_body item) > unat maxsz")
    case True
    with size have "\<not> runnable maxsz (item\<lparr>wi_body := []\<rparr>)"
      by (auto simp: runnable_def frame_type_def word_le_nat_alt)
    with True Cons.prems show ?thesis
      by (simp add: frames_cons)
  next
    case False
    with size have "frame_type item = Some request \<Longrightarrow> wi_header item ! Suc 0 \<le> maxsz"
      by (simp add: word_le_nat_alt)
    with False Cons show ?thesis
      by (auto simp: frames_cons call_list_def runnable_def)
  qed
qed

lemma invocations_prefix: "prefix fs fs' \<Longrightarrow> invocations maxsz fs \<subseteq># invocations maxsz fs'"
  by (auto simp: prefix_def invocations_def)

lemma length_frame_body: "item \<in> set items \<Longrightarrow> length (wi_body item) \<le> length (concat (map (frame_bytes P) items))"
  by (induction items) (auto simp: frame_bytes_def)

lemma wire_items:
  "list_all good_item items \<Longrightarrow> length (concat (map (frame_bytes P) items)) < 2 ^ 64 \<Longrightarrow> list_all wire_item items"
  using length_frame_body [of _ items P] by (fastforce simp: list_all_iff wire_item_def)

text \<open>What runs at the end that receives the frames, or the first bytes of them.\<close>

lemma served_calls:
  assumes callee: "library_ok S sbuf sopen s_in s_out" "closing_stream (st_ops S)" "shut_ok S (ses d)"
      "session_trace S d xs d'" "request_tasks (ses d) = []"
    and "list_all wire_item items" and "prefix (s_in (stream (ses d))) (concat (map (frame_bytes (env_plat S)) items))"
  shows "mset xs \<subseteq># mset (call_list items)"
proof -
  let ?P = "env_plat S" and ?max = "max_message_bytes (limits (ses d))"
  have "mset xs \<subseteq># mset xs + todo S s_in (ses d')"
    by simp
  also have "\<dots> \<subseteq># todo S s_in (ses d)"
    by (rule trace_todo [OF callee(1-4)])
  also have "\<dots> \<subseteq># invocations ?max (frames ?P ?max (s_in (stream (ses d))))"
    using unread_subset(2) [of ?max S s_in "ses d"] callee(5) by (simp add: todo_def)
  also have "\<dots> \<subseteq># invocations ?max (frames ?P ?max (concat (map (frame_bytes ?P) items)))"
    using assms(7) frames_prefix by (intro invocations_prefix) (auto simp: prefix_def)
  also have "\<dots> \<subseteq># mset (call_list items)"
    by (rule runnable_frames [OF assms(6)])
  finally show ?thesis .
qed

text \<open>
  C5: a call is executed at most once. Let a session make calls, in any interleaving with everything
  else it does, and let the session at the other end receive what the first one put on the wire, or
  any part of it up to a cut. Then the handlers that run there run on exactly the header and body of
  calls that were made, and no token runs twice.
\<close>

theorem calls_run_at_most_once:
  assumes caller: "library_ok C cbuf copen c_in c_out" "closing_stream (st_ops C)" "shut_ok C (ses c)"
      "(session_step C)\<^sup>*\<^sup>* c c'" "writer_on c'"
    and fresh: "wire C cbuf c_out (ses c) = []" and small: "length (wire C cbuf c_out (ses c')) < 2 ^ 64"
    and callee: "library_ok S sbuf sopen s_in s_out" "closing_stream (st_ops S)" "shut_ok S (ses d)"
      "session_trace S d xs d'" "request_tasks (ses d) = []"
    and link: "env_plat S = env_plat C" "prefix (s_in (stream (ses d))) (wire C cbuf c_out (ses c'))"
  shows "\<exists>items. wire C cbuf c_out (ses c') = concat (map (frame_bytes (env_plat C)) items)
    \<and> mset xs \<subseteq># mset (call_list items) \<and> distinct (map (\<lambda>x. fst x ! USER_TOKEN_IDX) xs)"
proof -
  from run_issues [OF caller] fresh obtain items where items: "list_all good_item items"
    "wire C cbuf c_out (ses c') = concat (map (frame_bytes (env_plat C)) items)" "distinct (request_tokens items)"
    by auto
  have sub: "mset xs \<subseteq># mset (call_list items)"
    using small link by (intro served_calls [OF callee] wire_items [OF items(1)]) (simp_all add: items(2))
  with items(3) have "distinct (map (\<lambda>x. fst x ! USER_TOKEN_IDX) xs)"
    by (intro mset_subset_distinct [OF sub]) (simp only: call_list_tokens)
  with sub items(2) show ?thesis
    by blast
qed

definition caller :: "(mem_stream, write_item list_channel, op_result list_channel, nat) running" where
  "caller = \<lparr>ses = sample_session empty_dispatcher [], app_state = 0, reader_on = True, writer_on = True\<rparr>"

lemma caller_calls:
  obtains c' where "session_step (sample_env empty_dispatcher) caller c'" "writer_on c'"
    "wire (sample_env empty_dispatcher) lc_buffered ms_outgoing (ses c') =
       frame_bytes sample_platform (call_item (shash64 sample_platform ''triple''))"
proof -
  let ?E = "sample_env empty_dispatcher"
  obtain r s' where call: "call_begin ?E ''triple'' [1, 2] (ses caller) = (r, s')"
    by force
  have room: "token_room (async_mgr (ses caller))"
    by (simp add: caller_def sample_session_def make_session_def make_async_manager_def token_room_def)
  have step: "session_step ?E caller (caller\<lparr>ses := s'\<rparr>)"
    by (rule session_step.Call [OF room call])
  have "lc_buffered (write_channel s') = [call_item (shash64 sample_platform ''triple'')] \<and> ms_outgoing (stream s') = []"
    using call
    by (auto simp: call_begin_def create_operation_eq queue_write_def caller_def sample_session_def make_session_def
        make_async_manager_def sample_env_def list_channel_ops_def lc_buffered_def ms_outgoing_def call_item_def
        le_env_def sample_platform_def Let_def)
  then show thesis
    by (intro that [OF step]) (simp_all add: caller_def wire_def)
qed

theorem calls_run_at_most_once_witness:
  "\<exists>c' d' items. session_step (sample_env empty_dispatcher) caller c'
     \<and> session_trace (sample_env empty_dispatcher) (serving (shash64 sample_platform ''triple''))
         [(make_header request 2 (shash64 sample_platform ''triple'') 1, [1, 2])] d'
     \<and> wire (sample_env empty_dispatcher) lc_buffered ms_outgoing (ses c') = concat (map (frame_bytes sample_platform) items)
     \<and> mset [(make_header request 2 (shash64 sample_platform ''triple'') 1, [1, 2])] \<subseteq># mset (call_list items)"
proof -
  let ?E = "sample_env empty_dispatcher" and ?cid = "shash64 sample_platform ''triple''"
  obtain c' where step: "session_step ?E caller c'" and on: "writer_on c'"
    and wire: "wire ?E lc_buffered ms_outgoing (ses c') = frame_bytes sample_platform (call_item ?cid)"
    by (rule caller_calls)
  obtain d' where trace: "session_trace ?E (serving ?cid) [(make_header request 2 ?cid 1, [1, 2])] d'"
    by (rule serving_trace)
  have run: "(session_step ?E)\<^sup>*\<^sup>* caller c'"
    using step by (rule r_into_rtranclp)
  have closing: "closing_stream (st_ops ?E)"
    by (simp add: mem_stream_closing)
  have c: "shut_ok ?E (ses caller)" "wire ?E lc_buffered ms_outgoing (ses caller) = []"
    by (simp_all add: caller_def sample_session_def make_session_def shut_ok_def wire_def sample_env_def
        list_channel_ops_def lc_buffered_def ms_outgoing_def)
  have len: "length (wire ?E lc_buffered ms_outgoing (ses c')) < 2 ^ 64"
    unfolding wire by (simp add: frame_bytes_def call_item_fields)
  have link: "prefix (ms_incoming (stream (ses (serving ?cid)))) (wire ?E lc_buffered ms_outgoing (ses c'))"
    by (simp add: wire serving_fields)
  show ?thesis
    using calls_run_at_most_once [OF sample_library_ok closing c(1) run on c(2) len
        sample_library_ok closing serving_fields(7) trace serving_fields(3) refl link] step trace
    by auto
qed

end
