(* ===== verification/Call_Results.thy ===== *)
theory Call_Results
  imports At_Most_Once
begin

text \<open>
  What a call returns, over any interleaving at both ends: if it returns a result at all, then the
  other end ran a handler on exactly the header and the bytes of this call, once, and the result is
  what that run produced.
\<close>

section \<open>The serving end\<close>

text \<open>A trace that also records what each handler run came to.\<close>

definition handler_outcome ::
    "('st, 'wc, 'rc, 'v, 'app) session_env \<Rightarrow> ('st, 'wc, 'rc, 'app) running \<Rightarrow> invocation \<Rightarrow> buffer_type option \<Rightarrow>
     ('st, 'wc, 'rc, 'app) running \<Rightarrow> bool" where
  "handler_outcome E c x rsp c' \<longleftrightarrow> handler_starts E c x c'
     \<and> fst (run_handler E (fst x) (snd x) (ses c) (app_state c)) = Replying (fst x) rsp"

inductive outcome_trace ::
    "('st, 'wc, 'rc, 'v, 'app) session_env \<Rightarrow> ('st, 'wc, 'rc, 'app) running \<Rightarrow> (invocation \<times> buffer_type option) list \<Rightarrow>
     ('st, 'wc, 'rc, 'app) running \<Rightarrow> bool"
  for E :: "('st, 'wc, 'rc, 'v, 'app) session_env" and c where
  Start: "outcome_trace E c [] c"
| Handler: "outcome_trace E c ys c' \<Longrightarrow> handler_outcome E c' x rsp c'' \<Longrightarrow> outcome_trace E c (ys @ [(x, rsp)]) c''"
| Other: "outcome_trace E c ys c' \<Longrightarrow> session_step E c' c'' \<Longrightarrow> \<forall>x. \<not> handler_starts E c' x c'' \<Longrightarrow>
    outcome_trace E c ys c''"

lemma outcome_trace_session: "outcome_trace E c ys c' \<Longrightarrow> session_trace E c (map fst ys) c'"
  by (induction rule: outcome_trace.induct) (auto simp: handler_outcome_def intro: session_trace.intros)

lemma run_has_outcomes: "(session_step E)\<^sup>*\<^sup>* c c' \<Longrightarrow> \<exists>ys. outcome_trace E c ys c'"
proof (induction rule: rtranclp_induct)
  case base
  show ?case by (blast intro: outcome_trace.Start)
next
  case (step c' c'')
  then obtain ys where ys: "outcome_trace E c ys c'"
    by blast
  show ?case
  proof (cases "\<exists>x. handler_starts E c' x c''")
    case True
    then obtain x where x: "handler_starts E c' x c''" ..
    obtain t s1 a1 where run: "run_handler E (fst x) (snd x) (ses c') (app_state c') = (t, s1, a1)"
      by (metis prod.exhaust)
    then obtain rsp where "t = Replying (fst x) rsp"
      by (rule run_handler_outcome) auto
    with x run have "handler_outcome E c' x rsp c''"
      by (simp add: handler_outcome_def)
    with ys show ?thesis
      by (blast intro: outcome_trace.Handler)
  next
    case False
    with ys step.hyps(2) show ?thesis
      by (blast intro: outcome_trace.Other)
  qed
qed

lemma writer_tasks: "msg_writer_step E s = (st, s') \<Longrightarrow> request_tasks s' = request_tasks s"
  by (erule msg_writer_step_cases) simp_all

lemma step_replying:
  assumes lib: "library_ok E buffered opened incoming outgoing"
    and closing: "closing_stream (st_ops E)" and shut: "shut_ok E (ses c)" and step: "session_step E c c'"
    and quiet: "\<forall>x. \<not> handler_starts E c x c'" and "Replying h r \<in> set (request_tasks (ses c'))"
  shows "Replying h r \<in> set (request_tasks (ses c))"
proof (cases "\<exists>st. msg_writer_step E (ses c) = (st, ses c')")
  case True
  with assms(6) writer_tasks show ?thesis
    by force
next
  case False
  with step_books [OF lib closing shut step quiet] assms(6) show ?thesis
    by (auto simp: books_def)
qed

lemma handler_replying:
  assumes "handler_outcome E c x rsp c'" and "Replying h r \<in> set (request_tasks (ses c'))"
  shows "Replying h r \<in> set (request_tasks (ses c)) \<or> h = fst x \<and> r = rsp"
proof -
  obtain i s' a' where i: "i < length (request_tasks (ses c))" "request_tasks (ses c) ! i = Spawned (fst x) (snd x)"
    and step: "request_task_step E i (ses c) (app_state c) = (s', a')" "c' = c\<lparr>ses := s', app_state := a'\<rparr>"
    using assms(1) by (auto simp: handler_outcome_def handler_starts_def)
  obtain t s1 a1 where run: "run_handler E (fst x) (snd x) (ses c) (app_state c) = (t, s1, a1)"
    by (metis prod.exhaust)
  have "request_tasks (ses c') = (request_tasks (ses c))[i := Replying (fst x) rsp]"
    using assms(1) step i run run_handler_fields [OF run] by (auto simp: handler_outcome_def request_task_step_def)
  with assms(2) show ?thesis
    using set_update_subset_insert [of "request_tasks (ses c)" i] by auto
qed

lemma trace_replying:
  assumes "library_ok E buffered opened incoming outgoing" and "closing_stream (st_ops E)" and "shut_ok E (ses c)"
    and "request_tasks (ses c) = []" and "outcome_trace E c ys c'" and "Replying h r \<in> set (request_tasks (ses c'))"
  shows "\<exists>b. ((h, b), r) \<in> set ys"
  using assms(5,6)
proof (induction arbitrary: h r rule: outcome_trace.induct)
  case Start
  with assms(4) show ?case by simp
next
  case (Handler ys c' x rsp c'')
  from handler_replying [OF Handler.hyps(2) Handler.prems] Handler.IH show ?case
    by (cases x) auto
next
  case (Other ys c' c'')
  have "shut_ok E (ses c')"
    by (rule shut_run [OF trace_is_run [OF outcome_trace_session [OF Other.hyps(1)]] assms(3)])
  from step_replying [OF assms(1,2) this Other.hyps(2,3) Other.prems] Other.IH show ?case
    by blast
qed

text \<open>Every response on the wire is what a recorded handler run produced.\<close>

definition results_of :: "(invocation \<times> buffer_type option) list \<Rightarrow> write_item list \<Rightarrow> bool" where
  "results_of ys items \<longleftrightarrow> (\<forall>i \<in> set items. frame_type i = Some response \<longrightarrow>
     (\<exists>h buf b. ((h, buf), Some b) \<in> set ys \<and> i = reply_item response h b))"

lemma results_of_mono: "results_of ys items \<Longrightarrow> set ys \<subseteq> set ys' \<Longrightarrow> results_of ys' items"
  unfolding results_of_def by blast

lemma step_results:
  assumes lib: "library_ok E buffered opened incoming outgoing" and "closing_stream (st_ops E)" and "shut_ok E (ses c)"
    and "request_tasks (ses c) = []" and trace: "outcome_trace E c ys c'"
    and step: "session_step E c' c''" and on: "writer_on c''"
    and i: "list_all good_item i" "results_of ys i"
      "wire E buffered outgoing (ses c') = wire E buffered outgoing (ses c) @ concat (map (frame_bytes (env_plat E)) i)"
  shows "\<exists>items. list_all good_item items \<and> results_of ys items
    \<and> wire E buffered outgoing (ses c'') =
        wire E buffered outgoing (ses c) @ concat (map (frame_bytes (env_plat E)) items)"
proof -
  have "shut_ok E (ses c')"
    by (rule shut_run [OF trace_is_run [OF outcome_trace_session [OF trace]] assms(3)])
  from step_owed [OF assms(1,2) this step on] obtain j where j: "list_all good_item j"
    "wire E buffered outgoing (ses c'') = wire E buffered outgoing (ses c') @ concat (map (frame_bytes (env_plat E)) j)"
    "responses_ready (request_tasks (ses c')) j"
    by (auto simp: issues_def)
  have "results_of ys j"
    using j(3) trace_replying [OF assms(1-4) trace] unfolding responses_ready_def results_of_def by blast
  with i j(1,2) show ?thesis
    by (intro exI [of _ "i @ j"]) (auto simp: results_of_def)
qed

lemma trace_results:
  assumes "library_ok E buffered opened incoming outgoing" and "closing_stream (st_ops E)" and "shut_ok E (ses c)"
    and "request_tasks (ses c) = []" and "outcome_trace E c ys c'" and "writer_on c'"
  shows "\<exists>items. list_all good_item items \<and> results_of ys items
    \<and> wire E buffered outgoing (ses c') =
        wire E buffered outgoing (ses c) @ concat (map (frame_bytes (env_plat E)) items)"
  using assms(5,6)
proof (induction rule: outcome_trace.induct)
  case Start
  show ?case
    by (intro exI [of _ "[]"]) (simp add: results_of_def)
next
  case (Handler ys c' x rsp c'')
  then have step: "session_step E c' c''"
    by (auto simp: handler_outcome_def dest: handler_starts_step)
  then have "writer_on c'"
    using Handler.prems by (cases rule: session_step.cases) auto
  with Handler.IH obtain i where "list_all good_item i" "results_of ys i"
    "wire E buffered outgoing (ses c') = wire E buffered outgoing (ses c) @ concat (map (frame_bytes (env_plat E)) i)"
    by blast
  from step_results [OF assms(1-4) Handler.hyps(1) step Handler.prems this] obtain items
    where "list_all good_item items" "results_of ys items"
      "wire E buffered outgoing (ses c'') = wire E buffered outgoing (ses c) @ concat (map (frame_bytes (env_plat E)) items)"
    by blast
  then show ?case
    by (intro exI [of _ items]) (auto intro: results_of_mono)
next
  case (Other ys c' c'')
  then have "writer_on c'"
    by (auto elim: session_step.cases)
  with Other.IH step_results [OF assms(1-4) Other.hyps(1,2) Other.prems] show ?case
    by blast
qed

section \<open>The calling end\<close>

text \<open>
  How a session changes its table of pending calls. A completion without an error is one that \<open>R\<close>
  admits for the token.
\<close>

inductive mgr_move ::
    "'rc rsp_ops \<Rightarrow> (u64 \<Rightarrow> buffer_type \<Rightarrow> bool) \<Rightarrow> 'rc async_manager \<Rightarrow> 'rc async_manager \<Rightarrow> bool"
  for C :: "'rc rsp_ops" and R where
  Complete: "ec = None \<longrightarrow> R tok body \<Longrightarrow> mgr_move C R m (snd (complete_operation C tok ec body m))"
| Cancel_all: "mgr_move C R m (cancel_all_operations C m)"
| Create: "token_room m \<Longrightarrow> mgr_move C R m (snd (create_operation C m))"
| Cancel: "mgr_move C R m (m\<lparr>chan_heap := (chan_heap m)(ch := ch_cancel C (chan_heap m ch))\<rparr>)"
| Receive: "ch_async_receive C (chan_heap m ch) = Some (r, c) \<Longrightarrow>
    mgr_move C R m (m\<lparr>chan_heap := (chan_heap m)(ch := c)\<rparr>)"

abbreviation mgr_moves where "mgr_moves C R \<equiv> (mgr_move C R)\<^sup>*\<^sup>*"

lemma move_moves: "mgr_move C R m m' \<Longrightarrow> mgr_moves C R m m'"
  by (rule r_into_rtranclp)

lemma close_moves: "mgr_moves (rc_ops E) R (async_mgr s) (async_mgr (close E s))"
  by (auto simp: close_def Let_def intro: mgr_move.Cancel_all)

lemma moves_close: "mgr_moves (rc_ops E) R m (async_mgr s) \<Longrightarrow> mgr_moves (rc_ops E) R m (async_mgr (close E s))"
  by (rule rtranclp_trans [OF _ close_moves])

lemma reader_continue_moves:
  "mgr_moves (rc_ops E) R m (async_mgr (snd rs)) \<Longrightarrow> mgr_moves (rc_ops E) R m (async_mgr (snd (reader_continue E rs)))"
  by (cases rs rule: result_pair_cases) (simp_all add: reader_continue_def reader_catch_def moves_close del: append.simps)

lemma deadline_read_mgr: "deadline_read E n t s = (r, s') \<Longrightarrow> async_mgr s' = async_mgr s"
  using deadline_read_fields(1) [of E n t s] by simp

lemma run_complete_moves:
  assumes "ec = None \<longrightarrow> R tok body"
  shows "mgr_moves (rc_ops E) R m (async_mgr (snd (run_complete (complete_operation (rc_ops E) tok ec body m) s)))"
proof -
  have "mgr_move (rc_ops E) R m (snd (complete_operation (rc_ops E) tok ec body m))"
    by (rule mgr_move.Complete) (rule assms)
  then show ?thesis
    by (cases "complete_operation (rc_ops E) tok ec body m") (auto simp: run_complete_def split: sum.split)
qed

lemma respond_mgr: "respond E mt h b s = (r, s') \<Longrightarrow> async_mgr s' = async_mgr s"
  using respond_fields(2) [of E mt h b s] by simp

lemma try_write_manager: "try_write E h b s = (ok, s') \<Longrightarrow> async_mgr s' = async_mgr s"
  using try_write_fields(2) [of E h b s] by simp

lemma dispatch_request_moves: "mgr_moves (rc_ops E) R (async_mgr s) (async_mgr (snd (dispatch_request E now h s)))"
  by (auto simp: dispatch_request_def Let_def moves_close dest: deadline_read_mgr respond_mgr
      split: prod.split sum.split simp del: append.simps)

lemma handle_notification_moves: "mgr_moves (rc_ops E) R (async_mgr s) (async_mgr (snd (handle_notification E h s)))"
  by (auto simp: handle_notification_def Let_def moves_close dest: deadline_read_mgr
      split: prod.split sum.split simp del: append.simps)

lemma handle_error_moves: "mgr_moves (rc_ops E) R (async_mgr s) (async_mgr (snd (handle_error E h s)))"
proof -
  let ?s0 = "log_error_async ''Received error message'' s"
  have fin: "mgr_moves (rc_ops E) R (async_mgr s) (async_mgr (snd (run_complete (complete_operation_with_error (rc_ops E)
      (h ! 4) invalid_argument_ec (async_mgr s1)) s1)))" if "async_mgr s1 = async_mgr s" for s1
    using run_complete_moves [of "Some invalid_argument_ec" R "h ! 4" "[]" E "async_mgr s" s1] that
    by (simp add: complete_operation_with_error_def)
  show ?thesis
  proof (cases "deadline_read E (unat (h ! 1)) (message_read_timeout (limits ?s0)) ?s0" rule: result_pair_cases)
    case (Throw e s1)
    with deadline_read_mgr [OF Throw] fin [of ?s0] show ?thesis
      by (simp add: handle_error_def Let_def moves_close)
  next
    case (Value body s1)
    with deadline_read_mgr [OF Value] fin [of s1] fin [of ?s0] show ?thesis
      by (simp add: handle_error_def Let_def moves_close)
  qed
qed

lemma handle_response_moves:
  assumes lib: "library_ok E buffered opened incoming outgoing"
    and "\<And>body rest. \<not> h ! 1 > max_message_bytes (limits s) \<Longrightarrow> length body = unat (h ! 1) \<Longrightarrow>
           incoming (stream s) = body @ rest \<Longrightarrow> R (h ! 4) body"
  shows "mgr_moves (rc_ops E) R (async_mgr s) (async_mgr (snd (handle_response E h s)))"
proof (cases "h ! 1 > max_message_bytes (limits s)")
  case True
  then show ?thesis
    by (simp add: handle_response_def Let_def moves_close del: append.simps)
next
  case False
  show ?thesis
  proof (cases "deadline_read E (unat (h ! 1)) (message_read_timeout (limits s)) s" rule: result_pair_cases)
    case (Throw e s1)
    with False deadline_read_mgr [OF Throw] show ?thesis
      by (simp add: handle_response_def Let_def)
  next
    case (Value body s1)
    have "R (h ! 4) body"
      using assms(2) [OF False deadline_read_bytes(1,2) [OF lib Value]] .
    with False Value deadline_read_mgr [OF Value] run_complete_moves [of None R "h ! 4" body E "async_mgr s" s1] show ?thesis
      by (simp add: handle_response_def complete_operation_ok_def Let_def)
  qed
qed

text \<open>The results the unread frames may still bring to a token.\<close>

definition brings :: "write_item list \<Rightarrow> u64 \<Rightarrow> buffer_type \<Rightarrow> bool" where
  "brings items tok body \<longleftrightarrow>
     (\<exists>i \<in> set items. frame_type i = Some response \<and> wi_header i ! USER_TOKEN_IDX = tok \<and> wi_body i = body
        \<and> length body = unat (wi_header i ! MSG_SIZE_IDX))"

lemma brings_mono: "brings items tok body \<Longrightarrow> set items \<subseteq> set items' \<Longrightarrow> brings items' tok body"
  unfolding brings_def by blast

lemma mgr_moves_mono: "mgr_moves C R m m' \<Longrightarrow> (\<And>tok b. R tok b \<Longrightarrow> R' tok b) \<Longrightarrow> mgr_moves C R' m m'"
proof (induction rule: rtranclp_induct)
  case (step m' m'')
  from step.hyps(2) have "mgr_move C R' m' m''"
    by (cases rule: mgr_move.cases) (auto intro: mgr_move.intros step.prems)
  with step.IH [OF step.prems] show ?case
    by simp
qed simp

lemma reader_moves:
  assumes lib: "library_ok E buffered opened incoming outgoing"
    and closing: "closing_stream (st_ops E)" and shut: "shut_ok E s" and step: "msg_reader_step E now s = (st, s')"
  shows "mgr_moves (rc_ops E) (brings (unread E incoming s)) (async_mgr s) (async_mgr s')"
proof (cases "deadline_read E 40 (idle_timeout (limits s)) s" rule: result_pair_cases)
  case (Throw e s1)
  with deadline_read_mgr [OF Throw] step show ?thesis
    by (auto simp: msg_reader_step_def reader_catch_def moves_close simp del: append.simps)
next
  case (Value bs s1)
  let ?h = "header_of_bytes (env_plat E) 5 bs" and ?R = "brings (unread E incoming s)"
  note bytes = deadline_read_bytes [OF lib Value] and same = deadline_read_same [OF Value]
  have s1: "async_mgr s1 = async_mgr s"
    by (rule deadline_read_mgr [OF Value])
  have open': "\<not> is_closed s"
    by (rule header_read_open [OF closing shut Value])
  have frame: "msg_reader_frame E now ?h s1 = (st, s')"
    using step Value by (simp add: msg_reader_step_def)
  show ?thesis
  proof (cases "?h ! 0 = MAGIC_HEADER_NUMBER \<and> to_msg_type (?h ! 2) \<noteq> None")
    case False
    with violation_frame [of ?h E now s1] frame s1 show ?thesis
      by (auto simp: moves_close)
  next
    case True
    then obtain mt where mt: "?h ! 0 = MAGIC_HEADER_NUMBER" "to_msg_type (?h ! 2) = Some mt"
      by auto
    have resp: "mgr_moves (rc_ops E) ?R (async_mgr s1) (async_mgr (snd (handle_response E ?h s1)))" if "mt = response"
    proof (rule handle_response_moves [OF lib])
      fix body rest
      assume "\<not> ?h ! 1 > max_message_bytes (limits s1)" and body: "length body = unat (?h ! 1)"
        and "incoming (stream s1) = body @ rest"
      then have "\<lparr>wi_header = ?h, wi_body = body\<rparr> \<in> set (unread E incoming s)"
        using frames_header(3) [OF bytes(1) refl mt, of "max_message_bytes (limits s)" body rest] bytes(2) open' that same(3)
        by (simp add: unread_def body_size_def)
      then show "?R (?h ! 4) body"
        using mt(2) that body by (force simp: brings_def frame_type_def)
    qed
    note moves = reader_continue_moves [of E ?R "async_mgr s1"]
    show ?thesis
    proof (cases mt)
      case request
      with frame mt moves [OF dispatch_request_moves [of E ?R s1 now ?h]] s1 show ?thesis
        by (simp add: msg_reader_frame_def)
    next
      case response
      with frame mt moves [OF resp] s1 show ?thesis
        by (simp add: msg_reader_frame_def)
    next
      case notification
      with frame mt moves [OF handle_notification_moves [of E ?R s1 ?h]] s1 show ?thesis
        by (simp add: msg_reader_frame_def)
    next
      case error
      with frame mt moves [OF handle_error_moves [of E ?R s1 ?h]] s1 show ?thesis
        by (simp add: msg_reader_frame_def)
    qed (use frame mt s1 in \<open>auto simp: msg_reader_frame_def\<close>)
  qed
qed

lemma step_moves:
  assumes lib: "library_ok E buffered opened incoming outgoing"
    and closing: "closing_stream (st_ops E)" and shut: "shut_ok E (ses c)" and step: "session_step E c c'"
  shows "mgr_moves (rc_ops E) (brings (unread E incoming (ses c))) (async_mgr (ses c)) (async_mgr (ses c'))"
    and "set (unread E incoming (ses c')) \<subseteq> set (unread E incoming (ses c))"
proof -
  have create: "mgr_move (rc_ops E) R m m'" if "token_room m" "create_operation (rc_ops E) m = (x, m')" for R m x m'
    using mgr_move.Create [OF that(1), of "rc_ops E" R] that(2) by simp
  from step show "mgr_moves (rc_ops E) (brings (unread E incoming (ses c))) (async_mgr (ses c)) (async_mgr (ses c'))"
  proof (cases rule: session_step.cases)
    case (Reader now st s')
    with reader_moves [OF lib closing shut] show ?thesis by simp
  next
    case (Writer st s')
    from Writer(3) have "mgr_moves (rc_ops E) (brings (unread E incoming (ses c))) (async_mgr (ses c)) (async_mgr s')"
      by (cases rule: msg_writer_step_cases) (simp_all add: moves_close)
    with Writer(1) show ?thesis by simp
  next
    case (Task i s' a')
    have "async_mgr s' = async_mgr (ses c)"
      using Task(3) run_handler_fields(4)
      by (auto simp: request_task_step_def send_reply_def send_error_reply_def dest: respond_mgr
          split: request_task.splits option.splits prod.splits sum.splits)
    with Task(1) show ?thesis by simp
  next
    case (Strand s' a')
    with notification_step_fields(4) [OF Strand(2)] show ?thesis by simp
  next
    case (Call name req r s')
    obtain x m where m: "create_operation (rc_ops E) (async_mgr (ses c)) = (x, m)"
      by (metis prod.exhaust)
    have "async_mgr s' = m"
      using Call(3) m by (auto simp: call_begin_def Let_def dest: queue_write_manager split: prod.splits sum.splits)
    with create [OF Call(2) m] Call(1) show ?thesis by auto
  next
    case (Timer ch fin b s')
    then show ?thesis
      by (auto simp: call_timer_fired_def Let_def intro: move_moves [OF mgr_move.Cancel] split: if_splits)
  next
    case (Receive name b ch r s')
    then show ?thesis
      by (auto simp: call_receive_def Let_def intro: move_moves [OF mgr_move.Receive] split: option.splits if_splits)
  next
    case (Notify name buf r s')
    with queue_write_manager [OF Notify(2) [unfolded notify_def]] show ?thesis by simp
  next
    case (Try_notify name buf b s')
    with try_write_manager [OF Try_notify(2) [unfolded try_notify_def]] show ?thesis by simp
  next
    case (Try_ping b s')
    with try_write_manager [OF Try_ping(2) [unfolded try_ping_def]] show ?thesis by simp
  next
    case Close
    with close_moves show ?thesis by simp
  next
    case (Elsewhere a)
    then show ?thesis by simp
  qed
  show "set (unread E incoming (ses c')) \<subseteq> set (unread E incoming (ses c))"
  proof (cases "\<exists>st. msg_writer_step E (ses c) = (st, ses c')")
    case True
    with writer_ledger(3) [OF lib] show ?thesis by blast
  next
    case False
    have "\<exists>xs. books E buffered incoming (ses c) xs (ses c')"
      using step_books [OF lib closing shut step] handler_starts_books [OF lib] False by blast
    then show ?thesis
      by (auto simp: books_def)
  qed
qed

text \<open>
  The channel of a call: nothing but the call's token leads to it, and what lies in it without an
  error is what \<open>R\<close> admits for that token.
\<close>

definition holds_only ::
    "('rc \<Rightarrow> op_result list) \<Rightarrow> (u64 \<Rightarrow> buffer_type \<Rightarrow> bool) \<Rightarrow> u64 \<Rightarrow> nat \<Rightarrow> 'rc async_manager \<Rightarrow> bool" where
  "holds_only rbuf R tok ch m \<longleftrightarrow> manager_ok m \<and> ch < chan_count m
     \<and> (\<forall>t. um_find (channels m) t = Some ch \<longrightarrow> t = tok)
     \<and> (\<forall>b. (None, b) \<in> set (rbuf (chan_heap m ch)) \<longrightarrow> R tok b)"

lemma holds_only_complete:
  assumes fifo: "fifo_channel C rbuf ropen" and m: "holds_only rbuf R tok ch m" and "ec = None \<longrightarrow> R t body"
  shows "holds_only rbuf R tok ch (snd (complete_operation C t ec body m))"
proof -
  obtain r m' where m': "complete_operation C t ec body m = (r, m')"
    by force
  note f = complete_operation_frame [OF m']
  have "R tok b" if "(None, b) \<in> set (rbuf (chan_heap m' ch))" for b
  proof (cases "um_find (channels m) t = Some ch")
    case True
    then have "t = tok"
      using m by (simp add: holds_only_def)
    obtain sec c where send: "ch_async_send C (ec, body) (chan_heap m ch) = (sec, c)"
      by force
    have "chan_heap m' ch = c"
      using m' True send by (auto simp: complete_operation_def Let_def split: option.splits)
    with fifo_async_send [OF fifo send] that m assms(3) \<open>t = tok\<close> show ?thesis
      by (auto simp: holds_only_def split: if_splits)
  next
    case False
    with f(4) [of ch] that m show ?thesis
      by (simp add: holds_only_def)
  qed
  with m complete_operation_keeps_ok [OF _ m'] show ?thesis
    by (auto simp: holds_only_def m' f split: if_splits)
qed

lemma holds_only_move:
  assumes fifo: "fifo_channel C rbuf ropen" and "mgr_move C R m m'" and m: "holds_only rbuf R tok ch m"
  shows "holds_only rbuf R tok ch m'"
  using assms(2)
proof (cases rule: mgr_move.cases)
  case (Complete ec t body)
  with holds_only_complete [OF fifo m] show ?thesis by simp
next
  case Cancel_all
  with m show ?thesis
    by (auto simp: holds_only_def cancel_all_ok) (auto simp: cancel_all_operations_def Let_def cancel_channels_buffered [OF fifo])
next
  case Create
  have "manager_ok (snd (create_operation C m))"
    using create_operation_ok [OF _ Create(2)] m by (metis holds_only_def surjective_pairing)
  with m Create show ?thesis
    by (auto simp: holds_only_def create_operation_eq)
next
  case (Cancel ch')
  with m fifo_cancel [OF fifo] show ?thesis
    by (auto simp: holds_only_def manager_ok_def)
next
  case (Receive ch' r c)
  have "set (rbuf c) \<subseteq> set (rbuf (chan_heap m ch'))"
    using fifo_receive [OF fifo, of "chan_heap m ch'" _ c] fifo_receive_error [OF fifo, of "chan_heap m ch'" _ c] Receive(2)
    by (cases r) auto
  with m Receive show ?thesis
    by (auto simp: holds_only_def manager_ok_def)
qed

lemma run_holds_only:
  assumes lib: "library_ok E buffered opened incoming outgoing" and fifo: "fifo_channel (rc_ops E) rbuf ropen"
    and closing: "closing_stream (st_ops E)" and shut: "shut_ok E (ses c)" and "(session_step E)\<^sup>*\<^sup>* c c'"
    and "holds_only rbuf (brings (unread E incoming (ses c))) tok ch (async_mgr (ses c))"
  shows "holds_only rbuf (brings (unread E incoming (ses c))) tok ch (async_mgr (ses c'))
    \<and> set (unread E incoming (ses c')) \<subseteq> set (unread E incoming (ses c))"
  using assms(5)
proof (induction rule: rtranclp_induct)
  case base
  with assms(6) show ?case by simp
next
  case (step c' c'')
  let ?R = "brings (unread E incoming (ses c))"
  note moves = step_moves [OF lib closing shut_run [OF step.hyps(1) shut] step.hyps(2)]
  have "mgr_moves (rc_ops E) ?R (async_mgr (ses c')) (async_mgr (ses c''))"
    by (rule mgr_moves_mono [OF moves(1)]) (use step.IH in \<open>auto intro: brings_mono\<close>)
  then have "holds_only rbuf ?R tok ch (async_mgr (ses c''))"
    by (induction rule: rtranclp_induct) (use step.IH holds_only_move [OF fifo] in auto)
  with moves(2) step.IH show ?case
    by auto
qed

lemma call_begin_holds:
  assumes fifo: "fifo_channel (rc_ops E) rbuf ropen" and "manager_ok (async_mgr s)" and "token_room (async_mgr s)"
    and "call_begin E name req s = (Inr (tok, ch), s1)"
  shows "holds_only rbuf R tok ch (async_mgr s1)" and "tok = next_token (async_mgr s)"
    and "unread E incoming s1 = unread E incoming s"
proof -
  obtain m where m: "create_operation (rc_ops E) (async_mgr s) = ((tok, ch), m)" "async_mgr s1 = m"
    and s1: "is_closed s1 = is_closed s" "stream s1 = stream s" "limits s1 = limits s"
    using assms(4) by (auto simp: call_begin_def queue_write_def Let_def split: prod.splits sum.splits option.splits)
  have ok: "manager_ok m"
    by (rule create_operation_ok [OF assms(2,3) m(1)])
  show "tok = next_token (async_mgr s)"
    using m(1) by (simp add: create_operation_eq)
  show "unread E incoming s1 = unread E incoming s"
    by (simp add: unread_def s1)
  have "um_find (channels m) tok = Some ch"
    by (rule create_operation_registers [OF m(1)])
  then have "\<forall>t. um_find (channels m) t = Some ch \<longrightarrow> t = tok" and "ch < chan_count m"
    using ok by (auto simp: manager_ok_def inj_on_def dom_def)
  moreover have "rbuf (chan_heap m ch) = []"
    using m(1) fifo_make [OF fifo] by (auto simp: create_operation_eq)
  ultimately show "holds_only rbuf R tok ch (async_mgr s1)"
    using ok by (simp add: holds_only_def m(2))
qed

text \<open>A call that returns a result returns the body of a response frame with its token.\<close>

lemma call_result_brought:
  assumes lib: "library_ok E buffered opened incoming outgoing" and fifo: "fifo_channel (rc_ops E) rbuf ropen"
    and closing: "closing_stream (st_ops E)" and shut: "shut_ok E (ses c)"
    and "manager_ok (async_mgr (ses c))" and "token_room (async_mgr (ses c))"
    and call: "call_begin E name req (ses c) = (Inr (tok, ch), s1)"
    and run: "(session_step E)\<^sup>*\<^sup>* (c\<lparr>ses := s1\<rparr>) c'"
    and ret: "call_receive E name False ch (ses c') = Some (Inr body, s')"
  shows "brings (unread E incoming (ses c)) tok body"
proof -
  note begun = call_begin_holds [OF fifo assms(5,6) call]
  have "shut_ok E s1"
    using shut.keeps_call_begin [OF shut assms(6), of name req] by (simp add: call)
  then have "holds_only rbuf (brings (unread E incoming s1)) tok ch (async_mgr (ses c'))"
    using run_holds_only [OF lib fifo closing _ run, of tok ch] begun(1) by simp
  moreover have "\<exists>c2. ch_async_receive (rc_ops E) (chan_heap (async_mgr (ses c')) ch) = Some (Inr (None, body), c2)"
    using ret by (auto simp: call_receive_def call_finish_def Let_def split: option.splits sum.splits prod.splits if_splits)
  then have "(None, body) \<in> set (rbuf (chan_heap (async_mgr (ses c')) ch))"
    using fifo_receive [OF fifo] by fastforce
  ultimately show ?thesis
    using begun(3) by (simp add: holds_only_def)
qed

section \<open>Both ends\<close>

lemma frames_injective:
  assumes "list_all wire_item xs" and "list_all wire_item ys"
    and "concat (map (frame_bytes P) xs) = concat (map (frame_bytes P) ys)"
  shows "xs = ys"
proof -
  have "frames P (- 1) (concat (map (frame_bytes P) zs)) = zs" if "list_all wire_item zs" for zs
  proof -
    have "\<forall>item \<in> set zs. length (wi_body item) \<le> unat (- 1 :: u64)"
      using that by (auto simp: list_all_iff wire_item_def unsigned_minus_1_eq_mask mask_eq_exp_minus_1)
    from frames_roundtrip [OF that this, of P "[]"] show ?thesis
      by (simp add: frames_short)
  qed
  from this [OF assms(1)] this [OF assms(2)] show ?thesis
    unfolding assms(3) by (rule trans [OF sym])
qed

text \<open>The frames that can be cut from framed items are those items, or the header of one over the limit.\<close>

lemma frames_members:
  assumes "list_all wire_item items" and "i \<in> set (frames P maxsz (concat (map (frame_bytes P) items)))"
  shows "i \<in> set items \<or> (\<exists>j \<in> set items. i = j\<lparr>wi_body := []\<rparr> \<and> length (wi_body j) > 0)"
  using assms
proof (induction items)
  case Nil
  then show ?case by (simp add: frames_short)
next
  case (Cons item items)
  show ?case
  proof (cases "length (wi_body item) > unat maxsz")
    case True
    with Cons.prems have "i = item\<lparr>wi_body := []\<rparr>"
      by (simp add: frames_cons)
    moreover have "length (wi_body item) > 0"
      using True by linarith
    ultimately show ?thesis
      by (intro disjI2 bexI [of _ item]) simp_all
  next
    case False
    with Cons show ?thesis
      by (auto simp: frames_cons)
  qed
qed

lemma frames_prefix_set: "prefix bs bs' \<Longrightarrow> set (frames P maxsz bs) \<subseteq> set (frames P maxsz bs')"
  by (auto simp only: prefix_def intro!: set_mono_prefix frames_prefix [unfolded prefix_def])

lemma brings_frames:
  assumes "list_all wire_item items" and "prefix bs (concat (map (frame_bytes P) items))"
    and "brings (frames P maxsz bs) tok body"
  shows "brings items tok body"
proof -
  obtain i where i: "i \<in> set (frames P maxsz bs)" "frame_type i = Some response" "wi_header i ! USER_TOKEN_IDX = tok"
    "wi_body i = body" "length body = unat (wi_header i ! MSG_SIZE_IDX)"
    using assms(3) by (auto simp: brings_def)
  have "i \<in> set (frames P maxsz (concat (map (frame_bytes P) items)))"
    using frames_prefix_set [OF assms(2)] i(1) by blast
  from frames_members [OF assms(1) this] have "i \<in> set items"
  proof
    assume "\<exists>j \<in> set items. i = j\<lparr>wi_body := []\<rparr> \<and> length (wi_body j) > 0"
    then obtain j where j: "j \<in> set items" "i = j\<lparr>wi_body := []\<rparr>" "length (wi_body j) > 0"
      by blast
    then have "unat (wi_header i ! MSG_SIZE_IDX) = length (wi_body j)"
      using wire_item_size [of j response] assms(1) i(2) by (auto simp: list_all_iff frame_type_def body_size_def)
    with i(4,5) j show ?thesis
      by auto
  qed
  with i show ?thesis
    unfolding brings_def by blast
qed

lemma results_bring:
  assumes "results_of ys items" and "brings items tok body"
  shows "\<exists>h buf. ((h, buf), Some body) \<in> set ys \<and> h ! USER_TOKEN_IDX = tok"
  using assms unfolding results_of_def brings_def reply_item_def by fastforce

lemma run_manager_ok:
  assumes "(session_step E)\<^sup>*\<^sup>* c c'" and "library_ok E buffered opened incoming outgoing"
    and "closing_stream (st_ops E)" and "shut_ok E (ses c)" and "manager_ok (async_mgr (ses c))"
  shows "manager_ok (async_mgr (ses c'))"
  using assms(1,5)
proof (induction rule: rtranclp_induct)
  case (step c' c'')
  have move: "manager_ok m'" if "mgr_move (rc_ops E) R m m'" "manager_ok m" for R m m'
    using that(1)
  proof (cases rule: mgr_move.cases)
    case (Complete ec t body)
    with complete_operation_keeps_ok [OF that(2)] show ?thesis
      by (metis surjective_pairing)
  next
    case Create
    with create_operation_ok [OF that(2)] show ?thesis
      by (metis surjective_pairing)
  next
    case Cancel_all
    with cancel_all_ok [OF that(2)] show ?thesis by simp
  qed (use that(2) in \<open>simp_all add: manager_ok_def\<close>)
  have "mgr_moves (rc_ops E) R m m' \<Longrightarrow> manager_ok m \<Longrightarrow> manager_ok m'" for R m m'
    by (induction rule: rtranclp_induct) (auto intro: move)
  then show ?case
    using step_moves(1) [OF assms(2,3) shut_run [OF step.hyps(1) assms(4)] step.hyps(2)] step.IH [OF step.prems]
    by blast
qed simp

text \<open>An end of a connection on which nothing has happened yet.\<close>

definition fresh_end ::
    "('st, 'wc, 'rc, 'v, 'app) session_env \<Rightarrow> ('wc \<Rightarrow> write_item list) \<Rightarrow> ('st \<Rightarrow> buffer_type) \<Rightarrow>
     ('st, 'wc, 'rc, 'app) running \<Rightarrow> bool" where
  "fresh_end E buffered outgoing c \<longleftrightarrow> shut_ok E (ses c) \<and> manager_ok (async_mgr (ses c))
     \<and> request_tasks (ses c) = [] \<and> wire E buffered outgoing (ses c) = []"

lemma call_begin_queues:
  assumes lib: "library_ok E buffered opened incoming outgoing"
    and "call_begin E name req s = (Inr (tok, ch), s1)"
  shows "buffered (write_channel s1) = buffered (write_channel s)
    @ [\<lparr>wi_header = make_header request (of_nat (length req)) (shash64 (env_plat E) name) tok, wi_body = req\<rparr>]"
proof -
  obtain t c m where m: "create_operation (rc_ops E) (async_mgr s) = ((t, c), m)"
    by (metis prod.exhaust)
  let ?h = "make_header request (of_nat (length req)) (shash64 (env_plat E) name) t"
  obtain ec wc where send: "ch_async_send (wc_ops E) \<lparr>wi_header = ?h, wi_body = req\<rparr> (write_channel s) = (ec, wc)"
    by force
  have "t = tok" "ec = None" "write_channel s1 = wc"
    using assms(2) m send by (auto simp: call_begin_def queue_write_def Let_def split: option.splits)
  with fifo_async_send [OF library_okD(1) [OF lib] send] show ?thesis
    by simp
qed

lemma call_begin_stream: "call_begin E name req s = (r, s1) \<Longrightarrow> stream s1 = stream s"
  by (auto simp: call_begin_def queue_write_def Let_def split: prod.splits sum.splits option.splits)

lemma writer_on_before: "(session_step E)\<^sup>*\<^sup>* c c' \<Longrightarrow> writer_on c' \<Longrightarrow> writer_on c"
  by (induction rule: rtranclp_induct) (auto elim: session_step.cases)

text \<open>Among the frames a session has put on the wire, a call that was begun is the only one with its token.\<close>

lemma run_calls:
  assumes lib: "library_ok C buffered opened incoming outgoing" and closing: "closing_stream (st_ops C)"
    and fresh: "fresh_end C buffered outgoing c0" and before: "(session_step C)\<^sup>*\<^sup>* c0 c"
    and room: "token_room (async_mgr (ses c))" and call: "call_begin C name req (ses c) = (Inr (tok, ch), s1)"
    and after: "(session_step C)\<^sup>*\<^sup>* (c\<lparr>ses := s1\<rparr>) c'" and on: "writer_on c'"
    and small: "length (wire C buffered outgoing (ses c')) < 2 ^ 64"
  shows "\<exists>items. list_all wire_item items
    \<and> wire C buffered outgoing (ses c') = concat (map (frame_bytes (env_plat C)) items)
    \<and> distinct (request_tokens items)
    \<and> \<lparr>wi_header = make_header request (of_nat (length req)) (shash64 (env_plat C) name) tok, wi_body = req\<rparr> \<in> set items"
proof -
  let ?P = "env_plat C" and ?w = "wire C buffered outgoing"
  let ?x = "\<lparr>wi_header = make_header request (of_nat (length req)) (shash64 ?P name) tok, wi_body = req\<rparr>"
  have shut: "shut_ok C (ses c0)" and empty: "?w (ses c0) = []"
    using fresh by (simp_all add: fresh_end_def)
  have step: "session_step C c (c\<lparr>ses := s1\<rparr>)"
    by (rule session_step.Call [OF room call])
  note upto = rtranclp.rtrancl_into_rtrancl [OF before step]
  have on1: "writer_on c"
    using writer_on_before [OF after on] by simp
  obtain i where i: "list_all good_item i" "?w (ses c) = concat (map (frame_bytes ?P) i)"
    using run_issues [OF lib closing shut before on1] empty by auto
  have x: "?w s1 = ?w (ses c) @ frame_bytes ?P ?x"
    using call_begin_queues [OF lib call] call_begin_stream [OF call] by (simp add: wire_def)
  obtain j where j: "list_all good_item j" "?w (ses c') = ?w s1 @ concat (map (frame_bytes ?P) j)"
    using run_issues [OF lib closing _ after on] shut_run [OF upto shut] by auto
  obtain items where items: "list_all good_item items" "?w (ses c') = concat (map (frame_bytes ?P) items)"
    "distinct (request_tokens items)"
    using run_issues [OF lib closing shut rtranclp_trans [OF upto after] on] empty by auto
  have "?w (ses c') = concat (map (frame_bytes ?P) (i @ ?x # j))"
    using i(2) x j(2) by simp
  moreover have "list_all good_item (i @ ?x # j)"
    using i(1) j(1) by simp
  ultimately have "items = i @ ?x # j"
    using wire_items [of items ?P] wire_items [of "i @ ?x # j" ?P] items(1,2) small
    by (intro frames_injective [of _ _ ?P]) simp_all
  with items wire_items [OF items(1), of ?P] small show ?thesis
    by (intro exI [of _ items]) simp
qed

text \<open>
  What a call returns is what its handler produced. Both ends run in any interleaving; each
  receives what the other put on the wire, or the first bytes of it. If a call returns a result, then
  the other end ran a handler on exactly the header and the arguments of this call, the result is the
  bytes this run produced, and no other run was on a request with this call's token.
\<close>

lemma returned_call_was_run:
  assumes caller: "library_ok C cbuf copen c_in c_out" "closing_stream (st_ops C)" "fifo_channel (rc_ops C) rbuf ropen"
      "fresh_end C cbuf c_out c0"
    and call: "(session_step C)\<^sup>*\<^sup>* c0 c" "token_room (async_mgr (ses c))"
      "call_begin C name req (ses c) = (Inr (tok, ch), s1)"
    and return: "(session_step C)\<^sup>*\<^sup>* (c\<lparr>ses := s1\<rparr>) c'" "writer_on c'"
      "call_receive C name False ch (ses c') = Some (Inr body, s')"
    and callee: "library_ok S sbuf sopen s_in s_out" "closing_stream (st_ops S)" "fresh_end S sbuf s_out d"
      "outcome_trace S d ys d'" "writer_on d'"
    and link: "env_plat S = env_plat C" "prefix (s_in (stream (ses d))) (wire C cbuf c_out (ses c'))"
      "prefix (c_in (stream (ses c0))) (wire S sbuf s_out (ses d'))"
    and small: "length (wire C cbuf c_out (ses c')) < 2 ^ 64" "length (wire S sbuf s_out (ses d')) < 2 ^ 64"
  shows "\<exists>i < length ys. ys ! i =
      ((make_header request (of_nat (length req)) (shash64 (env_plat C) name) tok, req), Some body)
    \<and> (\<forall>j < length ys. fst (fst (ys ! j)) ! USER_TOKEN_IDX = tok \<longrightarrow> j = i)"
proof -
  let ?P = "env_plat C" and ?token = "\<lambda>x :: invocation. fst x ! USER_TOKEN_IDX"
  let ?h = "make_header request (of_nat (length req)) (shash64 ?P name) tok"
  have c0: "shut_ok C (ses c0)" "manager_ok (async_mgr (ses c0))"
    and d: "shut_ok S (ses d)" "request_tasks (ses d) = []" "wire S sbuf s_out (ses d) = []"
    using caller(4) callee(3) by (simp_all add: fresh_end_def)
  obtain items where items: "list_all wire_item items" "wire C cbuf c_out (ses c') = concat (map (frame_bytes ?P) items)"
    "distinct (request_tokens items)" "\<lparr>wi_header = ?h, wi_body = req\<rparr> \<in> set items"
    using run_calls [OF caller(1,2,4) call return(1,2) small(1)] by blast
  have calls: "(?h, req) \<in> set (call_list items)"
    using items(4) by (force simp: call_list_def)
  have sub: "mset (map fst ys) \<subseteq># mset (call_list items)"
    using link(2) items(2)
    by (intro served_calls [OF callee(1,2) d(1) outcome_trace_session [OF callee(4)] d(2) items(1)]) (simp add: link(1))
  have dist: "distinct (map ?token (call_list items))"
    using items(3) by (simp only: call_list_tokens)
  obtain rs where rs: "list_all good_item rs" "results_of ys rs" "wire S sbuf s_out (ses d') = concat (map (frame_bytes ?P) rs)"
    using trace_results [OF callee(1,2) d(1,2) callee(4,5)] d(3) link(1) by auto
  have "list_all wire_item rs"
    using small(2) rs(3) by (intro wire_items [OF rs(1), of ?P]) simp
  moreover have "brings (unread C c_in (ses c0)) tok body"
  proof (rule brings_mono)
    show "brings (unread C c_in (ses c)) tok body"
      by (rule call_result_brought [OF caller(1,3,2) shut_run [OF call(1) c0(1)]
          run_manager_ok [OF call(1) caller(1,2) c0] call(2,3) return(1,3)])
    show "set (unread C c_in (ses c)) \<subseteq> set (unread C c_in (ses c0))"
      using call(1) by (induction rule: rtranclp_induct)
        (use step_moves(2) [OF caller(1,2) shut_run [OF _ c0(1)]] in blast)+
  qed
  then have "brings (frames ?P (max_message_bytes (limits (ses c0))) (c_in (stream (ses c0)))) tok body"
    by (rule brings_mono) (simp add: unread_def)
  ultimately have "brings rs tok body"
    using link(3) rs(3) brings_frames by fastforce
  from results_bring [OF rs(2) this] obtain h buf where y: "((h, buf), Some body) \<in> set ys" "h ! USER_TOKEN_IDX = tok"
    by blast
  have "(h, buf) \<in> set (call_list items)"
    using y(1) sub by (metis (no_types, lifting) fst_conv image_eqI list.set_map mset_subset_eqD set_mset_mset)
  with calls dist y(2) have hb: "(h, buf) = (?h, req)"
    by (intro inj_onD [of ?token "set (call_list items)"]) (auto simp: distinct_map)
  obtain i where i: "i < length ys" "ys ! i = ((h, buf), Some body)"
    using y(1) by (auto simp: in_set_conv_nth)
  have "distinct (map (\<lambda>y. ?token (fst y)) ys)"
    using mset_subset_distinct [OF sub dist] by (simp add: comp_def)
  then have "j = i" if "j < length ys" "?token (fst (ys ! j)) = tok" for j
    using nth_eq_iff_index_eq [of "map (\<lambda>y. ?token (fst y)) ys" j i] that i y(2) by simp
  with i hb show ?thesis
    by auto
qed

end
