(* ===== verification/Hosted_Sessions.thy ===== *)
theory Hosted_Sessions
  imports Server_Lifecycle Call_Results
begin

text \<open>
  A server and all its sessions at once: \<open>server.hpp\<close> over \<open>session.hpp\<close>. The accept loop, the
  handshakes, the strand, the notifications, \<open>stop\<close> and every session's coroutines, tasks and strands
  interleave, over one dispatcher and one application state. Two projections connect this system with
  the smaller ones: it is a run of the server's transition system, and what happens to one session is
  a run of that session alone, beside an application whose state changes.
\<close>

section \<open>State\<close>

text \<open>
  What is recorded of a session beside the program's own state: the object as \<open>dispatch_requests\<close>
  found it, the certificate of its handshake, and the handler runs so far with their outcomes.
\<close>

record ('st, 'wc, 'rc, 'app, 'cert) session_history =
  born :: "('st, 'wc, 'rc, 'app) session"
  certificate :: "'cert option"
  runs :: "(invocation \<times> buffer_type option) list"

record ('st, 'wc, 'rc, 'v, 'app, 'cert) hosting =
  srv :: "('st, 'wc, 'rc, 'v, 'app) server"
  host_app :: 'app
  readers :: "nat \<Rightarrow> bool"
  writers :: "nat \<Rightarrow> bool"
  history :: "nat \<Rightarrow> ('st, 'wc, 'rc, 'app, 'cert) session_history option"

definition new_host :: "('st, 'wc, 'rc, 'v, 'app) server \<Rightarrow> 'app \<Rightarrow> ('st, 'wc, 'rc, 'v, 'app, 'cert) hosting" where
  "new_host s a = \<lparr>srv = s, host_app = a, readers = (\<lambda>_. False), writers = (\<lambda>_. False), history = (\<lambda>_. None)\<rparr>"

text \<open>Every session dispatches through the server's method table.\<close>

definition served_env ::
    "('st, 'wc, 'rc, 'v, 'app) session_env \<Rightarrow> ('st, 'wc, 'rc, 'v, 'app) server \<Rightarrow> ('st, 'wc, 'rc, 'v, 'app) session_env" where
  "served_env E s = E\<lparr>session_dispatcher := server_dispatcher s\<rparr>"

definition session_at :: "nat \<Rightarrow> ('st, 'wc, 'rc, 'v, 'app, 'cert) hosting \<Rightarrow> ('st, 'wc, 'rc, 'app) running" where
  "session_at addr h =
     \<lparr>ses = session_objects (srv h) addr, app_state = host_app h, reader_on = readers h addr, writer_on = writers h addr\<rparr>"

definition put_session ::
    "nat \<Rightarrow> ('st, 'wc, 'rc, 'app) running \<Rightarrow> ('st, 'wc, 'rc, 'v, 'app, 'cert) hosting \<Rightarrow>
     ('st, 'wc, 'rc, 'v, 'app, 'cert) hosting" where
  "put_session addr c h =
     h\<lparr>srv := (srv h)\<lparr>session_objects := (session_objects (srv h))(addr := ses c)\<rparr>, host_app := app_state c,
       readers := (readers h)(addr := reader_on c), writers := (writers h)(addr := writer_on c)\<rparr>"

text \<open>
  A session object is kept alive by its \<open>dispatch_requests\<close>, by the session set, by a task of the
  server's strand and by its own detached work; the allocator reuses no address of a live object.
\<close>

fun strand_address :: "strand_task \<Rightarrow> nat" where
  "strand_address (Insert_session a) = a"
| "strand_address (Erase_session a) = a"

definition referenced :: "('st, 'wc, 'rc, 'v, 'app, 'cert) hosting \<Rightarrow> nat \<Rightarrow> bool" where
  "referenced h addr \<longleftrightarrow> addr \<in> set (dispatching (srv h)) \<or> addr \<in> set (active_sessions (srv h))
     \<or> addr \<in> strand_address ` set (strand_queue (srv h))
     \<or> history h addr \<noteq> None \<and> (request_tasks (session_objects (srv h) addr) \<noteq> []
          \<or> notification_strand (session_objects (srv h) addr) \<noteq> [])"

section \<open>Steps\<close>

datatype transport = Plain | Tls

fun accept_of :: "transport \<Rightarrow> 's accept_fun" where
  "accept_of Plain = tcp_accept_raw"
| "accept_of Tls = ssl_accept_raw"

text \<open>
  What the library reports while a connection is taken over: the socket and the memory of the new
  session, the race of handshake and timer, the peer's certificate, its endpoint (asked for again
  after the handshake), and the error of setting \<open>TCP_NODELAY\<close>.
\<close>

record ('st, 'rc, 'cert) handshake_report =
  hr_sock :: 'st
  hr_heap :: "nat \<Rightarrow> 'rc"
  hr_race :: handshake_race
  hr_cert :: "'cert option"
  hr_remote :: "endpoint option"
  hr_nodelay :: "error_code option"

fun handshake_of ::
    "transport \<Rightarrow> ('st, 'wc, 'rc, 'v, 'app) session_env \<Rightarrow> ('cert \<Rightarrow> u8 list option) \<Rightarrow> session_limits \<Rightarrow>
     ('st, 'rc, 'cert) handshake_report \<Rightarrow> ('st, 'wc, 'rc, 'app) session result" where
  "handshake_of Plain E digest lims r = tcp_handshake E (hr_heap r) lims (hr_remote r) (hr_sock r)"
| "handshake_of Tls E digest lims r =
     ssl_handshake E (hr_heap r) lims (hr_remote r) (hr_sock r) (hr_race r) (ssl_peer_fingerprint digest (hr_cert r))"

text \<open>
  The handshake coroutine at index \<open>i\<close> runs to its end. A session it makes starts to dispatch, which
  it does unless its socket is not open.
\<close>

definition finish_handshake ::
    "transport \<Rightarrow> ('st, 'wc, 'rc, 'v, 'app) session_env \<Rightarrow> ('cert \<Rightarrow> u8 list option) \<Rightarrow> nat \<Rightarrow> nat \<Rightarrow>
     ('st, 'rc, 'cert) handshake_report \<Rightarrow> ('st, 'wc, 'rc, 'v, 'app, 'cert) hosting \<Rightarrow>
     ('st, 'wc, 'rc, 'v, 'app, 'cert) hosting" where
  "finish_handshake T E digest i addr r h =
     (case handshake_of T (served_env E (srv h)) digest (server_session_limits (srv h)) r of
        Inl e \<Rightarrow>
          (let (s', a') = handshake_step i addr (Inl e) (srv h) (host_app h) in h\<lparr>srv := s', host_app := a'\<rparr>)
      | Inr sess \<Rightarrow>
          (let (go, sess') = dispatch_requests (served_env E (srv h)) (hr_nodelay r) sess;
               (s', a') = handshake_step i addr (Inr (Some sess')) (srv h) (host_app h)
           in h\<lparr>srv := s', host_app := a', readers := (readers h)(addr := go), writers := (writers h)(addr := go),
                history := (history h)(addr \<mapsto> \<lparr>born = sess', certificate = hr_cert r, runs = []\<rparr>)\<rparr>))"

definition finish_session ::
    "nat \<Rightarrow> ('st, 'wc, 'rc, 'v, 'app, 'cert) hosting \<Rightarrow> ('st, 'wc, 'rc, 'v, 'app, 'cert) hosting" where
  "finish_session addr h =
     (let (s', a') = session_done_step addr (srv h) (host_app h) in h\<lparr>srv := s', host_app := a'\<rparr>)"

definition record_run ::
    "nat \<Rightarrow> invocation \<times> buffer_type option \<Rightarrow> ('st, 'wc, 'rc, 'v, 'app, 'cert) hosting \<Rightarrow>
     ('st, 'wc, 'rc, 'v, 'app, 'cert) hosting" where
  "record_run addr y h = h\<lparr>history := (history h)(addr := map_option (\<lambda>k. k\<lparr>runs := runs k @ [y]\<rparr>) (history h addr))\<rparr>"

text \<open>One step of the server, of one of its sessions, or a call of the server's interface.\<close>

inductive host_step ::
    "transport \<Rightarrow> ('st, 'wc, 'rc, 'v, 'app) session_env \<Rightarrow> ('cert \<Rightarrow> u8 list option) \<Rightarrow>
     ('st, 'wc, 'rc, 'v, 'app, 'cert) hosting \<Rightarrow> ('st, 'wc, 'rc, 'v, 'app, 'cert) hosting \<Rightarrow> bool"
  for T :: transport and E :: "('st, 'wc, 'rc, 'v, 'app) session_env" and digest :: "'cert \<Rightarrow> u8 list option" where
  Accept: "host_step T E digest h (h\<lparr>srv := accept_step (accept_of T) now acc (Some ep) (srv h)\<rparr>)"
| Handshake: "i < length (handshaking (srv h)) \<Longrightarrow> hr_remote r \<in> {None, handshaking (srv h) ! i} \<Longrightarrow>
    \<not> referenced h addr \<Longrightarrow> host_step T E digest h (finish_handshake T E digest i addr r h)"
| Session_done: "addr \<in> set (dispatching (srv h)) \<Longrightarrow> \<not> readers h addr \<Longrightarrow> \<not> writers h addr \<Longrightarrow>
    host_step T E digest h (finish_session addr h)"
| Strand: "host_step T E digest h (h\<lparr>srv := strand_step (srv h)\<rparr>)"
| Notify_session: "host_step T E digest h (h\<lparr>srv := notify_session E target name ts vs (srv h)\<rparr>)"
| Notify_all: "host_step T E digest h (h\<lparr>srv := server_notify E name ts vs (srv h)\<rparr>)"
| Stop: "host_step T E digest h (h\<lparr>srv := stop_server E (srv h)\<rparr>)"
| Session: "referenced h addr \<Longrightarrow> history h addr \<noteq> None \<Longrightarrow>
    session_step (served_env E (srv h)) (session_at addr h) c \<Longrightarrow>
    \<forall>x. \<not> handler_starts (served_env E (srv h)) (session_at addr h) x c \<Longrightarrow>
    host_step T E digest h (put_session addr c h)"
| Handler: "referenced h addr \<Longrightarrow> history h addr \<noteq> None \<Longrightarrow>
    handler_outcome (served_env E (srv h)) (session_at addr h) x rsp c \<Longrightarrow>
    host_step T E digest h (record_run addr (x, rsp) (put_session addr c h))"

text \<open>A server that is about to accept its first connection.\<close>

definition ready_server :: "server_limits \<Rightarrow> ('st, 'wc, 'rc, 'v, 'app) server \<Rightarrow> bool" where
  "ready_server l s \<longleftrightarrow> server_ok s \<and> within_limits l s \<and> sane_limits l
     \<and> handshaking s = [] \<and> dispatching s = [] \<and> active_sessions s = [] \<and> strand_queue s = []"

section \<open>A session keeps its peer\<close>

definition same_peer :: "('st, 'wc, 'rc, 'app) session \<Rightarrow> ('st, 'wc, 'rc, 'app) session \<Rightarrow> bool" where
  "same_peer s s' \<longleftrightarrow> peer_fingerprint s' = peer_fingerprint s \<and> peer_address s' = peer_address s
     \<and> peer_ip s' = peer_ip s \<and> limits s' = limits s"

lemma same_peer_refl [simp]: "same_peer s s"
  by (simp add: same_peer_def)

lemma same_peer_trans [trans]: "same_peer s s' \<Longrightarrow> same_peer s' s'' \<Longrightarrow> same_peer s s''"
  by (simp add: same_peer_def)

lemma handlers_same_peer:
  "same_peer s (snd (dispatch_request E now h s))" "same_peer s (snd (handle_response E h s))"
  "same_peer s (snd (handle_notification E h s))" "same_peer s (snd (handle_error E h s))"
  by (simp_all add: same_peer_def dispatch_request_def handle_response_def handle_notification_def handle_error_def
      Let_def case_prod_beta split: sum.split)

lemma reader_same_peer: "same_peer s (snd (msg_reader_step E now s))"
proof -
  have continue: "same_peer s' (snd rs) \<Longrightarrow> same_peer s' (snd (reader_continue E rs))" for s' rs
    by (simp add: reader_continue_def same_peer_def case_prod_beta split: sum.split)
  have "same_peer s' (snd (msg_reader_frame E now h s'))" for s' h
    using handlers_same_peer [of s' E]
    by (simp add: msg_reader_frame_def continue split: option.split msg_type.split) (simp add: same_peer_def)
  moreover have "same_peer s (snd (deadline_read E n t s))" for n t
    by (simp add: same_peer_def)
  ultimately show ?thesis
    by (auto simp: msg_reader_step_def case_prod_beta intro: same_peer_trans split: sum.split)
       (simp_all add: same_peer_def)
qed

lemma writer_same_peer: "same_peer s (snd (msg_writer_step E s))"
  by (simp add: msg_writer_step_def same_peer_def split: option.split sum.split prod.split)

lemma apply_ctx_same_peer: "same_peer s (fold apply_ctx_action acts s)"
proof (induction acts arbitrary: s)
  case (Cons a acts)
  have "same_peer s (apply_ctx_action a s)"
    by (cases a) (simp_all add: same_peer_def)
  with Cons.IH [of "apply_ctx_action a s"] show ?case
    by (auto intro: same_peer_trans)
qed simp

lemma task_same_peer: "same_peer s (fst (request_task_step E i s a))"
proof (cases "request_tasks s ! i")
  case (Spawned h b)
  obtain acts where "same_peer s (fold apply_ctx_action acts s)" "fst (snd (run_handler E h b s a)) = fold apply_ctx_action acts s
      \<or> (\<exists>m. fst (snd (run_handler E h b s a)) = log_error_async m (fold apply_ctx_action acts s))"
    using apply_ctx_same_peer
    by (fastforce simp: run_handler_def log_dispatch_error_def Let_def case_prod_beta split: sum.splits)
  with Spawned show ?thesis
    by (auto simp: request_task_step_def case_prod_beta same_peer_def)
next
  case (Replying h rsp)
  then show ?thesis
    by (simp add: request_task_step_def send_reply_def send_error_reply_def log_dispatch_error_def same_peer_def
        case_prod_beta split: option.split sum.split)
qed

lemma step_same_peer:
  assumes "session_step E c c'"
  shows "same_peer (ses c) (ses c')"
  using assms
proof (cases rule: session_step.cases)
  case (Reader now st s')
  with reader_same_peer [of "ses c" E now] show ?thesis by simp
next
  case (Writer st s')
  with writer_same_peer [of "ses c" E] show ?thesis by simp
next
  case (Task i s' a')
  with task_same_peer [of "ses c" E i "app_state c"] show ?thesis by simp
next
  case (Strand s' a')
  then show ?thesis
    by (auto simp: notification_step_def run_notification_def same_peer_def Let_def
        split: list.splits prod.splits sum.splits option.splits)
next
  case (Call name req r s')
  then show ?thesis
    by (auto simp: call_begin_def queue_write_def same_peer_def Let_def split: prod.splits sum.splits option.splits)
next
  case (Timer ch fin b s')
  then show ?thesis
    by (auto simp: call_timer_fired_def same_peer_def Let_def split: if_splits)
next
  case (Receive name b ch r s')
  then show ?thesis
    by (auto simp: call_receive_def same_peer_def Let_def split: option.splits if_splits)
next
  case (Notify name buf r s')
  then show ?thesis
    by (auto simp: notify_def queue_write_def same_peer_def split: prod.splits option.splits)
next
  case (Try_notify name buf b s')
  then show ?thesis
    by (auto simp: try_notify_def try_write_def same_peer_def Let_def split: prod.splits)
next
  case (Try_ping b s')
  then show ?thesis
    by (auto simp: try_ping_def try_write_def same_peer_def Let_def split: prod.splits)
qed (simp_all add: same_peer_def)

section \<open>One session of many\<close>

lemma served_env_fields [simp]:
  "cereal (served_env E s) = cereal E" "st_ops (served_env E s) = st_ops E" "wc_ops (served_env E s) = wc_ops E"
  "rc_ops (served_env E s) = rc_ops E" "session_dispatcher (served_env E s) = server_dispatcher s"
  "library_ok (served_env E s) buffered opened incoming outgoing = library_ok E buffered opened incoming outgoing"
  by (simp_all add: served_env_def library_ok_def)

lemma served_owner_operations [simp]:
  "try_notify (served_env E s) = try_notify E" "close (served_env E s) = close E"
  by (intro ext; simp add: try_notify_def try_write_def close_def served_env_def)+

text \<open>A step of a session that starts no handler.\<close>

definition quiet_step ::
    "('st, 'wc, 'rc, 'v, 'app) session_env \<Rightarrow> ('st, 'wc, 'rc, 'app) running \<Rightarrow> ('st, 'wc, 'rc, 'app) running \<Rightarrow> bool" where
  "quiet_step E c c' \<longleftrightarrow> session_step E c c' \<and> request_tasks (ses c') = request_tasks (ses c)"

lemma handler_changes_tasks:
  assumes "handler_starts E c x c'"
  shows "request_tasks (ses c') \<noteq> request_tasks (ses c)"
proof
  assume same: "request_tasks (ses c') = request_tasks (ses c)"
  obtain i s' a' where i: "i < length (request_tasks (ses c))" "request_tasks (ses c) ! i = Spawned (fst x) (snd x)"
    "request_task_step E i (ses c) (app_state c) = (s', a')" "c' = c\<lparr>ses := s', app_state := a'\<rparr>"
    using assms by (auto simp: handler_starts_def)
  obtain t s1 a1 where run: "run_handler E (fst x) (snd x) (ses c) (app_state c) = (t, s1, a1)"
    by (metis prod.exhaust)
  then obtain rsp where t: "t = Replying (fst x) rsp"
    by (rule run_handler_outcome) auto
  have "request_tasks s1 = request_tasks (ses c)"
    using run_handler_fields [OF run] by simp
  then have "request_tasks (ses c') ! i = t"
    using i run by (auto simp: request_task_step_def)
  with same i(2) t show False
    by simp
qed

lemma outcome_trace_quiet:
  "outcome_trace E c ys c' \<Longrightarrow> (quiet_step E)\<^sup>*\<^sup>* c' c'' \<Longrightarrow> outcome_trace E c ys c''"
proof (rotate_tac, induction rule: rtranclp_induct)
  case (step y z)
  have "\<forall>x. \<not> handler_starts E y x z"
    using handler_changes_tasks step.hyps(2) unfolding quiet_step_def by blast
  with step show ?case
    unfolding quiet_step_def by (blast intro: outcome_trace.Other)
qed

lemma quiet_app: "quiet_step E c (c\<lparr>app_state := a\<rparr>)"
  by (simp add: quiet_step_def session_step.Elsewhere)

lemma quiet_try_notify: "quiet_step E c (c\<lparr>ses := snd (try_notify E name buf (ses c))\<rparr>)"
  unfolding quiet_step_def
  by (rule conjI, rule session_step.Try_notify [OF prod.collapse [symmetric]]) (simp add: try_notify_def)

lemma quiet_close: "quiet_step E c (c\<lparr>ses := close E (ses c)\<rparr>)"
  by (simp add: quiet_step_def session_step.Close)

lemma session_at_simps [simp]:
  "ses (session_at x h) = session_objects (srv h) x" "app_state (session_at x h) = host_app h"
  "reader_on (session_at x h) = readers h x" "writer_on (session_at x h) = writers h x"
  by (simp_all add: session_at_def)

lemma session_at_record_run [simp]: "session_at x (record_run addr y h) = session_at x h"
  by (simp add: session_at_def record_run_def)

lemma session_at_put:
  "session_at x (put_session addr c h) = (if x = addr then c else (session_at x h)\<lparr>app_state := app_state c\<rparr>)"
  by (simp add: session_at_def put_session_def)

text \<open>What the server's own steps do to the table, the limits and the sessions.\<close>

lemma accept_of_acceptor: "raw_acceptor (accept_of T)"
  by (cases T) (simp_all add: tcp_acc.raw_acceptor_axioms ssl_acc.raw_acceptor_axioms)

lemma accept_step_sessions:
  assumes "raw_acceptor A" and "s' = accept_step A now acc (Some ep) s"
  shows "session_objects s' = session_objects s" "server_dispatcher s' = server_dispatcher s"
    "server_session_limits s' = server_session_limits s" "dispatching s' = dispatching s"
    "active_sessions s' = active_sessions s" "strand_queue s' = strand_queue s"
proof -
  obtain b hf hs where "s' = s\<lparr>per_ip_accept_bucket := b, handshakes_in_flight := hf, handshaking := hs\<rparr>"
  proof (rule accept_step_cases [OF assms(1), of now acc ep s])
    fix b assume "accept_step A now acc (Some ep) s = s\<lparr>per_ip_accept_bucket := b\<rparr>"
    then have "s' = s\<lparr>per_ip_accept_bucket := b, handshakes_in_flight := handshakes_in_flight s, handshaking := handshaking s\<rparr>"
      using assms(2) by simp
    then show thesis by (rule that)
  next
    fix b assume "accept_step A now acc (Some ep) s = s\<lparr>per_ip_accept_bucket := b,
        handshakes_in_flight := handshakes_in_flight s + 1, handshaking := handshaking s @ [Some ep]\<rparr>"
    with assms(2) show thesis
      by (intro that) simp
  qed
  then show "session_objects s' = session_objects s" "server_dispatcher s' = server_dispatcher s"
    "server_session_limits s' = server_session_limits s" "dispatching s' = dispatching s"
    "active_sessions s' = active_sessions s" "strand_queue s' = strand_queue s"
    by simp_all
qed

lemma strand_step_sessions [simp]:
  "session_objects (strand_step s) = session_objects s" "server_dispatcher (strand_step s) = server_dispatcher s"
  "server_session_limits (strand_step s) = server_session_limits s" "dispatching (strand_step s) = dispatching s"
  by (simp_all add: strand_step_def split: list.split strand_task.split)

lemma notify_sessions [simp]:
  "server_dispatcher (notify_session E tg f ts vs s) = server_dispatcher s"
  "server_session_limits (notify_session E tg f ts vs s) = server_session_limits s"
  "dispatching (notify_session E tg f ts vs s) = dispatching s"
  "active_sessions (notify_session E tg f ts vs s) = active_sessions s"
  "strand_queue (notify_session E tg f ts vs s) = strand_queue s"
  "server_dispatcher (server_notify E f ts vs s) = server_dispatcher s"
  "server_session_limits (server_notify E f ts vs s) = server_session_limits s"
  "dispatching (server_notify E f ts vs s) = dispatching s"
  "active_sessions (server_notify E f ts vs s) = active_sessions s"
  "strand_queue (server_notify E f ts vs s) = strand_queue s"
  by (simp_all add: notify_session_def server_notify_def Let_def)

lemma stop_sessions [simp]:
  "server_dispatcher (stop_server E s) = server_dispatcher s"
  "server_session_limits (stop_server E s) = server_session_limits s"
  "dispatching (stop_server E s) = dispatching s" "strand_queue (stop_server E s) = strand_queue s"
  by (simp_all add: stop_server_def close_all_sessions_def)

lemma notified_objects:
  assumes "distinct (active_sessions s)"
  shows "session_objects (notify_session E tg f ts vs s) x = session_objects s x
      \<or> (\<exists>b. session_objects (notify_session E tg f ts vs s) x = snd (try_notify E f b (session_objects s x)))"
    and "session_objects (server_notify E f ts vs s) x = session_objects s x
      \<or> (\<exists>b. session_objects (server_notify E f ts vs s) x = snd (try_notify E f b (session_objects s x)))"
  using notify_where_at [OF assms, of "\<lambda>s. logical_session_id s = tg" E f] notify_where_at [OF assms, of "\<lambda>s. True" E f]
  by (auto simp: notify_session_def server_notify_def Let_def try_notify_logical)

lemma stopped_objects:
  assumes "distinct (active_sessions s)"
  shows "session_objects (stop_server E s) x =
    (if sessions_strand s \<and> x \<in> set (active_sessions s) then close E (session_objects s x) else session_objects s x)"
  by (simp add: stop_server_def close_all_sessions_def close_each [OF assms])

text \<open>How a recorded session came about, and what has happened to it since.\<close>

definition born_by ::
    "transport \<Rightarrow> ('st, 'wc, 'rc, 'v, 'app) session_env \<Rightarrow> ('cert \<Rightarrow> u8 list option) \<Rightarrow> session_limits \<Rightarrow>
     ('st, 'wc, 'rc, 'app, 'cert) session_history \<Rightarrow> bool \<Rightarrow> bool" where
  "born_by T E digest lims k go \<longleftrightarrow>
     (\<exists>r sess. handshake_of T E digest lims r = Inr sess \<and> dispatch_requests E (hr_nodelay r) sess = (go, born k)
        \<and> certificate k = hr_cert r)"

definition newborn ::
    "('st, 'wc, 'rc, 'app, 'cert) session_history \<Rightarrow> bool \<Rightarrow> 'app \<Rightarrow> ('st, 'wc, 'rc, 'app) running" where
  "newborn k go a = \<lparr>ses = born k, app_state = a, reader_on = go, writer_on = go\<rparr>"

definition lived ::
    "transport \<Rightarrow> ('st, 'wc, 'rc, 'v, 'app) session_env \<Rightarrow> ('cert \<Rightarrow> u8 list option) \<Rightarrow> session_limits \<Rightarrow>
     ('st, 'wc, 'rc, 'app, 'cert) session_history \<Rightarrow> ('st, 'wc, 'rc, 'app) running \<Rightarrow> bool" where
  "lived T E digest lims k c \<longleftrightarrow>
     (\<exists>go a. born_by T E digest lims k go \<and> outcome_trace E (newborn k go a) (runs k) c)"

lemma lived_quiet: "lived T E digest lims k c \<Longrightarrow> (quiet_step E)\<^sup>*\<^sup>* c c' \<Longrightarrow> lived T E digest lims k c'"
  unfolding lived_def by (blast intro: outcome_trace_quiet)

text \<open>What may happen to a session without its doing: the application changes, a notification is queued, it is closed.\<close>

definition touched ::
    "('st, 'wc, 'rc, 'v, 'app) session_env \<Rightarrow> ('st, 'wc, 'rc, 'app) running \<Rightarrow> ('st, 'wc, 'rc, 'app) running \<Rightarrow> bool" where
  "touched E c c' \<longleftrightarrow> (\<exists>a. c' = c\<lparr>app_state := a\<rparr>) \<or> c' = c\<lparr>ses := close E (ses c)\<rparr>
     \<or> (\<exists>f b. c' = c\<lparr>ses := snd (try_notify E f b (ses c))\<rparr>)"

lemma touched_quiet: "touched E c c' \<Longrightarrow> (quiet_step (served_env E s))\<^sup>*\<^sup>* c c'"
  using quiet_app quiet_close [of "served_env E s"] quiet_try_notify [of "served_env E s"]
  by (auto simp: touched_def intro!: r_into_rtranclp)

lemma lived_touched:
  "touched E c c' \<Longrightarrow> lived T (served_env E s) digest lims k c \<Longrightarrow> lived T (served_env E s) digest lims k c'"
  by (rule lived_quiet [OF _ touched_quiet])

lemma touched_app: "ses c' = ses c \<Longrightarrow> reader_on c' = reader_on c \<Longrightarrow> writer_on c' = writer_on c \<Longrightarrow> touched E c c'"
  unfolding touched_def by (rule disjI1, rule exI [of _ "app_state c'"]) simp

definition recorded ::
    "transport \<Rightarrow> ('st, 'wc, 'rc, 'v, 'app) session_env \<Rightarrow> ('cert \<Rightarrow> u8 list option) \<Rightarrow> ('st, 'wc, 'rc, 'v, 'app) server \<Rightarrow>
     ('st, 'wc, 'rc, 'v, 'app, 'cert) hosting \<Rightarrow> bool" where
  "recorded T E digest s0 h \<longleftrightarrow> server_dispatcher (srv h) = server_dispatcher s0
     \<and> server_session_limits (srv h) = server_session_limits s0
     \<and> (\<forall>x k. history h x = Some k \<longrightarrow> lived T (served_env E s0) digest (server_session_limits s0) k (session_at x h))"

lemma recorded_env: "recorded T E digest s0 h \<Longrightarrow> served_env E (srv h) = served_env E s0"
  by (simp add: recorded_def served_env_def)

lemma recordedD:
  "recorded T E digest s0 h \<Longrightarrow> history h x = Some k \<Longrightarrow>
   lived T (served_env E s0) digest (server_session_limits s0) k (session_at x h)"
  by (simp add: recorded_def)

lemma recordedI:
  assumes "recorded T E digest s0 h" and "history h' = history h"
    and "server_dispatcher (srv h') = server_dispatcher (srv h)"
    and "server_session_limits (srv h') = server_session_limits (srv h)"
    and "\<And>x. touched E (session_at x h) (session_at x h')"
  shows "recorded T E digest s0 h'"
proof -
  have "lived T (served_env E s0) digest (server_session_limits s0) k (session_at x h')" if "history h x = Some k" for x k
    by (rule lived_touched [OF assms(5) recordedD [OF assms(1) that]])
  with assms show ?thesis
    by (simp add: recorded_def)
qed

lemma handshake_step_sessions:
  fixes s s' :: "('st, 'wc, 'rc, 'v, 'app) server"
  assumes "s' = fst (handshake_step i addr out s a)"
  shows "server_dispatcher s' = server_dispatcher s" "server_session_limits s' = server_session_limits s"
    "active_sessions s' = active_sessions s"
    "out = Inl e \<Longrightarrow> session_objects s' = session_objects s \<and> dispatching s' = dispatching s \<and> strand_queue s' = strand_queue s"
    "out = Inr (Some sess) \<Longrightarrow> session_objects s' = (session_objects s)(addr := sess)
       \<and> dispatching s' = dispatching s @ [addr] \<and> strand_queue s' = strand_queue s @ [Insert_session addr]"
  using assms by (auto simp: handshake_step_def Let_def split: sum.splits option.splits)

lemma session_done_sessions:
  fixes s s' :: "('st, 'wc, 'rc, 'v, 'app) server"
  assumes "s' = fst (session_done_step addr s a)"
  shows "server_dispatcher s' = server_dispatcher s" "server_session_limits s' = server_session_limits s"
    "session_objects s' = session_objects s" "dispatching s' = remove1 addr (dispatching s)"
    "active_sessions s' = active_sessions s" "strand_queue s' = strand_queue s @ [Erase_session addr]"
  using assms by (simp_all add: session_done_step_def Let_def)

text \<open>The end of a handshake, by whether it made a session.\<close>

lemma finish_handshake_cases:
  obtains e a' where "handshake_of T (served_env E (srv h)) digest (server_session_limits (srv h)) r = Inl e"
      "finish_handshake T E digest i addr r h =
         h\<lparr>srv := fst (handshake_step i addr (Inl e) (srv h) (host_app h)), host_app := a'\<rparr>"
      "a' = snd (handshake_step i addr (Inl e) (srv h) (host_app h))"
  | sess go sess' a' where "handshake_of T (served_env E (srv h)) digest (server_session_limits (srv h)) r = Inr sess"
      "dispatch_requests (served_env E (srv h)) (hr_nodelay r) sess = (go, sess')"
      "finish_handshake T E digest i addr r h =
         h\<lparr>srv := fst (handshake_step i addr (Inr (Some sess')) (srv h) (host_app h)), host_app := a',
           readers := (readers h)(addr := go), writers := (writers h)(addr := go),
           history := (history h)(addr \<mapsto> \<lparr>born = sess', certificate = hr_cert r, runs = []\<rparr>)\<rparr>"
      "a' = snd (handshake_step i addr (Inr (Some sess')) (srv h) (host_app h))"
proof (cases "handshake_of T (served_env E (srv h)) digest (server_session_limits (srv h)) r")
  case (Inl e)
  with that(1) show thesis
    by (simp add: finish_handshake_def Let_def case_prod_beta)
next
  case (Inr sess)
  obtain go sess' where d: "dispatch_requests (served_env E (srv h)) (hr_nodelay r) sess = (go, sess')"
    by force
  with that(2) [OF Inr d] Inr show thesis
    by (simp add: finish_handshake_def Let_def case_prod_beta)
qed

lemma handshake_recorded:
  assumes "recorded T E digest s0 h"
  shows "recorded T E digest s0 (finish_handshake T E digest i addr r h)"
proof (rule finish_handshake_cases [of T E h digest r i addr])
  fix e a' assume "finish_handshake T E digest i addr r h =
         h\<lparr>srv := fst (handshake_step i addr (Inl e) (srv h) (host_app h)), host_app := a'\<rparr>"
  then show ?thesis
    using handshake_step_sessions(1,2,4) [OF refl, where out = "Inl e" and s = "srv h"]
    by (intro recordedI [OF assms] touched_app) simp_all
next
  fix sess go sess' a'
  assume out: "handshake_of T (served_env E (srv h)) digest (server_session_limits (srv h)) r = Inr sess"
      "dispatch_requests (served_env E (srv h)) (hr_nodelay r) sess = (go, sess')"
    and h': "finish_handshake T E digest i addr r h =
         h\<lparr>srv := fst (handshake_step i addr (Inr (Some sess')) (srv h) (host_app h)), host_app := a',
           readers := (readers h)(addr := go), writers := (writers h)(addr := go),
           history := (history h)(addr \<mapsto> \<lparr>born = sess', certificate = hr_cert r, runs = []\<rparr>)\<rparr>"
  let ?h = "finish_handshake T E digest i addr r h" and ?k = "\<lparr>born = sess', certificate = hr_cert r, runs = []\<rparr>"
  note objs = handshake_step_sessions [where out = "Inr (Some sess')" and s = "srv h", OF refl]
  have "born_by T (served_env E s0) digest (server_session_limits s0) ?k go"
    using out assms unfolding born_by_def by (auto simp: recorded_env [OF assms] recorded_def)
  moreover have "session_at addr ?h = newborn ?k go a'"
    by (simp add: h' session_at_def newborn_def objs(5))
  ultimately have new: "lived T (served_env E s0) digest (server_session_limits s0) ?k (session_at addr ?h)"
    using outcome_trace.Start [of "served_env E s0" "newborn ?k go a'"] by (auto simp: lived_def)
  have "touched E (session_at x h) (session_at x ?h)" if "x \<noteq> addr" for x
    using that by (intro touched_app) (simp_all add: h' objs(5))
  then have "lived T (served_env E s0) digest (server_session_limits s0) k (session_at x ?h)"
    if "history h x = Some k" "x \<noteq> addr" for x k
    using that by (blast intro: lived_touched recordedD [OF assms])
  then have all: "lived T (served_env E s0) digest (server_session_limits s0) k (session_at x ?h)"
    if "history ?h x = Some k" for x k
    using new that by (cases "x = addr") (simp_all add: h' del: session_at_simps)
  have "server_dispatcher (srv ?h) = server_dispatcher s0" "server_session_limits (srv ?h) = server_session_limits s0"
    using assms objs(1,2) by (simp_all add: recorded_def h')
  with all show ?thesis
    unfolding recorded_def by blast
qed

lemma put_recorded:
  assumes "recorded T E digest s0 h"
    and "history h' = (history h)(addr := k')" and "srv h' = srv (put_session addr c h)"
    and "\<And>x. session_at x h' = session_at x (put_session addr c h)"
    and "\<And>k. k' = Some k \<Longrightarrow> lived T (served_env E s0) digest (server_session_limits s0) k c"
  shows "recorded T E digest s0 h'"
proof -
  have "touched E (session_at x h) (session_at x h')" if "x \<noteq> addr" for x
    using assms(4) that by (intro touched_app) (simp_all add: session_at_put del: session_at_simps)
  then have "lived T (served_env E s0) digest (server_session_limits s0) k (session_at x h')"
    if "history h x = Some k" "x \<noteq> addr" for x k
    using that by (blast intro: lived_touched recordedD [OF assms(1)])
  moreover have "lived T (served_env E s0) digest (server_session_limits s0) k (session_at addr h')" if "k' = Some k" for k
    using assms(5) [OF that] by (simp only: assms(4) session_at_put if_True refl)
  ultimately have "lived T (served_env E s0) digest (server_session_limits s0) k (session_at x h')"
    if "history h' x = Some k" for x k
    using that by (cases "x = addr") (simp_all add: assms(2))
  moreover have "server_dispatcher (srv h') = server_dispatcher s0" "server_session_limits (srv h') = server_session_limits s0"
    using assms(1) by (simp_all add: recorded_def assms(3) put_session_def)
  ultimately show ?thesis
    unfolding recorded_def by blast
qed

lemma host_step_recorded:
  assumes "host_step T E digest h h'" and "server_ok (srv h)" and rec: "recorded T E digest s0 h"
  shows "recorded T E digest s0 h'"
  using assms(1)
proof (cases rule: host_step.cases)
  case (Accept now acc ep)
  then show ?thesis
    by (intro recordedI [OF rec] touched_app) (simp_all add: accept_step_sessions [OF accept_of_acceptor refl])
next
  case (Handshake i r addr)
  with handshake_recorded [OF rec] show ?thesis by simp
next
  case (Session_done addr)
  then show ?thesis
    by (intro recordedI [OF rec] touched_app)
      (simp_all add: finish_session_def case_prod_beta session_done_sessions [OF refl])
next
  case Strand
  then show ?thesis
    by (intro recordedI [OF rec] touched_app) simp_all
next
  case (Notify_session tg f ts vs)
  have "touched E (session_at x h) (session_at x h')" for x
    using notified_objects(1) [of "srv h" E tg f ts vs x] assms(2) Notify_session
    by (auto simp: session_at_def touched_def server_ok_def)
  with Notify_session show ?thesis
    by (intro recordedI [OF rec]) simp_all
next
  case (Notify_all f ts vs)
  have "touched E (session_at x h) (session_at x h')" for x
    using notified_objects(2) [of "srv h" E f ts vs x] assms(2) Notify_all
    by (auto simp: session_at_def touched_def server_ok_def)
  with Notify_all show ?thesis
    by (intro recordedI [OF rec]) simp_all
next
  case Stop
  have "touched E (session_at x h) (session_at x h')" for x
    using stopped_objects [of "srv h" E x] assms(2) Stop
    by (auto simp: session_at_def touched_def server_ok_def)
  with Stop show ?thesis
    by (intro recordedI [OF rec]) simp_all
next
  case (Session addr c)
  have "lived T (served_env E s0) digest (server_session_limits s0) k c" if "history h addr = Some k" for k
    using rec that Session(4,5) unfolding recorded_env [OF rec] recorded_def lived_def
    by (blast intro: outcome_trace.Other)
  with Session(1) show ?thesis
    by (intro put_recorded [OF rec, of _ addr "history h addr" c]) (simp_all add: put_session_def)
next
  case (Handler addr x rsp c)
  have "lived T (served_env E s0) digest (server_session_limits s0) (k\<lparr>runs := runs k @ [(x, rsp)]\<rparr>) c"
    if k: "history h addr = Some k" for k
  proof -
    obtain go a where "born_by T (served_env E s0) digest (server_session_limits s0) k go"
      "outcome_trace (served_env E s0) (newborn k go a) (runs k) (session_at addr h)"
      using recordedD [OF rec k] unfolding lived_def by blast
    with outcome_trace.Handler [OF this(2) Handler(4) [unfolded recorded_env [OF rec]]] show ?thesis
      unfolding lived_def by (intro exI [of _ go] exI [of _ a]) (simp add: born_by_def newborn_def)
  qed
  with Handler(1) show ?thesis
    by (intro put_recorded [OF rec, of _ addr "map_option (\<lambda>k. k\<lparr>runs := runs k @ [(x, rsp)]\<rparr>) (history h addr)" c])
      (auto simp: record_run_def put_session_def)
qed

section \<open>The server among its sessions\<close>

lemma notify_only_objects:
  "\<exists>objs. notify_session E tg f ts vs s = s\<lparr>session_objects := objs\<rparr>"
  "\<exists>objs. server_notify E f ts vs s = s\<lparr>session_objects := objs\<rparr>"
  by (force simp: notify_session_def server_notify_def Let_def intro: exI [of _ "session_objects s"])+

lemma sessions_run_server:
  assumes "s' = s\<lparr>session_objects := objs\<rparr>" and "\<And>x. peer_ip (session_objects s' x) = peer_ip (session_objects s x)"
  shows "server_step A (s, a) (s', a')"
  using server_step.Sessions_run [of objs s A a a'] assms by simp

lemma try_notify_peer_ip [simp]: "peer_ip (snd (try_notify E f b s)) = peer_ip s"
  by (simp add: try_notify_def)

lemma host_step_server:
  assumes "host_step T E digest h h'" and "server_ok (srv h)"
  shows "server_step (accept_of T) (srv h, host_app h) (srv h', host_app h')"
proof -
  have dist: "distinct (active_sessions (srv h))"
    using assms(2) by (simp add: server_ok_def)
  have put: "server_step (accept_of T) (srv h, host_app h) (srv (put_session addr c h), a')"
    if "session_step (served_env E (srv h)) (session_at addr h) c" for addr c a'
    by (rule sessions_run_server [where objs = "(session_objects (srv h))(addr := ses c)"])
      (use step_same_peer [OF that] in \<open>simp_all add: put_session_def same_peer_def\<close>)
  show ?thesis
    using assms(1)
  proof (cases rule: host_step.cases)
    case (Accept now acc ep)
    then show ?thesis by (simp add: server_step.Accept)
  next
    case (Handshake i r addr)
    have new: "addr \<notin> set (dispatching (srv h))"
      using Handshake(4) by (simp add: referenced_def)
    note step = server_step.Handshake [OF Handshake(2) new, of "accept_of T" "host_app h"]
    show ?thesis
      unfolding Handshake(1)
      by (rule finish_handshake_cases [of T E h digest r i addr]) (use step in simp_all)
  next
    case (Session_done addr)
    with server_step.Session_done [OF Session_done(2), of "accept_of T" "host_app h"] show ?thesis
      by (simp add: finish_session_def case_prod_beta)
  next
    case Strand
    then show ?thesis by (simp add: server_step.Strand)
  next
    case (Notify_session tg f ts vs)
    obtain objs where "notify_session E tg f ts vs (srv h) = (srv h)\<lparr>session_objects := objs\<rparr>"
      using notify_only_objects(1) by blast
    then show ?thesis
      using notified_objects(1) [OF dist, of E tg f ts vs] Notify_session
      by (intro sessions_run_server) (simp_all, metis try_notify_peer_ip)
  next
    case (Notify_all f ts vs)
    obtain objs where "server_notify E f ts vs (srv h) = (srv h)\<lparr>session_objects := objs\<rparr>"
      using notify_only_objects(2) by blast
    then show ?thesis
      using notified_objects(2) [OF dist, of E f ts vs] Notify_all
      by (intro sessions_run_server) (simp_all, metis try_notify_peer_ip)
  next
    case Stop
    then show ?thesis by (simp add: server_step.Stop)
  next
    case (Session addr c)
    with put [OF Session(4)] show ?thesis by simp
  next
    case (Handler addr x rsp c)
    have "session_step (served_env E (srv h)) (session_at addr h) c"
      using Handler(4) by (auto simp: handler_outcome_def dest: handler_starts_step)
    with put Handler(1) show ?thesis
      by (simp add: record_run_def)
  qed
qed

lemma host_run:
  assumes "(host_step T E digest)\<^sup>*\<^sup>* (new_host s0 a0) h" and "ready_server l s0"
  shows "server_ok (srv h) \<and> within_limits l (srv h)" and "recorded T E digest s0 h"
    and "(server_step (accept_of T))\<^sup>*\<^sup>* (s0, a0) (srv h, host_app h)"
  using assms(1)
proof (induction rule: rtranclp_induct)
  case base
  show "server_ok (srv (new_host s0 a0)) \<and> within_limits l (srv (new_host s0 a0))" "recorded T E digest s0 (new_host s0 a0)"
    "(server_step (accept_of T))\<^sup>*\<^sup>* (s0, a0) (srv (new_host s0 a0), host_app (new_host s0 a0))"
    using assms(2) by (simp_all add: new_host_def ready_server_def recorded_def)
next
  case (step h h')
  have move: "server_step (accept_of T) (srv h, host_app h) (srv h', host_app h')"
    using host_step_server [OF step.hyps(2)] step.IH by blast
  have sane: "sane_limits l"
    using assms(2) by (simp add: ready_server_def)
  show "server_ok (srv h') \<and> within_limits l (srv h')"
    using server_step_keeps_ok [OF accept_of_acceptor move sane] step.IH(1) by simp
  show "recorded T E digest s0 h'"
    using host_step_recorded [OF step.hyps(2)] step.IH(1,2) by blast
  show "(server_step (accept_of T))\<^sup>*\<^sup>* (s0, a0) (srv h', host_app h')"
    using step.IH(3) move by (rule rtranclp.rtrancl_into_rtrancl)
qed

text \<open>What a session is born with.\<close>

lemma dispatch_requests_logs:
  "dispatch_requests E nd s = (go, s') \<Longrightarrow> s' = s \<or> (\<exists>m. s' = log_error_async m s)"
  by (cases nd) (auto simp: dispatch_requests_def split: if_splits)

lemma born_fresh:
  assumes "born_by T E digest lims k go" and "library_ok E buffered opened incoming outgoing"
  shows "\<not> is_closed (born k)" "request_tasks (born k) = []" "notification_strand (born k) = []"
    "limits (born k) = lims" "shut_ok E (born k)" "manager_ok (async_mgr (born k))"
    "buffered (write_channel (born k)) = []" "logical_session_id (born k) = []"
proof -
  obtain r sess where r: "handshake_of T E digest lims r = Inr sess" "dispatch_requests E (hr_nodelay r) sess = (go, born k)"
    using assms(1) by (auto simp: born_by_def)
  obtain fp where sess: "sess = set_peer (hr_remote r) (set_peer_fingerprint fp (make_session E (hr_sock r) (hr_heap r) lims))
      \<or> sess = set_peer (hr_remote r) (make_session E (hr_sock r) (hr_heap r) lims)"
    using r(1) by (cases T) (auto simp: tcp_handshake_def ssl_handshake_def split: sum.splits)
  have "born k = sess \<or> (\<exists>m. born k = log_error_async m sess)"
    using r(2) by (rule dispatch_requests_logs)
  then show "\<not> is_closed (born k)" "request_tasks (born k) = []" "notification_strand (born k) = []"
    "limits (born k) = lims" "shut_ok E (born k)" "manager_ok (async_mgr (born k))"
    "buffered (write_channel (born k)) = []" "logical_session_id (born k) = []"
    using sess fifo_make [OF library_okD(1) [OF assms(2)]]
    by (auto simp: set_peer_def set_peer_address_def set_peer_ip_def set_peer_fingerprint_def make_session_def shut_ok_def
        make_async_manager_ok split: option.splits)
qed

lemma born_peer:
  assumes "born_by Tls E digest lims k go"
  shows "peer_fingerprint (born k) = ssl_peer_fingerprint digest (certificate k)"
proof -
  obtain r sess where r: "handshake_of Tls E digest lims r = Inr sess" "dispatch_requests E (hr_nodelay r) sess = (go, born k)"
    "certificate k = hr_cert r"
    using assms by (auto simp: born_by_def)
  have "peer_fingerprint sess = ssl_peer_fingerprint digest (hr_cert r)"
    using r(1) by (auto simp: ssl_handshake_def set_peer_def set_peer_address_def set_peer_ip_def set_peer_fingerprint_def
        split: sum.splits option.splits)
  then show ?thesis
    using dispatch_requests_logs [OF r(2)] r(3) by auto
qed

lemma run_same_peer: "(session_step E)\<^sup>*\<^sup>* c c' \<Longrightarrow> same_peer (ses c) (ses c')"
  by (induction rule: rtranclp_induct) (auto intro: same_peer_trans step_same_peer)

text \<open>A session's peer stays the one it was born with.\<close>

lemma recorded_peer:
  assumes "recorded Tls E digest s0 h" and "history h x = Some k"
  shows "peer_fingerprint (session_objects (srv h) x) = ssl_peer_fingerprint digest (certificate k)"
proof -
  obtain go a where k: "born_by Tls (served_env E s0) digest (server_session_limits s0) k go"
    "outcome_trace (served_env E s0) (newborn k go a) (runs k) (session_at x h)"
    using recordedD [OF assms] by (auto simp: lived_def)
  have "same_peer (born k) (session_objects (srv h) x)"
    using run_same_peer [OF trace_is_run [OF outcome_trace_session [OF k(2)]]] by (simp add: newborn_def)
  with born_peer [OF k(1)] show ?thesis
    by (simp add: same_peer_def)
qed

end
