(* ===== verification/Hosted_Server.thy ===== *)
theory Hosted_Server
  imports Hosted_Sessions
begin

text \<open>
  What holds of a server with all its sessions: the session set follows the sessions, a broadcast
  reaches the open ones, sessions do not mix, a handler is run for the peer that was authenticated, and
  a client's call returns what its handler produced, whatever other clients do meanwhile.
\<close>

section \<open>The session set\<close>

text \<open>The set as it will be when the strand has run the tasks that wait.\<close>

fun drain :: "strand_task list \<Rightarrow> nat set \<Rightarrow> nat set" where
  "drain [] S = S"
| "drain (Insert_session a # q) S = drain q (insert a S)"
| "drain (Erase_session a # q) S = drain q (S - {a})"

lemma drain_append [simp]: "drain (q @ q') S = drain q' (drain q S)"
  by (induction q S rule: drain.induct) simp_all

lemma drain_mono: "S \<subseteq> S' \<Longrightarrow> drain q S \<subseteq> drain q S'"
proof (induction q arbitrary: S S')
  case (Cons t q)
  have "insert a S \<subseteq> insert a S'" "S - {a} \<subseteq> S' - {a}" for a
    using Cons.prems by blast+
  with Cons.IH show ?case
    by (cases t) simp_all
qed simp

lemma drain_split: "drain q (S \<union> R) \<subseteq> S \<union> drain q R"
proof (induction q arbitrary: S R)
  case (Cons t q)
  show ?case
  proof (cases t)
    case (Insert_session a)
    with Cons.IH [of S "insert a R"] show ?thesis by simp
  next
    case (Erase_session a)
    with Cons.IH [of "S - {a}" "R - {a}"] show ?thesis by (auto simp: Un_Diff)
  qed
qed simp

lemma drain_inserts: "a \<in> drain q S \<Longrightarrow> Insert_session a \<notin> set q \<Longrightarrow> a \<in> S"
  by (induction q S rule: drain.induct) auto

definition will_be_active :: "('st, 'wc, 'rc, 'v, 'app) server \<Rightarrow> nat set" where
  "will_be_active s = drain (strand_queue s) (set (active_sessions s))"

lemma strand_drains: "will_be_active (strand_step s) = will_be_active s"
  by (simp add: strand_step_def will_be_active_def split: list.split strand_task.split)

lemma strand_runs_dry:
  "length (strand_queue s) \<le> n \<Longrightarrow>
   strand_queue ((strand_step ^^ n) s) = [] \<and> set (active_sessions ((strand_step ^^ n) s)) = will_be_active s"
proof (induction n arbitrary: s)
  case 0
  then show ?case by (simp add: will_be_active_def)
next
  case (Suc n)
  have "length (strand_queue (strand_step s)) \<le> n"
    using Suc.prems by (auto simp: strand_step_def split: list.splits strand_task.splits)
  from Suc.IH [OF this] show ?case
    by (simp add: strand_drains funpow_Suc_right del: funpow.simps)
qed

text \<open>A session that is closed stays closed.\<close>

interpretation closed: session_invariant E is_closed for E :: "('st, 'wc, 'rc, 'v, 'app) session_env"
  by unfold_locales (simp_all add: close_def call_timer_fired_def Let_def)

lemma call_receive_closed: "call_receive E name b ch s = Some (r, s') \<Longrightarrow> is_closed s' = is_closed s"
  by (auto simp: call_receive_def Let_def split: option.splits if_splits)

lemma closed_step: "session_step E c c' \<Longrightarrow> is_closed (ses c) \<Longrightarrow> is_closed (ses c')"
  by (erule closed.keeps_step) (auto dest: call_receive_closed)

definition registry_ok :: "('st, 'wc, 'rc, 'v, 'app) server \<Rightarrow> bool" where
  "registry_ok s \<longleftrightarrow> will_be_active s \<subseteq> set (dispatching s)
     \<and> (\<forall>a \<in> set (dispatching s). a \<in> will_be_active s \<or> is_closed (session_objects s a))"

lemma registry_same:
  assumes "registry_ok s" and "will_be_active s' = will_be_active s" and "dispatching s' = dispatching s"
    and "\<And>a. is_closed (session_objects s a) \<Longrightarrow> is_closed (session_objects s' a)"
  shows "registry_ok s'"
  using assms by (auto simp: registry_ok_def)

lemma registry_stop:
  assumes "registry_ok s" and "server_ok s"
  shows "registry_ok (stop_server E s)"
proof -
  have w: "will_be_active (stop_server E s) = drain (strand_queue s) {}"
    using assms(2) by (simp add: will_be_active_def stop_server_def close_all_sessions_def server_ok_def)
  have "is_closed (session_objects (stop_server E s) a)"
    if "a \<in> set (dispatching s)" "a \<notin> drain (strand_queue s) {}" for a
    using assms that drain_split [of "strand_queue s" "set (active_sessions s)" "{}"]
    by (auto simp: registry_ok_def will_be_active_def server_ok_def stopped_objects)
  then show ?thesis
    using assms(1) drain_mono [of "{}" "set (active_sessions s)" "strand_queue s"]
    by (auto simp: registry_ok_def w) (auto simp: will_be_active_def)
qed

lemma host_step_registry:
  assumes "host_step T E digest h h'" and "server_ok (srv h)" and "registry_ok (srv h)"
  shows "registry_ok (srv h')"
  using assms(1)
proof (cases rule: host_step.cases)
  case (Accept now acc ep)
  then show ?thesis
    by (intro registry_same [OF assms(3)]) (simp_all add: will_be_active_def accept_step_sessions [OF accept_of_acceptor refl])
next
  case (Handshake i r addr)
  show ?thesis
  proof (rule finish_handshake_cases [of T E h digest r i addr])
    fix e a' assume "finish_handshake T E digest i addr r h =
         h\<lparr>srv := fst (handshake_step i addr (Inl e) (srv h) (host_app h)), host_app := a'\<rparr>"
    then show ?thesis
      unfolding Handshake(1) using handshake_step_sessions(3,4) [OF refl, where out = "Inl e" and s = "srv h"]
      by (intro registry_same [OF assms(3)]) (simp_all add: will_be_active_def)
  next
    fix sess go sess' a'
    assume h': "finish_handshake T E digest i addr r h =
         h\<lparr>srv := fst (handshake_step i addr (Inr (Some sess')) (srv h) (host_app h)), host_app := a',
           readers := (readers h)(addr := go), writers := (writers h)(addr := go),
           history := (history h)(addr \<mapsto> \<lparr>born = sess', certificate = hr_cert r, runs = []\<rparr>)\<rparr>"
    note objs = handshake_step_sessions [where out = "Inr (Some sess')" and s = "srv h", OF refl]
    show ?thesis
      unfolding Handshake(1) using assms(3) Handshake(4)
      by (auto simp: h' registry_ok_def will_be_active_def objs(3,5) referenced_def)
  qed
next
  case (Session_done addr)
  have "distinct (dispatching (srv h))"
    using assms(2) by (simp add: server_ok_def)
  then show ?thesis
    unfolding Session_done(1) using assms(3)
    by (auto simp: finish_session_def case_prod_beta registry_ok_def will_be_active_def session_done_sessions [OF refl])
next
  case Strand
  then show ?thesis
    by (intro registry_same [OF assms(3)]) (simp_all add: strand_drains)
next
  case (Notify_session tg f ts vs)
  have "is_closed (session_objects (srv h') x) = is_closed (session_objects (srv h) x)" for x
    using notified_objects(1) [of "srv h" E tg f ts vs x] assms(2) Notify_session by (auto simp: server_ok_def try_notify_def)
  with Notify_session show ?thesis
    by (intro registry_same [OF assms(3)]) (simp_all add: will_be_active_def)
next
  case (Notify_all f ts vs)
  have "is_closed (session_objects (srv h') x) = is_closed (session_objects (srv h) x)" for x
    using notified_objects(2) [of "srv h" E f ts vs x] assms(2) Notify_all by (auto simp: server_ok_def try_notify_def)
  with Notify_all show ?thesis
    by (intro registry_same [OF assms(3)]) (simp_all add: will_be_active_def)
next
  case Stop
  with registry_stop [OF assms(3,2)] show ?thesis by simp
next
  case (Session addr c)
  with closed_step [OF Session(4)] show ?thesis
    by (intro registry_same [OF assms(3)]) (auto simp: put_session_def will_be_active_def)
next
  case (Handler addr x rsp c)
  then have "session_step (served_env E (srv h)) (session_at addr h) c"
    by (auto simp: handler_outcome_def dest: handler_starts_step)
  with closed_step [OF this] Handler(1) show ?thesis
    by (intro registry_same [OF assms(3)]) (auto simp: put_session_def record_run_def will_be_active_def)
qed

lemma host_registry:
  assumes "(host_step T E digest)\<^sup>*\<^sup>* (new_host s0 a0) h" and "ready_server l s0"
  shows "registry_ok (srv h)"
  using assms(1)
proof (induction rule: rtranclp_induct)
  case base
  then show ?case
    using assms(2) by (simp add: new_host_def ready_server_def registry_ok_def will_be_active_def)
next
  case (step h h')
  then show ?case
    using host_step_registry host_run(1) [OF step.hyps(1) assms(2)] by blast
qed

section \<open>Properties\<close>

lemma recorded_life:
  assumes "ready_server l s0" and "(host_step T E digest)\<^sup>*\<^sup>* (new_host s0 a0) h" and "history h x = Some k"
  obtains go a where "born_by T (served_env E s0) digest (server_session_limits s0) k go"
    and "outcome_trace (served_env E s0) (newborn k go a) (runs k) (session_at x h)"
  using recordedD [OF host_run(2) [OF assms(2,1)] assms(3)] by (auto simp: lived_def)


text \<open>
  Once the strand has run the tasks that wait, the session set is the set of the sessions that
  dispatch, but for sessions that \<open>stop\<close> has closed.
\<close>

lemma session_set_follows:
  assumes "ready_server l s0" and "(host_step T E digest)\<^sup>*\<^sup>* (new_host s0 a0) h"
    and "length (strand_queue (srv h)) \<le> n" and "s' = (strand_step ^^ n) (srv h)"
  shows "set (active_sessions s') \<subseteq> set (dispatching (srv h))
    \<and> (\<forall>x \<in> set (dispatching (srv h)). is_closed (session_objects (srv h) x) \<or> x \<in> set (active_sessions s'))"
  using host_registry [OF assms(2,1)] strand_runs_dry [OF assms(3)] assms(4) by (auto simp: registry_ok_def)

text \<open>
  C20: a broadcast reaches every session. In every reachable state of a server, \<open>notify\<close> tries to queue
  the encoded frame on each session that dispatches and is open, once the strand has entered it in the
  set; a session outside the set is left as it was.
\<close>

theorem broadcast_reaches_open_sessions:
  assumes "ready_server l s0" and "(host_step T E digest)\<^sup>*\<^sup>* (new_host s0 a0) h"
    and "s' = server_notify E name ts vs (srv h)" and "buf = snd (encode_message (cereal E) ts vs)"
  shows "(x \<in> set (dispatching (srv h)) \<and> \<not> is_closed (session_objects (srv h) x)
        \<and> Insert_session x \<notin> set (strand_queue (srv h)) \<longrightarrow>
        session_objects s' x = snd (try_notify E name buf (session_objects (srv h) x)))
     \<and> (x \<notin> set (active_sessions (srv h)) \<longrightarrow> session_objects s' x = session_objects (srv h) x)"
proof -
  have ok: "sessions_strand (srv h)" "distinct (active_sessions (srv h))"
    using host_run(1) [OF assms(2,1)] by (simp_all add: server_ok_def)
  have "x \<in> set (active_sessions (srv h))"
    if "x \<in> set (dispatching (srv h))" "\<not> is_closed (session_objects (srv h) x)" "Insert_session x \<notin> set (strand_queue (srv h))"
    using host_registry [OF assms(2,1)] drain_inserts that by (auto simp: registry_ok_def will_be_active_def)
  then show ?thesis
    using ok assms(3,4) notify_where_at [OF ok(2), of "\<lambda>s. True" E name buf] by (auto simp: server_notify_def Let_def)
qed

text \<open>
  C8: sessions do not mix. Whatever the clients of a server send and however its sessions interleave,
  the handlers that ran for a session, with those that wait to run, ran on request frames of that
  session's own byte stream, each frame at most once; and while its writer runs, what is on its wire is
  whole frames, the responses and errors among which answer request frames of that stream, one each at
  most.
\<close>

theorem sessions_never_mix:
  assumes "ready_server l s0" and "(host_step T E digest)\<^sup>*\<^sup>* (new_host s0 a0) h" and "history h x = Some k"
    and lib: "library_ok E buffered opened incoming outgoing" and closing: "closing_stream (st_ops E)"
    and fr: "fr = frames (env_plat E) (max_message_bytes (limits (born k))) (incoming (stream (born k)))"
    and s: "s = session_objects (srv h) x"
  shows "mset (map fst (runs k)) + spawned_invocations (request_tasks s)
        \<subseteq># invocations (max_message_bytes (limits (born k))) fr
    \<and> (writers h x \<longrightarrow> (\<exists>items. list_all good_item items
        \<and> wire E buffered outgoing s = outgoing (stream (born k)) @ concat (map (frame_bytes (env_plat E)) items)
        \<and> reply_ids items + mset (map (rid \<circ> task_header) (request_tasks s)) \<subseteq># request_ids fr))"
proof -
  let ?E = "served_env E s0"
  obtain go a where k: "born_by T ?E digest (server_session_limits s0) k go"
    "outcome_trace ?E (newborn k go a) (runs k) (session_at x h)"
    using recorded_life [OF assms(1-3)] .
  have lib': "library_ok ?E buffered opened incoming outgoing" and c: "closing_stream (st_ops ?E)"
    by (simp_all add: lib closing)
  note b = born_fresh [OF k(1) lib'] and trace = outcome_trace_session [OF k(2)]
  have shut: "shut_ok ?E (ses (newborn k go a))"
    by (simp add: b(5) newborn_def)
  have unread: "unread ?E incoming (born k) = fr"
    by (simp add: unread_def b(1) fr)
  have "mset (map fst (runs k)) + todo ?E incoming s \<subseteq># invocations (max_message_bytes (limits (born k))) fr"
    using trace_todo [OF lib' c shut trace] unread by (simp add: todo_def newborn_def b(2) s)
  then have runs: "mset (map fst (runs k)) + spawned_invocations (request_tasks s)
      \<subseteq># invocations (max_message_bytes (limits (born k))) fr"
    by (rule subset_mset.order_trans [rotated]) (simp add: todo_def)
  have "\<exists>items. list_all good_item items
      \<and> wire E buffered outgoing s = outgoing (stream (born k)) @ concat (map (frame_bytes (env_plat E)) items)
      \<and> reply_ids items + mset (map (rid \<circ> task_header) (request_tasks s)) \<subseteq># request_ids fr"
    if on: "writers h x"
  proof -
    have start: "owed ?E incoming (born k) = request_ids fr" "wire ?E buffered outgoing (born k) = outgoing (stream (born k))"
      by (simp_all add: owed_def b(2,7) unread wire_def)
    obtain items where items: "list_all good_item items"
      "wire ?E buffered outgoing s = outgoing (stream (born k)) @ concat (map (frame_bytes (env_plat ?E)) items)"
      "reply_ids items + owed ?E incoming s \<subseteq># request_ids fr"
      using run_owed [OF lib' c shut trace_is_run [OF trace]] on by (auto simp: start s newborn_def)
    have "reply_ids items + mset (map (rid \<circ> task_header) (request_tasks s)) \<subseteq># request_ids fr"
      by (rule subset_mset.order_trans [OF _ items(3)]) (simp add: owed_def)
    with items(1,2) show ?thesis
      by (intro exI [of _ items]) (simp add: wire_def)
  qed
  with runs show ?thesis
    by blast
qed

lemma run_handler_dispatches:
  assumes "run_handler E h buf s app = (Replying h rsp, s', app')" and "ctx = request_ctx s"
    and "out = (if is_async (session_dispatcher E) (h ! CALL_ID_IDX) then dispatch_async_ctx else dispatch_ctx)
           (cereal E) (session_dispatcher E) (h ! CALL_ID_IDX) buf ctx (Some ctx) app"
  shows "rsp = (case fst out of Inl e \<Rightarrow> None | Inr b \<Rightarrow> Some b)" and "app' = snd (snd out)"
proof -
  obtain r acts a1 where out: "out = (r, acts, a1)"
    by (metis prod.exhaust)
  have "run_handler E h buf s app = (case r of
      Inr rsp_buffer \<Rightarrow> (Replying h (Some rsp_buffer), fold apply_ctx_action acts s, a1)
    | Inl e \<Rightarrow> (Replying h None, log_dispatch_error E e (fold apply_ctx_action acts s), a1))"
    using out assms(3) by (auto simp: run_handler_def assms(2) Let_def split: if_splits)
  with assms(1) show "rsp = (case fst out of Inl e \<Rightarrow> None | Inr b \<Rightarrow> Some b)" "app' = snd (snd out)"
    by (auto simp: out split: sum.splits)
qed

text \<open>
  C4: a handler runs for the peer that was authenticated. When, on a TLS server in any reachable state,
  a request task of a session runs, the context it passes to the authorisation callback carries the
  fingerprint of the certificate with which this very session completed its handshake. If the callback
  and the method's visibility allow the call, what the task goes on with is what the handler returned;
  otherwise the handler has not run: there is no response and the application's state is what the
  callback left.
\<close>

theorem handlers_run_for_the_authenticated_peer:
  assumes "ready_server l s0" and "(host_step Tls E digest)\<^sup>*\<^sup>* (new_host s0 a0) h" and "history h x = Some k"
    and step: "handler_outcome (served_env E (srv h)) (session_at x h) (hdr, buf) rsp c"
    and entry: "um_find (dispatch_table (server_dispatcher s0)) (hdr ! CALL_ID_IDX) = Some entry"
    and ctx: "ctx = request_ctx (session_objects (srv h) x)"
    and after: "a1 = after_gate (server_dispatcher s0) entry ctx (host_app h)"
    and out: "out = (if call_is_async (handler entry) then call_dispatch_async else call_dispatch)
                (cereal E) (handler entry) (Some ctx) buf a1"
  shows "ctx_peer_fingerprint ctx = ssl_peer_fingerprint digest (certificate k)
    \<and> (authorised (server_dispatcher s0) entry ctx (host_app h) \<longrightarrow>
         rsp = (case fst out of Inl e \<Rightarrow> None | Inr b \<Rightarrow> Some b) \<and> app_state c = snd (snd out))
    \<and> (\<not> authorised (server_dispatcher s0) entry ctx (host_app h) \<longrightarrow> rsp = None \<and> app_state c = a1)"
proof -
  note rec = host_run(2) [OF assms(2,1)]
  let ?d = "server_dispatcher s0" and ?E = "served_env E s0" and ?i = "hdr ! CALL_ID_IDX"
  have fp: "ctx_peer_fingerprint ctx = ssl_peer_fingerprint digest (certificate k)"
    using recorded_peer [OF rec assms(3)] by (simp add: ctx request_ctx_def)
  define disp where "disp = (if is_async ?d ?i then dispatch_async_ctx else dispatch_ctx) (cereal E) ?d ?i buf ctx (Some ctx) (host_app h)"
  obtain t s1 a' where run: "run_handler ?E hdr buf (session_objects (srv h) x) (host_app h) = (t, s1, a')"
    by (metis prod.exhaust)
  then have "t = Replying hdr rsp" "app_state c = a'"
    using step unfolding recorded_env [OF rec]
    by (auto simp: handler_outcome_def handler_starts_def request_task_step_def)
  with run have outcome: "rsp = (case fst disp of Inl e \<Rightarrow> None | Inr b \<Rightarrow> Some b)" "app_state c = snd (snd disp)"
    using run_handler_dispatches [of ?E hdr buf _ _ rsp, OF _ ctx, of _ _ _ disp] by (simp_all add: disp_def)
  have async: "is_async ?d ?i = call_is_async (handler entry)"
    using entry by (simp add: is_async_def)
  show ?thesis
  proof (cases "authorised ?d entry ctx (host_app h)")
    case True
    have "disp = out"
      using enforce_auth_Inr [OF True] entry async
      by (simp add: disp_def out after dispatch_async_ctx_def dispatch_ctx_def find_entry_or_throw_def)
    with outcome fp True show ?thesis
      by simp
  next
    case False
    then obtain e where "enforce_auth ?d entry ctx (host_app h) = (Inl e, a1)"
      using enforce_auth_Inl [OF False] after by blast
    then have "disp = (Inl e, [], a1)"
      using entry by (simp add: disp_def dispatch_async_ctx_def dispatch_ctx_def find_entry_or_throw_def)
    with outcome fp False show ?thesis
      by simp
  qed
qed

text \<open>
  C1: what a call returns is what its handler produced. A client makes calls on its session, a server
  serves any number of sessions, everything interleaves; the client and one session of the server each
  receive what the other put on the wire, or the first bytes of it. If the call returns a result, then
  that session ran a handler on exactly the header and the arguments of this call, the result is the
  bytes this run produced, and no other run of the session was on a request with this call's token.
\<close>

theorem call_returns_its_handlers_result:
  assumes caller: "library_ok C cbuf copen c_in c_out" "closing_stream (st_ops C)" "fifo_channel (rc_ops C) rbuf ropen"
      "fresh_end C cbuf c_out c0"
    and call: "(session_step C)\<^sup>*\<^sup>* c0 c" "token_room (async_mgr (ses c))"
      "call_begin C name req (ses c) = (Inr (tok, ch), s1)"
    and return: "(session_step C)\<^sup>*\<^sup>* (c\<lparr>ses := s1\<rparr>) c'" "writer_on c'"
      "call_receive C name False ch (ses c') = Some (Inr body, s')"
    and server: "ready_server l s0" "(host_step T S digest)\<^sup>*\<^sup>* (new_host s0 a0) h" "history h x = Some k"
      "library_ok S sbuf sopen s_in s_out" "closing_stream (st_ops S)" "writers h x"
    and link: "env_plat S = env_plat C" "s_out (stream (born k)) = []"
      "prefix (s_in (stream (born k))) (wire C cbuf c_out (ses c'))"
      "prefix (c_in (stream (ses c0))) (wire S sbuf s_out (session_objects (srv h) x))"
    and small: "length (wire C cbuf c_out (ses c')) < 2 ^ 64"
      "length (wire S sbuf s_out (session_objects (srv h) x)) < 2 ^ 64"
  shows "\<exists>i < length (runs k). runs k ! i =
      ((make_header request (of_nat (length req)) (shash64 (env_plat C) name) tok, req), Some body)
    \<and> (\<forall>j < length (runs k). fst (fst (runs k ! j)) ! USER_TOKEN_IDX = tok \<longrightarrow> j = i)"
proof -
  let ?S = "served_env S s0"
  obtain go a where k: "born_by T ?S digest (server_session_limits s0) k go"
    "outcome_trace ?S (newborn k go a) (runs k) (session_at x h)"
    using recorded_life [OF server(1-3)] .
  have lib: "library_ok ?S sbuf sopen s_in s_out" "closing_stream (st_ops ?S)"
    by (simp_all add: server(4,5))
  note b = born_fresh [OF k(1) lib(1)]
  have wire: "wire ?S = wire S"
    by (intro ext) (simp add: wire_def)
  have fresh: "fresh_end ?S sbuf s_out (newborn k go a)"
    by (simp add: fresh_end_def newborn_def b wire_def link(2))
  show ?thesis
    by (rule returned_call_was_run [OF caller call return lib fresh k(2)])
       (use server(6) link small in \<open>simp_all add: wire newborn_def\<close>)
qed

section \<open>A session alone, hosted\<close>

text \<open>
  Conversely, whatever a session can do alone it can do on a server, while nothing else happens. The
  examples use this to turn a run of one session into a run of a server.
\<close>

lemma hosted_if_alone:
  assumes "outcome_trace (served_env E (srv h)) (session_at x h) ys c"
    and "x \<in> set (dispatching (srv h))" and "history h x = Some k"
  shows "\<exists>h'. (host_step T E digest)\<^sup>*\<^sup>* h h' \<and> session_at x h' = c \<and> history h' x = Some (k\<lparr>runs := runs k @ ys\<rparr>)
    \<and> dispatching (srv h') = dispatching (srv h) \<and> server_dispatcher (srv h') = server_dispatcher (srv h)"
  using assms(1)
proof (induction rule: outcome_trace.induct)
  case Start
  show ?case
    using assms(3) by (intro exI [of _ h]) simp
next
  case (Handler ys c' y rsp c'')
  then obtain h' where h': "(host_step T E digest)\<^sup>*\<^sup>* h h'" "session_at x h' = c'"
    "history h' x = Some (k\<lparr>runs := runs k @ ys\<rparr>)" "dispatching (srv h') = dispatching (srv h)"
    "server_dispatcher (srv h') = server_dispatcher (srv h)"
    by blast
  have env: "served_env E (srv h') = served_env E (srv h)"
    by (simp add: served_env_def h'(5))
  let ?h = "record_run x (y, rsp) (put_session x c'' h')"
  have "host_step T E digest h' ?h"
    by (rule host_step.Handler) (use assms(2) h' Handler.hyps(2) in \<open>simp_all add: referenced_def env\<close>)
  with h' show ?case
    by (intro exI [of _ ?h] conjI)
      (auto simp: session_at_put intro: rtranclp.rtrancl_into_rtrancl, simp_all add: record_run_def put_session_def)
next
  case (Other ys c' c'')
  then obtain h' where h': "(host_step T E digest)\<^sup>*\<^sup>* h h'" "session_at x h' = c'"
    "history h' x = Some (k\<lparr>runs := runs k @ ys\<rparr>)" "dispatching (srv h') = dispatching (srv h)"
    "server_dispatcher (srv h') = server_dispatcher (srv h)"
    by blast
  have env: "served_env E (srv h') = served_env E (srv h)"
    by (simp add: served_env_def h'(5))
  have "host_step T E digest h' (put_session x c'' h')"
    by (rule host_step.Session) (use assms(2) h' Other.hyps(2,3) in \<open>simp_all add: referenced_def env\<close>)
  with h' show ?case
    by (intro exI [of _ "put_session x c'' h'"] conjI)
      (auto simp: session_at_put put_session_def intro: rtranclp.rtrancl_into_rtrancl)
qed

section \<open>A concrete server with a session\<close>

type_synonym sample_hosting =
  "(mem_stream, write_item list_channel, op_result list_channel, wire_value, nat, unit) hosting"

definition host_server :: "(wire_value, nat) dispatcher \<Rightarrow> sample_server" where
  "host_server d = (started tight_limits (\<lambda>_. sample_session empty_dispatcher []))\<lparr>server_dispatcher := d\<rparr>"

lemma host_server_fields:
  "dispatching (host_server d) = []" "handshaking (host_server d) = []" "active_sessions (host_server d) = []"
  "strand_queue (host_server d) = []" "server_dispatcher (host_server d) = d" "global_session_count (host_server d) = 0"
  "per_ip_count (host_server d) = um_empty" "conn_limits (host_server d) = tight_limits"
  "per_ip_accept_bucket (host_server d) = um_empty" "handshakes_in_flight (host_server d) = 0"
  "server_session_limits (host_server d) = default_session_limits" "on_session_open (host_server d) = None"
  by (simp_all add: host_server_def started_def start_server_def set_server_limits_def make_server_def)

lemma host_server_ready: "ready_server tight_limits (host_server d)"
proof -
  have "server_ok (host_server d) \<and> within_limits tight_limits (host_server d)"
    using fresh_server_ok [of tight_limits "\<lambda>_. sample_session empty_dispatcher []"]
    by (simp add: host_server_def server_ok_def within_limits_def ip_count_def live_from_def)
  then show ?thesis
    by (simp add: ready_server_def host_server_fields sane_tight)
qed

lemma accept_of_tcp: "accept_of T = tcp_accept_raw"
  by (cases T; intro ext) (simp_all add: tcp_acc.accept_raw_cases ssl_acc.accept_raw_cases)

text \<open>A connection is accepted and its handshake makes a session at address 7.\<close>

definition sample_report :: "buffer_type \<Rightarrow> unit option \<Rightarrow> (mem_stream, op_result list_channel, unit) handshake_report" where
  "sample_report inp cert = \<lparr>hr_sock = (inp, [], True), hr_heap = (\<lambda>_. ([], 0, False)), hr_race = HandshakeFinished None,
     hr_cert = cert, hr_remote = None, hr_nodelay = None\<rparr>"

lemma sample_report_fields [simp]:
  "hr_sock (sample_report inp cert) = (inp, [], True)" "hr_heap (sample_report inp cert) = (\<lambda>_. ([], 0, False))"
  "hr_race (sample_report inp cert) = HandshakeFinished None" "hr_cert (sample_report inp cert) = cert"
  "hr_remote (sample_report inp cert) = None" "hr_nodelay (sample_report inp cert) = None"
  by (simp_all add: sample_report_def)

fun hosted_session :: "transport \<Rightarrow> (wire_value, nat) dispatcher \<Rightarrow> buffer_type \<Rightarrow> unit option \<Rightarrow> sample_session" where
  "hosted_session Plain d inp cert = sample_session d inp"
| "hosted_session Tls d inp cert = set_peer_fingerprint (ssl_peer_fingerprint abcd_digest cert) (sample_session d inp)"

lemma sample_hosting:
  obtains h :: sample_hosting where "(host_step T (sample_env d) abcd_digest)\<^sup>*\<^sup>* (new_host (host_server d) 0) h"
    and "dispatching (srv h) = [7]" and "strand_queue (srv h) = [Insert_session 7]" and "server_dispatcher (srv h) = d"
    and "session_at 7 h = \<lparr>ses = hosted_session T d inp cert, app_state = 0, reader_on = True, writer_on = True\<rparr>"
    and "history h 7 = Some \<lparr>born = hosted_session T d inp cert, certificate = cert, runs = []\<rparr>"
proof -
  let ?E = "sample_env d" and ?s0 = "host_server d" and ?r = "sample_report inp cert"
  let ?h0 = "new_host ?s0 0 :: sample_hosting"
  obtain b where acc: "accept_step tcp_accept_raw 1 None (Some sample_peer) ?s0 = ?s0\<lparr>per_ip_accept_bucket := b,
      handshakes_in_flight := handshakes_in_flight ?s0 + 1, handshaking := handshaking ?s0 @ [Some sample_peer]\<rparr>"
    by (rule tight_accept [of ?s0 sample_peer 1]) (simp_all add: host_server_fields)
  define h1 where "h1 = ?h0\<lparr>srv := accept_step (accept_of T) 1 None (Some sample_peer) (srv ?h0)\<rparr>"
  have one: "host_step T ?E abcd_digest ?h0 h1"
    unfolding h1_def by (rule host_step.Accept)
  have f1: "handshaking (srv h1) = [Some sample_peer]" "dispatching (srv h1) = []" "strand_queue (srv h1) = []"
    "active_sessions (srv h1) = []" "server_dispatcher (srv h1) = d" "server_session_limits (srv h1) = default_session_limits"
    "on_session_open (srv h1) = None" "host_app h1 = 0" "history h1 = (\<lambda>_. None)"
    by (simp_all add: h1_def new_host_def accept_of_tcp acc host_server_fields)
  have env: "served_env ?E (srv h1) = ?E"
    by (simp add: served_env_def f1(5) sample_env_def)
  have made: "handshake_of T ?E abcd_digest default_session_limits ?r = Inr (hosted_session T d inp cert)"
    by (cases T) (simp_all add: tcp_handshake_def ssl_handshake_def race_handshake_def set_peer_def
        sample_session_def)
  have go: "dispatch_requests ?E None (hosted_session T d inp cert) = (True, hosted_session T d inp cert)"
    by (cases T) (simp_all add: dispatch_requests_def sample_env_def mem_stream_ops_def sample_session_def
        make_session_def set_peer_fingerprint_def)
  define h2 where "h2 = finish_handshake T ?E abcd_digest 0 7 ?r h1"
  have two: "host_step T ?E abcd_digest h1 h2"
    unfolding h2_def by (rule host_step.Handshake) (simp_all add: f1 referenced_def)
  show thesis
  proof (rule that [of h2])
    show "(host_step T ?E abcd_digest)\<^sup>*\<^sup>* ?h0 h2"
      using one two by (meson rtranclp.rtrancl_into_rtrancl rtranclp.rtrancl_refl)
  qed (simp_all add: h2_def finish_handshake_def env f1 made go handshake_step_def run_hook_def Let_def session_at_def)
qed


theorem broadcast_reaches_open_sessions_witness:
  "\<exists>h :: sample_hosting. (host_step Plain (sample_env empty_dispatcher) abcd_digest)\<^sup>*\<^sup>* (new_host (host_server empty_dispatcher) 0) h
     \<and> session_objects (server_notify (sample_env empty_dispatcher) ''f'' [] ([] :: wire_value list) (srv h)) 7 =
         snd (try_notify (sample_env empty_dispatcher) ''f''
           (snd (encode_message (cereal (sample_env empty_dispatcher)) [] ([] :: wire_value list))) (sample_session empty_dispatcher []))"
proof -
  let ?E = "sample_env empty_dispatcher"
  obtain h :: sample_hosting where h: "(host_step Plain ?E abcd_digest)\<^sup>*\<^sup>* (new_host (host_server empty_dispatcher) 0) h"
    "dispatching (srv h) = [7]" "strand_queue (srv h) = [Insert_session 7]"
    "session_at 7 h = \<lparr>ses = hosted_session Plain empty_dispatcher [] None, app_state = 0, reader_on = True, writer_on = True\<rparr>"
    by (rule sample_hosting)
  let ?h = "h\<lparr>srv := strand_step (srv h)\<rparr>"
  have run: "(host_step Plain ?E abcd_digest)\<^sup>*\<^sup>* (new_host (host_server empty_dispatcher) 0) ?h"
    using h(1) host_step.Strand by (rule rtranclp.rtrancl_into_rtrancl)
  have sess: "session_objects (srv ?h) 7 = sample_session empty_dispatcher []"
    using arg_cong [OF h(4), of ses] by simp
  have "strand_queue (srv ?h) = []" "\<not> is_closed (session_objects (srv ?h) 7)"
    using h(3) by (simp_all only: sess) (simp_all add: strand_step_def sample_session_def make_session_def)
  with broadcast_reaches_open_sessions [OF host_server_ready run refl refl, of 7 "''f''" "[]" "[] :: wire_value list"] h(2) show ?thesis
    by (intro exI [of _ ?h] conjI run) (simp add: sess [symmetric])
qed

end
