(* ===== verification/Message_Types.thy ===== *)
theory Message_Types
  imports Dispatcher
begin

text \<open>
  Type safety of decoding. The C++ argument types of a registered method are a parameter of the model,
  and so is what it means for a value to be of such a type; from what cereal promises for each type it
  follows that a handler only ever sees arguments of its declared types, whatever bytes arrive.
\<close>

section \<open>Values of a type\<close>

text \<open>
  A load that cereal runs for a type returns, if it returns, a value of it: \<open>loads_only ok\<close> follows
  the program through every outcome of the primitives.
\<close>

primrec loads_only :: "('v \<Rightarrow> bool) \<Rightarrow> 'v loader \<Rightarrow> bool" where
  "loads_only ok (Return v) \<longleftrightarrow> ok v"
| "loads_only ok (Throw e) \<longleftrightarrow> True"
| "loads_only ok (LoadArithmetic n k) \<longleftrightarrow> (\<forall>bs. loads_only ok (k bs))"
| "loads_only ok (LoadSizeTag k) \<longleftrightarrow> (\<forall>sz. loads_only ok (k sz))"
| "loads_only ok (LoadBinaryData el n k) \<longleftrightarrow> (\<forall>bs. loads_only ok (k bs))"

text \<open>
  What is relied on for a type: a default-constructed object, an object whose load threw, and a loaded
  object are objects of the type.
\<close>

definition ctype_ok :: "('v ctype \<Rightarrow> 'v \<Rightarrow> bool) \<Rightarrow> 'v ctype \<Rightarrow> bool" where
  "ctype_ok inh t \<longleftrightarrow> inh t (default_value t) \<and> (\<forall>bs. inh t (after_throw t bs)) \<and> loads_only (inh t) (load_prog t)"

lemma run_loader_only: "loads_only ok prog \<Longrightarrow> run_loader E prog ar = (Inr v, ar') \<Longrightarrow> ok v"
proof (induction prog arbitrary: ar)
  case (LoadArithmetic n k)
  then show ?case
    by (cases "load_arithmetic E n ar" rule: result_pair_cases) auto
next
  case (LoadSizeTag k)
  then show ?case
    by (cases "load_size_tag E ar" rule: result_pair_cases) auto
next
  case (LoadBinaryData el n k)
  then show ?case
    by (cases "load_binary_data E el n ar" rule: result_pair_cases) auto
qed simp_all

lemma defaults_typed: "list_all (ctype_ok inh) ts \<Longrightarrow> list_all2 inh ts (map default_value ts)"
  by (induction ts) (auto simp: ctype_ok_def)

lemma load_args_typed:
  "list_all (ctype_ok inh) ts \<Longrightarrow> list_all2 inh ts (fst (snd (load_args E ts ar)))"
proof (induction ts arbitrary: ar)
  case (Cons t ts)
  then have t: "ctype_ok inh t" and ts: "list_all2 inh ts (map default_value ts)"
    by (simp_all add: defaults_typed)
  show ?case
  proof (cases "run_loader E (load_prog t) ar" rule: result_pair_cases)
    case (Throw e ar')
    with t ts show ?thesis
      by (simp add: ctype_ok_def)
  next
    case (Value v ar')
    with t have "inh t v"
      by (auto simp: ctype_ok_def intro: run_loader_only)
    with Value Cons show ?thesis
      by (simp add: case_prod_beta Let_def)
  qed
qed simp

lemma decode_typed:
  assumes "list_all (ctype_ok inh) ts"
  shows "list_all2 inh ts (snd (decode_message E ts buf))"
  using defaults_typed [OF assms] load_args_typed [OF assms]
  by (auto simp: decode_message_def Let_def case_prod_beta split: sum.split)

section \<open>Handlers\<close>

definition typed_dispatcher :: "('v ctype \<Rightarrow> 'v \<Rightarrow> bool) \<Rightarrow> ('v, 'app) dispatcher \<Rightarrow> bool" where
  "typed_dispatcher inh d \<longleftrightarrow>
     (\<forall>k entry. um_find (dispatch_table d) k = Some entry \<longrightarrow> list_all (ctype_ok inh) (arg_types (handler entry)))"

text \<open>Calls that differ, if at all, on arguments that are not of the declared types.\<close>

definition same_on_typed ::
    "('v ctype \<Rightarrow> 'v \<Rightarrow> bool) \<Rightarrow> ('v, 'app) call \<Rightarrow> ('v, 'app) call \<Rightarrow> bool" where
  "same_on_typed inh c c' \<longleftrightarrow> call_is_async c' = call_is_async c \<and> arg_types c' = arg_types c \<and> ret_type c' = ret_type c
     \<and> (\<forall>cur args app. list_all2 inh (arg_types c) args \<longrightarrow> the_call c' cur args app = the_call c cur args app)"

text \<open>A dispatcher in which the handlers were replaced by such calls.\<close>

definition typed_variant ::
    "('v ctype \<Rightarrow> 'v \<Rightarrow> bool) \<Rightarrow> ('v, 'app) dispatcher \<Rightarrow> ('v, 'app) dispatcher \<Rightarrow> bool" where
  "typed_variant inh d d' \<longleftrightarrow> disp_auth_callback d' = disp_auth_callback d
     \<and> um_size (dispatch_table d') = um_size (dispatch_table d)
     \<and> (\<forall>k. rel_option (\<lambda>e e'. entry_name e' = entry_name e \<and> vis e' = vis e \<and> same_on_typed inh (handler e) (handler e'))
              (um_find (dispatch_table d) k) (um_find (dispatch_table d') k))"

lemma dispatch_sync_typed:
  assumes "list_all (ctype_ok inh) (arg_types c)" and "same_on_typed inh c c'"
  shows "dispatch_sync E c' cur buf app = dispatch_sync E c cur buf app"
  using decode_typed [OF assms(1), of E buf] assms(2)
  by (simp add: dispatch_sync_def same_on_typed_def Let_def case_prod_beta split: sum.split)

lemma call_dispatch_typed:
  assumes "list_all (ctype_ok inh) (arg_types c)" and "same_on_typed inh c c'"
  shows "call_dispatch E c' cur buf app = call_dispatch E c cur buf app"
    and "call_dispatch_async E c' cur buf app = call_dispatch_async E c cur buf app"
  using dispatch_sync_typed [OF assms] assms(2)
  by (simp_all add: call_dispatch_def call_dispatch_async_def same_on_typed_def)

lemma enforce_auth_variant:
  assumes "disp_auth_callback d' = disp_auth_callback d" "entry_name e' = entry_name e" "vis e' = vis e"
  shows "enforce_auth d' e' ctx app = enforce_auth d e ctx app"
  using assms by (simp add: enforce_auth_def split: option.split prod.split sum.split)


text \<open>The types of the examples: numbers and strings.\<close>

definition wire_inh :: "wire_value ctype \<Rightarrow> wire_value \<Rightarrow> bool" where
  "wire_inh t v = (case default_value t of WU64 x \<Rightarrow> (\<exists>w. v = WU64 w) | WString s \<Rightarrow> (\<exists>cs. v = WString cs))"

lemma wire_ctypes_ok: "ctype_ok wire_inh (u64_ctype Ps Pr)" "ctype_ok wire_inh (string_ctype Ps Pr)"
  by (simp_all add: ctype_ok_def wire_inh_def u64_ctype_def string_ctype_def)

text \<open>A handler that would misbehave on anything but one number.\<close>

definition fragile_call :: "(wire_value, nat) call" where
  "fragile_call = triple_call\<lparr>the_call := (\<lambda>cur args n. (case args of [WU64 x] \<Rightarrow> (Inr (WU64 (3 * x)), [], Suc n)
     | _ \<Rightarrow> (Inr (WU64 0), [], 99)))\<rparr>"


end
