(* ===== verification/Tls_Context.thy ===== *)
theory Tls_Context
  imports Channels
begin

text \<open>
  The context builders of \<open>ssl_channel.hpp\<close>: the PEM loops that fill the trust store and the list of
  advertised certificate authorities, and \<open>make_server_context\<close> and \<open>make_client_context\<close>. OpenSSL and
  \<open>asio::ssl::context\<close> are parameters (a record of operations). Whether a loop over a PEM text ends is
  up to \<open>PEM_read_bio_X509\<close>, so a loop is a partial function.
\<close>

section \<open>The library\<close>

text \<open>
  \<open>pem_read\<close>: \<open>PEM_read_bio_X509\<close> on the unread text of a memory BIO, the certificate and what is left;
  \<open>bio_new\<close> and \<open>names_new\<close>: whether the allocations succeed; \<open>subject_dup\<close>: the copied subject name, if
  it could be copied; \<open>store_add\<close>: \<open>X509_STORE_add_cert\<close>; \<open>use_chain\<close>, \<open>use_key\<close>: the exception, if any;
  \<open>add_authority\<close>: \<open>add_certificate_authority\<close> on the trust store.
\<close>

record ('cert, 'name) tls_library =
  set_min :: "tls_version \<Rightarrow> bool"
  bio_new :: "string \<Rightarrow> bool"
  names_new :: bool
  pem_read :: "string \<Rightarrow> ('cert \<times> string) option"
  subject_dup :: "'cert \<Rightarrow> 'name option"
  store_add :: "'cert \<Rightarrow> 'cert list \<Rightarrow> 'cert list"
  use_chain :: "string \<Rightarrow> exn option"
  use_key :: "string \<Rightarrow> exn option"
  add_authority :: "string \<Rightarrow> 'cert list \<Rightarrow> 'cert list result"

record ('cert, 'name) tls_context = ssl_ctx +
  server_side :: bool
  chain_pem :: "string option"
  key_pem :: "string option"
  cert_store :: "'cert list"
  client_ca_list :: "'name list"

definition new_context :: "bool \<Rightarrow> ('cert, 'name) tls_context" where
  "new_context is_server =
     \<lparr>ctx_options = [], min_proto = None, verify_peer = False, fail_if_no_peer_cert = False, verify_depth = 0,
      server_side = is_server, chain_pem = None, key_pem = None, cert_store = [], client_ca_list = []\<rparr>"

section \<open>The loops\<close>

text \<open>\<open>while (X509* cert = PEM_read_bio_X509(bio, ...))\<close> with the given body.\<close>

partial_function (option) pem_loop ::
    "(string \<Rightarrow> ('cert \<times> string) option) \<Rightarrow> ('cert \<Rightarrow> 'a \<Rightarrow> 'a) \<Rightarrow> string \<Rightarrow> 'a \<Rightarrow> 'a option" where
  "pem_loop read body bio acc =
     (case read bio of
        None \<Rightarrow> Some acc
      | Some p \<Rightarrow> pem_loop read body (snd p) (body (fst p) acc))"

definition push_name :: "('cert \<Rightarrow> 'name option) \<Rightarrow> 'cert \<Rightarrow> 'name list \<Rightarrow> 'name list" where
  "push_name dup cert names = (case dup cert of None \<Rightarrow> names | Some name \<Rightarrow> names @ [name])"

definition add_client_ca_list_from_pem ::
    "('cert, 'name) tls_library \<Rightarrow> string \<Rightarrow> ('cert, 'name) tls_context \<Rightarrow> ('cert, 'name) tls_context option" where
  "add_client_ca_list_from_pem L ca_pem ctx =
     (if ca_pem = [] then Some ctx
      else if \<not> bio_new L ca_pem then Some ctx
      else if \<not> names_new L then Some ctx
      else case pem_loop (pem_read L) (push_name (subject_dup L)) ca_pem [] of
             None \<Rightarrow> None
           | Some names \<Rightarrow> Some (ctx\<lparr>client_ca_list := names\<rparr>))"

definition add_all_cas_from_pem ::
    "('cert, 'name) tls_library \<Rightarrow> string \<Rightarrow> ('cert, 'name) tls_context \<Rightarrow> ('cert, 'name) tls_context option" where
  "add_all_cas_from_pem L ca_pem ctx =
     (if ca_pem = [] then Some ctx
      else if \<not> bio_new L ca_pem then Some ctx
      else case pem_loop (pem_read L) (store_add L) ca_pem (cert_store ctx) of
             None \<Rightarrow> None
           | Some store \<Rightarrow> Some (ctx\<lparr>cert_store := store\<rparr>))"

section \<open>The builders\<close>

definition load_identity ::
    "('cert, 'name) tls_library \<Rightarrow> string \<Rightarrow> string \<Rightarrow> ('cert, 'name) tls_context \<Rightarrow> ('cert, 'name) tls_context result" where
  "load_identity L cert_pem key ctx =
     (case use_chain L cert_pem of
        Some e \<Rightarrow> Inl e
      | None \<Rightarrow> (case use_key L key of
                  Some e \<Rightarrow> Inl e
                | None \<Rightarrow> Inr (ctx\<lparr>chain_pem := Some cert_pem, key_pem := Some key\<rparr>)))"

text \<open>\<open>None\<close>: a PEM loop does not end.\<close>

definition make_server_context ::
    "('cert, 'name) tls_library \<Rightarrow> string \<Rightarrow> string \<Rightarrow> string \<Rightarrow> tls_config \<Rightarrow>
     ('cert, 'name) tls_context result option" where
  "make_server_context L cert_pem key ca_pem config =
     (case apply_tls_config (set_min L) config True (new_context True) of
        Inl e \<Rightarrow> Some (Inl e)
      | Inr ctx \<Rightarrow>
          (case load_identity L cert_pem key ctx of
             Inl e \<Rightarrow> Some (Inl e)
           | Inr ctx \<Rightarrow>
               if ca_pem = [] then Some (Inr ctx)
               else (case add_authority L ca_pem (cert_store ctx) of
                       Inl e \<Rightarrow> Some (Inl e)
                     | Inr store \<Rightarrow>
                         map_option Inr (add_client_ca_list_from_pem L ca_pem (ctx\<lparr>cert_store := store\<rparr>)))))"

definition make_client_context ::
    "('cert, 'name) tls_library \<Rightarrow> string \<Rightarrow> string \<Rightarrow> string \<Rightarrow> tls_config \<Rightarrow>
     ('cert, 'name) tls_context result option" where
  "make_client_context L cert_pem key ca_pem config =
     (case apply_tls_config (set_min L) config False (new_context False) of
        Inl e \<Rightarrow> Some (Inl e)
      | Inr ctx \<Rightarrow>
          (case (if cert_pem \<noteq> [] \<and> key \<noteq> [] then load_identity L cert_pem key ctx else Inr ctx) of
             Inl e \<Rightarrow> Some (Inl e)
           | Inr ctx \<Rightarrow>
               if ca_pem = [] then Some (Inr ctx) else map_option Inr (add_all_cas_from_pem L ca_pem ctx)))"

section \<open>The loops end\<close>

text \<open>
  The certificates of a PEM text, in order. Every certificate read takes at least one character off
  the text, which is what makes the loops end.
\<close>

inductive pem_bundle :: "(string \<Rightarrow> ('cert \<times> string) option) \<Rightarrow> string \<Rightarrow> 'cert list \<Rightarrow> bool"
  for read :: "string \<Rightarrow> ('cert \<times> string) option" where
  No_more: "read bio = None \<Longrightarrow> pem_bundle read bio []"
| Next: "read bio = Some (cert, rest) \<Longrightarrow> pem_bundle read rest certs \<Longrightarrow> pem_bundle read bio (cert # certs)"

inductive_cases pem_bundleE: "pem_bundle read bio certs"

definition consuming :: "(string \<Rightarrow> ('cert \<times> string) option) \<Rightarrow> bool" where
  "consuming read \<longleftrightarrow> (\<forall>bio cert rest. read bio = Some (cert, rest) \<longrightarrow> length rest < length bio)"

lemma pem_bundle_exists:
  assumes "consuming read"
  shows "\<exists>certs. pem_bundle read bio certs"
proof (induction bio rule: length_induct)
  case (1 bio)
  show ?case
  proof (cases "read bio")
    case None
    then show ?thesis
      by (blast intro: pem_bundle.No_more)
  next
    case (Some p)
    then obtain cert rest where p: "read bio = Some (cert, rest)"
      by (cases p) simp
    then have "length rest < length bio"
      using assms by (simp add: consuming_def)
    with 1 obtain certs where "pem_bundle read rest certs"
      by blast
    with p show ?thesis
      by (blast intro: pem_bundle.Next)
  qed
qed

lemma pem_bundle_unique: "pem_bundle read bio certs \<Longrightarrow> pem_bundle read bio certs' \<Longrightarrow> certs' = certs"
proof (induction arbitrary: certs' rule: pem_bundle.induct)
  case (No_more bio)
  from No_more.prems show ?case
    by (rule pem_bundleE) (simp_all add: No_more.hyps)
next
  case (Next bio cert rest certs)
  from Next.prems show ?case
  proof (rule pem_bundleE)
    fix cert' rest' certs''
    assume "certs' = cert' # certs''" "read bio = Some (cert', rest')" "pem_bundle read rest' certs''"
    with Next show ?thesis
      by simp
  qed (simp add: Next.hyps)
qed

lemma pem_loop_folds: "pem_bundle read bio certs \<Longrightarrow> pem_loop read body bio acc = Some (fold body certs acc)"
  by (induction arbitrary: acc rule: pem_bundle.induct) (simp_all add: pem_loop.simps)

lemma push_names: "fold (push_name dup) certs names = names @ List.map_filter dup certs"
  by (induction certs arbitrary: names) (simp_all add: push_name_def List.map_filter_simps split: option.split)

lemma store_adds:
  assumes "\<And>c cs. set (add c cs) = insert c (set cs)"
  shows "set (fold add certs store) = set store \<union> set certs"
  by (induction certs arbitrary: store) (auto simp: assms)

lemma identity_keeps:
  assumes "load_identity L cert key ctx = Inr ctx'"
  shows "cert_store ctx' = cert_store ctx" and "ctx_options ctx' = ctx_options ctx" and "min_proto ctx' = min_proto ctx"
    and "verify_peer ctx' = verify_peer ctx" and "fail_if_no_peer_cert ctx' = fail_if_no_peer_cert ctx"
    and "client_ca_list ctx' = client_ca_list ctx" and "verify_depth ctx' = verify_depth ctx"
  using assms by (auto simp: load_identity_def split: option.splits)

lemma ca_list_keeps:
  assumes "add_client_ca_list_from_pem L pem ctx = Some ctx'"
  shows "cert_store ctx' = cert_store ctx" and "ctx_options ctx' = ctx_options ctx" and "min_proto ctx' = min_proto ctx"
    and "verify_peer ctx' = verify_peer ctx" and "fail_if_no_peer_cert ctx' = fail_if_no_peer_cert ctx"
    and "verify_depth ctx' = verify_depth ctx"
  using assms by (auto simp: add_client_ca_list_from_pem_def split: if_splits option.splits)

lemma apply_tls_config_Inr:
  assumes "apply_tls_config sm cfg srv ctx = Inr ctx'"
  shows "ctx' = ctx\<lparr>ctx_options := ctx_options ctx @ [default_workarounds, no_sslv2, no_sslv3, no_compression, single_dh_use],
    min_proto := Some (if tls13_only cfg then TLS1_3 else TLS1_2),
    verify_peer := (if srv then require_client_cert cfg else verify_server_cert cfg),
    fail_if_no_peer_cert := (srv \<and> require_client_cert cfg), verify_depth := 5\<rparr>"
  using assms by (auto simp: apply_tls_config_def Let_def split: if_splits)

section \<open>Properties\<close>

text \<open>
  C28: building a client context ends and pins every anchor. If reading a certificate always takes
  text off the bundle, \<open>make_client_context\<close> returns, and if the library reports no error the context
  trusts exactly the certificates of the whole bundle, verifies the server as configured and
  negotiates no version below the configured minimum.
\<close>

theorem client_context_pins_bundle:
  fixes L :: "('cert, 'name) tls_library"
  assumes "consuming (pem_read L)" and "\<And>c cs. set (store_add L c cs) = insert c (set cs)"
    and "\<And>v. set_min L v" and "\<And>pem. bio_new L pem" and "use_chain L cert = None" and "use_key L key = None"
    and "ca \<noteq> []"
  shows "\<exists>ctx certs. make_client_context L cert key ca config = Some (Inr ctx) \<and> pem_bundle (pem_read L) ca certs
    \<and> set (cert_store ctx) = set certs \<and> verify_peer ctx = verify_server_cert config
    \<and> min_proto ctx = Some (if tls13_only config then TLS1_3 else TLS1_2)"
proof -
  obtain certs where certs: "pem_bundle (pem_read L) ca certs"
    using pem_bundle_exists [OF assms(1)] by blast
  obtain ctx1 :: "('cert, 'name) tls_context" where ctx1: "apply_tls_config (set_min L) config False (new_context False) = Inr ctx1"
    using assms(3) by (simp add: apply_tls_config_def Let_def)
  have "cert_store ctx1 = []"
    using apply_tls_config_Inr [OF ctx1] by (simp add: new_context_def)
  moreover obtain ctx2 where ctx2: "(if cert \<noteq> [] \<and> key \<noteq> [] then load_identity L cert key ctx1 else Inr ctx1) = Inr ctx2"
    using assms(5,6) by (cases "cert \<noteq> [] \<and> key \<noteq> []") (auto simp: load_identity_def)
  moreover have keep: "cert_store ctx2 = cert_store ctx1" "verify_peer ctx2 = verify_peer ctx1" "min_proto ctx2 = min_proto ctx1"
    using ctx2 identity_keeps [of L cert key ctx1 ctx2] by (auto split: if_splits)
  ultimately have "make_client_context L cert key ca config
      = Some (Inr (ctx2\<lparr>cert_store := fold (store_add L) certs []\<rparr>))"
    using assms(4,7) by (simp only: make_client_context_def ctx1 ctx2 sum.case add_all_cas_from_pem_def
        pem_loop_folds [OF certs] if_False if_True option.case option.map simp_thms)
  with certs store_adds [OF assms(2), of certs "[]"] apply_tls_config_Inr [OF ctx1] keep show ?thesis
    by (auto intro!: exI [of _ certs])
qed

text \<open>
  C27: a server context enforces what its configuration says. Whatever else happens while it is built,
  a context that \<open>make_server_context\<close> returns under the default configuration demands and verifies a
  client certificate, accepts no version below TLS 1.3, compresses nothing, and has loaded the given
  certificate and key.
\<close>

theorem server_context_enforces_mtls:
  assumes "make_server_context L cert key ca default_tls_config = Some (Inr ctx)"
  shows "verify_peer ctx \<and> fail_if_no_peer_cert ctx \<and> min_proto ctx = Some TLS1_3 \<and> no_compression \<in> set (ctx_options ctx)
    \<and> chain_pem ctx = Some cert \<and> key_pem ctx = Some key \<and> server_side ctx"
proof -
  obtain ctx1 ctx2 where ctx1: "apply_tls_config (set_min L) default_tls_config True (new_context True) = Inr ctx1"
    and ctx2: "load_identity L cert key ctx1 = Inr ctx2"
    and "ctx = ctx2 \<or> (\<exists>store. add_client_ca_list_from_pem L ca (ctx2\<lparr>cert_store := store\<rparr>) = Some ctx)"
    using assms by (auto simp: make_server_context_def split: sum.splits if_splits option.splits)
  moreover from this(3) have "chain_pem ctx = chain_pem ctx2" "key_pem ctx = key_pem ctx2" "verify_peer ctx = verify_peer ctx2"
    "fail_if_no_peer_cert ctx = fail_if_no_peer_cert ctx2" "min_proto ctx = min_proto ctx2" "ctx_options ctx = ctx_options ctx2"
    "server_side ctx = server_side ctx2"
    by (auto simp: add_client_ca_list_from_pem_def split: if_splits option.splits)
  ultimately show ?thesis
    using apply_tls_config_Inr [OF ctx1] identity_keeps [OF ctx2]
    by (auto simp: load_identity_def default_tls_config_def new_context_def split: option.splits)
qed

text \<open>
  A server context advertises authorities it does not trust. Where \<open>add_certificate_authority\<close>
  takes only the first certificate of its buffer, as the comment on \<open>add_all_cas_from_pem\<close> says of it,
  a server built from a bundle trusts the first certificate only and advertises the names of all.
\<close>

theorem server_trusts_first_advertises_all:
  fixes L :: "('cert, 'name) tls_library"
  assumes "add_authority L ca [] = Inr [anchor]" and "pem_bundle (pem_read L) ca (anchor # others)"
    and "\<And>v. set_min L v" and "\<And>pem. bio_new L pem" and "names_new L" and "use_chain L cert = None" and "use_key L key = None"
    and "ca \<noteq> []"
  shows "\<exists>ctx. make_server_context L cert key ca config = Some (Inr ctx) \<and> cert_store ctx = [anchor]
    \<and> client_ca_list ctx = List.map_filter (subject_dup L) (anchor # others)"
proof -
  obtain ctx1 :: "('cert, 'name) tls_context" where ctx1: "apply_tls_config (set_min L) config True (new_context True) = Inr ctx1" "cert_store ctx1 = []"
    using assms(3) by (simp add: apply_tls_config_def new_context_def Let_def)
  obtain ctx2 where ctx2: "load_identity L cert key ctx1 = Inr ctx2" "cert_store ctx2 = []"
    using assms(6,7) ctx1(2) by (simp add: load_identity_def)
  have names: "pem_loop (pem_read L) (push_name (subject_dup L)) ca [] = Some (List.map_filter (subject_dup L) (anchor # others))"
    by (simp only: pem_loop_folds [OF assms(2)] push_names append_Nil)
  have "make_server_context L cert key ca config = Some (Inr (ctx2\<lparr>cert_store := [anchor],
      client_ca_list := List.map_filter (subject_dup L) (anchor # others)\<rparr>))"
    using assms(1,4,5,8) ctx1 ctx2 names
    by (simp add: make_server_context_def add_client_ca_list_from_pem_def del: List.map_filter_simps)
  then show ?thesis
    by simp
qed

section \<open>A concrete library\<close>

text \<open>One-letter certificates, each followed by a newline; the subject of a certificate is its letter.\<close>

definition letter_pem :: "string \<Rightarrow> (char \<times> string) option" where
  "letter_pem bio = (case bio of c # nl # rest \<Rightarrow> Some (c, rest) | _ \<Rightarrow> None)"

definition letter_library :: "(char, char) tls_library" where
  "letter_library =
     \<lparr>set_min = (\<lambda>_. True), bio_new = (\<lambda>_. True), names_new = True, pem_read = letter_pem, subject_dup = Some,
      store_add = List.insert, use_chain = (\<lambda>_. None), use_key = (\<lambda>_. None),
      add_authority = (\<lambda>pem store. case letter_pem pem of None \<Rightarrow> Inl (runtime_error ''no start line'')
                         | Some (c, rest) \<Rightarrow> Inr (List.insert c store))\<rparr>"

lemma letter_pem_consuming: "consuming letter_pem"
  by (auto simp: consuming_def letter_pem_def split: list.splits)

lemma letter_bundle: "pem_bundle letter_pem ''r1l1'' ''rl''"
  by (auto simp: letter_pem_def intro!: pem_bundle.intros)

theorem client_context_pins_bundle_witness:
  "\<exists>ctx. make_client_context letter_library [] [] ''r1l1'' default_tls_config = Some (Inr ctx)
     \<and> set (cert_store ctx) = set ''rl'' \<and> verify_peer ctx"
proof -
  have "consuming (pem_read letter_library)"
    by (simp add: letter_library_def letter_pem_consuming)
  from client_context_pins_bundle [OF this, of "[]" "[]" "''r1l1''" default_tls_config]
  obtain ctx certs where ctx: "make_client_context letter_library [] [] ''r1l1'' default_tls_config = Some (Inr ctx)"
    "pem_bundle letter_pem ''r1l1'' certs" "set (cert_store ctx) = set certs" "verify_peer ctx = verify_server_cert default_tls_config"
    by (auto simp: letter_library_def)
  moreover have "certs = ''rl''"
    using pem_bundle_unique [OF letter_bundle ctx(2)] .
  ultimately show ?thesis
    by (auto simp: default_tls_config_def)
qed

theorem server_trusts_first_advertises_all_witness:
  "\<exists>ctx. make_server_context letter_library ''c'' ''k'' ''r1l1'' default_tls_config = Some (Inr ctx)
     \<and> cert_store ctx = ''r'' \<and> client_ca_list ctx = ''rl''"
  using server_trusts_first_advertises_all [of letter_library "''r1l1''" "CHR ''r''" "''l''" "''c''" "''k''" default_tls_config]
    letter_bundle by (auto simp: letter_library_def letter_pem_def List.map_filter_simps)

theorem server_context_enforces_mtls_witness:
  "\<exists>ctx. make_server_context letter_library ''c'' ''k'' [] default_tls_config = Some (Inr ctx)
     \<and> fail_if_no_peer_cert ctx \<and> key_pem ctx = Some ''k''"
proof -
  obtain ctx where ctx: "make_server_context letter_library ''c'' ''k'' [] default_tls_config = Some (Inr ctx)"
    by (simp add: make_server_context_def apply_tls_config_def load_identity_def letter_library_def Let_def)
  from server_context_enforces_mtls [OF this] ctx show ?thesis
    by blast
qed

end
