(* ===== verification/Buffer_Pool.thy ===== *)
theory Buffer_Pool
  imports Prelude
begin

text \<open>
  \<open>buffer_pool.hpp\<close>: the pool of reusable buffers and the guard that returns a buffer when it goes
  out of scope. A \<open>std::vector\<close> is its elements and its capacity. How far \<open>shrink_to_fit\<close>
  reduces the capacity is up to the standard library (it is a non-binding request), so it is a
  parameter; it never goes below the size.
\<close>

section \<open>Definitions\<close>

record vector =
  elems :: buffer_type
  cap :: nat

definition new_vector :: vector where
  "new_vector = \<lparr>elems = [], cap = 0\<rparr>"

definition vec_reserve :: "nat \<Rightarrow> vector \<Rightarrow> vector" where
  "vec_reserve n v = v\<lparr>cap := max (cap v) n\<rparr>"

definition vec_clear :: "vector \<Rightarrow> vector" where
  "vec_clear v = v\<lparr>elems := []\<rparr>"

definition vec_shrink_to_fit :: "(nat \<Rightarrow> nat \<Rightarrow> nat) \<Rightarrow> vector \<Rightarrow> vector" where
  "vec_shrink_to_fit shrunk v = v\<lparr>cap := shrunk (length (elems v)) (cap v)\<rparr>"

definition shrink_ok :: "(nat \<Rightarrow> nat \<Rightarrow> nat) \<Rightarrow> bool" where
  "shrink_ok shrunk \<longleftrightarrow> (\<forall>n c. n \<le> c \<longrightarrow> n \<le> shrunk n c \<and> shrunk n c \<le> c)"

record buffer_pool =
  available_buffers :: "vector list"
  max_size :: nat
  default_size :: nat
  hits :: u64
  misses :: u64

record buffer_guard =
  guard_buffer :: "vector option"
  guard_pool :: bool

definition make_buffer_pool :: "nat \<Rightarrow> nat \<Rightarrow> nat \<Rightarrow> buffer_pool" where
  "make_buffer_pool initial_size mx bsize =
     \<lparr>available_buffers = replicate initial_size (vec_reserve bsize new_vector), max_size = mx,
      default_size = bsize, hits = 0, misses = 0\<rparr>"

definition default_buffer_pool :: buffer_pool where
  "default_buffer_pool = make_buffer_pool 32 1024 4096"

definition get_buffer :: "buffer_pool \<Rightarrow> buffer_guard \<times> buffer_pool" where
  "get_buffer p =
     (case available_buffers p of
        b # rest \<Rightarrow> (\<lparr>guard_buffer = Some (vec_clear b), guard_pool = True\<rparr>,
                     p\<lparr>available_buffers := rest, hits := hits p + 1\<rparr>)
      | [] \<Rightarrow> (\<lparr>guard_buffer = Some (vec_reserve (default_size p) new_vector), guard_pool = True\<rparr>,
               p\<lparr>misses := misses p + 1\<rparr>))"

definition return_buffer :: "(nat \<Rightarrow> nat \<Rightarrow> nat) \<Rightarrow> vector option \<Rightarrow> buffer_pool \<Rightarrow> buffer_pool" where
  "return_buffer shrunk b p =
     (case b of None \<Rightarrow> p
      | Some v \<Rightarrow>
          if length (available_buffers p) < max_size p
          then let v' = (if cap v > default_size p * 4
                         then vec_reserve (default_size p) (vec_shrink_to_fit shrunk v) else v)
               in p\<lparr>available_buffers := available_buffers p @ [v']\<rparr>
          else p)"

definition destroy_guard :: "(nat \<Rightarrow> nat \<Rightarrow> nat) \<Rightarrow> buffer_guard \<Rightarrow> buffer_pool \<Rightarrow> buffer_pool" where
  "destroy_guard shrunk g p =
     (if guard_buffer g \<noteq> None \<and> guard_pool g then return_buffer shrunk (guard_buffer g) p else p)"

text \<open>Move construction and move assignment: the new owner and what is left of the source.\<close>

definition move_guard :: "buffer_guard \<Rightarrow> buffer_guard \<times> buffer_guard" where
  "move_guard other = (other, \<lparr>guard_buffer = None, guard_pool = False\<rparr>)"

definition move_assign_guard :: "buffer_guard \<Rightarrow> buffer_guard \<Rightarrow> buffer_guard \<times> buffer_guard" where
  "move_assign_guard self other =
     (self\<lparr>guard_buffer := guard_buffer other, guard_pool := guard_pool other\<rparr>,
      \<lparr>guard_buffer = None, guard_pool = False\<rparr>)"

definition release_guard :: "buffer_guard \<Rightarrow> buffer_guard" where
  "release_guard g = \<lparr>guard_buffer = None, guard_pool = False\<rparr>"

definition available_count :: "buffer_pool \<Rightarrow> nat" where
  "available_count p = length (available_buffers p)"

definition hit_ratio :: "buffer_pool \<Rightarrow> real" where
  "hit_ratio p =
     (let total = hits p + misses p
      in if total > 0 then real (unat (hits p)) / real (unat total) else 0)"

text \<open>
  \<open>thread_local_buffer_pool\<close>: each thread has a pool of its own, made with the default sizes when the
  thread first asks for a buffer.
\<close>

type_synonym thread_pools = "nat \<Rightarrow> buffer_pool option"

definition thread_local_get_buffer :: "nat \<Rightarrow> thread_pools \<Rightarrow> buffer_guard \<times> thread_pools" where
  "thread_local_get_buffer tid pools =
     (let (g, p) = get_buffer (case pools tid of None \<Rightarrow> default_buffer_pool | Some p \<Rightarrow> p) in (g, pools(tid \<mapsto> p)))"

section \<open>The pool under any use\<close>

text \<open>One client operation: take a buffer, or give back one whose contents the client changed.\<close>

datatype pool_event = Get | Return vector

fun pool_apply :: "(nat \<Rightarrow> nat \<Rightarrow> nat) \<Rightarrow> pool_event \<Rightarrow> buffer_pool \<Rightarrow> buffer_pool" where
  "pool_apply shrunk Get p = snd (get_buffer p)"
| "pool_apply shrunk (Return v) p = return_buffer shrunk (Some v) p"

definition pool_ok :: "nat \<Rightarrow> nat \<Rightarrow> buffer_pool \<Rightarrow> bool" where
  "pool_ok initial_size gets p \<longleftrightarrow> length (available_buffers p) \<le> max initial_size (max_size p)
     \<and> hits p + misses p = of_nat gets"

lemma thread_local_get_buffer_own:
  "snd (thread_local_get_buffer tid pools) tid' =
     (if tid' = tid then Some (snd (get_buffer (case pools tid of None \<Rightarrow> default_buffer_pool | Some p \<Rightarrow> p))) else pools tid')"
  by (simp add: thread_local_get_buffer_def split_beta)

lemma make_pool_ok: "pool_ok initial_size 0 (make_buffer_pool initial_size mx bsize)"
  by (simp add: pool_ok_def make_buffer_pool_def)

lemma pool_apply_ok [inv_intros]:
  assumes "pool_ok k n p"
  shows "pool_ok k (if e = Get then Suc n else n) (pool_apply shrunk e p)"
  using assms
  by (cases e) (auto simp: pool_ok_def get_buffer_def return_buffer_def Let_def algebra_simps split: list.splits)

lemma pool_apply_consts [simp]:
  "max_size (pool_apply shrunk e p) = max_size p" "default_size (pool_apply shrunk e p) = default_size p"
  by (cases e; simp add: get_buffer_def return_buffer_def Let_def split: list.split)+

lemma pool_run_ok:
  "pool_ok k n p \<Longrightarrow>
   pool_ok k (n + length (filter (\<lambda>e. e = Get) es)) (fold (pool_apply shrunk) es p)
   \<and> max_size (fold (pool_apply shrunk) es p) = max_size p"
proof (induction es arbitrary: n p)
  case Nil
  then show ?case by simp
next
  case (Cons e es)
  from Cons.IH [OF pool_apply_ok [OF Cons.prems, of e shrunk]] show ?case
    by (auto split: if_splits)
qed

lemma get_buffer_empty: "get_buffer p = (g, p') \<Longrightarrow> \<exists>v. guard_buffer g = Some v \<and> elems v = [] \<and> guard_pool g"
  by (auto simp: get_buffer_def vec_clear_def vec_reserve_def new_vector_def split: list.splits)

text \<open>
  C40: under any sequence of takes and returns the pool never holds more than the larger of its
  initial and its maximal size, every take was counted as exactly one hit or one miss, and whatever
  was left in the buffers that were given back, the next take hands out an empty buffer.
\<close>

theorem pool_bounded_and_clean:
  assumes "p = fold (pool_apply shrunk) es (make_buffer_pool initial_size mx bsize)"
  shows "available_count p \<le> max initial_size mx
    \<and> hits p + misses p = of_nat (length (filter (\<lambda>e. e = Get) es))
    \<and> (\<exists>v. guard_buffer (fst (get_buffer p)) = Some v \<and> elems v = [])"
proof -
  have "pool_ok initial_size (length (filter (\<lambda>e. e = Get) es)) p \<and> max_size p = mx"
    using pool_run_ok [OF make_pool_ok, of initial_size es shrunk mx bsize] assms
    by (simp add: make_buffer_pool_def)
  then show ?thesis
    using get_buffer_empty [OF surjective_pairing, of p] by (auto simp: pool_ok_def available_count_def)
qed

theorem pool_bounded_and_clean_witness:
  "available_count (fold (pool_apply (\<lambda>n c. n)) [Get, Return \<lparr>elems = [1, 2], cap = 9\<rparr>, Get, Get] (make_buffer_pool 1 2 4)) \<le> 2"
  using pool_bounded_and_clean [OF refl, of "\<lambda>n c. n" "[Get, Return \<lparr>elems = [1, 2], cap = 9\<rparr>, Get, Get]" 1 2 4]
  by simp

text \<open>
  The pool does not bound the memory of the buffers it keeps. \<open>return_buffer\<close> asks the vector
  to shrink before its contents are cleared, so a buffer that is returned with more than four times
  the default size in it is pooled with a capacity of at least that size.
\<close>

theorem returned_buffer_keeps_capacity:
  assumes "shrink_ok shrunk" and "length (elems v) \<le> cap v" and "length (elems v) > default_size p * 4"
    and "available_count p < max_size p"
  shows "\<exists>v'. available_buffers (return_buffer shrunk (Some v) p) = available_buffers p @ [v']
    \<and> cap v' > default_size p * 4"
proof -
  have "length (elems v) \<le> shrunk (length (elems v)) (cap v)"
    using assms(1,2) by (simp add: shrink_ok_def)
  with assms show ?thesis
    by (simp add: return_buffer_def Let_def available_count_def vec_reserve_def vec_shrink_to_fit_def)
qed

theorem returned_buffer_keeps_capacity_witness:
  "\<exists>v'. available_buffers (return_buffer (\<lambda>n c. n) (Some \<lparr>elems = replicate 20 0, cap = 32\<rparr>) (make_buffer_pool 0 2 4)) = [v']
    \<and> cap v' > 16"
  using returned_buffer_keeps_capacity [of "\<lambda>n c. n" "\<lparr>elems = replicate 20 0, cap = 32\<rparr>" "make_buffer_pool 0 2 4"]
  by (simp add: shrink_ok_def make_buffer_pool_def available_count_def)

text \<open>Assigning to a guard that holds a buffer destroys that buffer: the pool does not get it back.\<close>

lemma move_assign_drops_buffer:
  "destroy_guard shrunk (snd (move_assign_guard self other))
     (destroy_guard shrunk (fst (move_assign_guard self other)) p) = destroy_guard shrunk other p"
  by (simp add: move_assign_guard_def destroy_guard_def)

end
