(* ===== verification/Async_Logger.thy ===== *)
theory Async_Logger
  imports Prelude
begin

text \<open>
  \<open>async_logger.hpp\<close>: the logger every session owns. Entries are queued on a strand and written by
  a worker coroutine that waits on a timer. The timer is the library's: changing its expiry
  (\<open>expires_after\<close>) or cancelling it completes an outstanding wait with
  \<open>operation_aborted\<close>; both are documented and written out here. What spdlog was given is the list
  \<open>written\<close>.
\<close>

section \<open>Definitions\<close>

datatype log_level = debug | info | warning | log_error

fun level_num :: "log_level \<Rightarrow> nat" where
  "level_num debug = 0"
| "level_num info = 1"
| "level_num warning = 2"
| "level_num log_error = 3"

lemma level_num_inj: "level_num a = level_num b \<Longrightarrow> a = b"
  by (cases a; cases b) simp_all

instantiation log_level :: linorder
begin

definition less_eq_log_level :: "log_level \<Rightarrow> log_level \<Rightarrow> bool" where
  "a \<le> b \<longleftrightarrow> level_num a \<le> level_num b"

definition less_log_level :: "log_level \<Rightarrow> log_level \<Rightarrow> bool" where
  "a < b \<longleftrightarrow> level_num a < level_num b"

instance
  by standard (auto simp: less_eq_log_level_def less_log_level_def intro: level_num_inj)

end

record log_entry =
  entry_level :: log_level
  message :: string

text \<open>Where the worker coroutine is: not started, in the timer's wait, resumable with the wait's result, or done.\<close>

datatype worker_state = NotStarted | AwaitingTimer | Resumed "error_code option" | WorkerDone

record async_logger =
  min_level :: log_level
  pending_logs :: "log_entry list"
  is_stopped :: bool
  worker :: worker_state
  written :: "log_entry list"

definition make_logger :: "log_level \<Rightarrow> async_logger" where
  "make_logger lvl = \<lparr>min_level = lvl, pending_logs = [], is_stopped = False, worker = NotStarted, written = []\<rparr>"

definition timer_abort :: "async_logger \<Rightarrow> async_logger" where
  "timer_abort l = (if worker l = AwaitingTimer then l\<lparr>worker := Resumed (Some operation_aborted)\<rparr> else l)"

definition timer_expires :: "async_logger \<Rightarrow> async_logger" where
  "timer_expires l = (if worker l = AwaitingTimer then l\<lparr>worker := Resumed None\<rparr> else l)"

definition flush_pending_logs :: "async_logger \<Rightarrow> async_logger" where
  "flush_pending_logs l = l\<lparr>written := written l @ pending_logs l, pending_logs := []\<rparr>"

text \<open>The head of the worker's loop: wait again, or leave it and flush.\<close>

definition worker_loop :: "async_logger \<Rightarrow> async_logger" where
  "worker_loop l =
     (if is_stopped l then (flush_pending_logs l)\<lparr>worker := WorkerDone\<rparr> else l\<lparr>worker := AwaitingTimer\<rparr>)"

definition start_logger :: "async_logger \<Rightarrow> async_logger" where
  "start_logger l = worker_loop l"

definition log_worker_resume :: "async_logger \<Rightarrow> async_logger" where
  "log_worker_resume l =
     (case worker l of
        Resumed None \<Rightarrow> worker_loop (if is_stopped l then l else flush_pending_logs l)
      | Resumed (Some ec) \<Rightarrow>
          if ec = operation_aborted then (flush_pending_logs l)\<lparr>worker := WorkerDone\<rparr> else worker_loop l
      | _ \<Rightarrow> l)"

definition stop_logger :: "async_logger \<Rightarrow> async_logger" where
  "stop_logger l = timer_abort (l\<lparr>is_stopped := True\<rparr>)"

definition push_entry :: "log_entry \<Rightarrow> async_logger \<Rightarrow> async_logger" where
  "push_entry e l =
     (if is_stopped l then l
      else let l1 = l\<lparr>pending_logs := pending_logs l @ [e]\<rparr>
           in if length (pending_logs l1) = 1 then timer_abort l1 else l1)"

definition log_msg :: "log_level \<Rightarrow> string \<Rightarrow> async_logger \<Rightarrow> async_logger" where
  "log_msg lvl m l =
     (if lvl < min_level l then l
      else if is_stopped l then l
      else push_entry \<lparr>entry_level = lvl, message = m\<rparr> l)"

definition logger_debug :: "string \<Rightarrow> async_logger \<Rightarrow> async_logger" where
  "logger_debug m = log_msg debug m"

definition logger_info :: "string \<Rightarrow> async_logger \<Rightarrow> async_logger" where
  "logger_info m = log_msg info m"

definition logger_warning :: "string \<Rightarrow> async_logger \<Rightarrow> async_logger" where
  "logger_warning m = log_msg warning m"

definition logger_error :: "string \<Rightarrow> async_logger \<Rightarrow> async_logger" where
  "logger_error m = log_msg log_error m"

definition flush_logger :: "async_logger \<Rightarrow> async_logger" where
  "flush_logger l = flush_pending_logs l"

section \<open>Order and completeness\<close>

text \<open>Everything that can happen to a logger, as a step relation.\<close>

inductive logger_step :: "async_logger \<Rightarrow> log_entry list \<Rightarrow> async_logger \<Rightarrow> bool" where
  Log: "\<not> lvl < min_level l \<Longrightarrow> \<not> is_stopped l \<Longrightarrow>
    logger_step l [\<lparr>entry_level = lvl, message = m\<rparr>] (log_msg lvl m l)"
| Skipped: "lvl < min_level l \<or> is_stopped l \<Longrightarrow> logger_step l [] (log_msg lvl m l)"
| Start: "worker l = NotStarted \<Longrightarrow> logger_step l [] (start_logger l)"
| Expire: "logger_step l [] (timer_expires l)"
| Resume: "logger_step l [] (log_worker_resume l)"
| Stop: "logger_step l [] (stop_logger l)"
| Flush: "logger_step l [] (flush_logger l)"

inductive_cases logger_stepE: "logger_step l es l'"

inductive logger_run :: "async_logger \<Rightarrow> log_entry list \<Rightarrow> async_logger \<Rightarrow> bool" where
  Done: "logger_run l [] l"
| Step: "logger_run l es l' \<Longrightarrow> logger_step l' fs l'' \<Longrightarrow> logger_run l (es @ fs) l''"

lemmas logger_defs = log_msg_def push_entry_def timer_abort_def start_logger_def worker_loop_def
  timer_expires_def log_worker_resume_def stop_logger_def flush_logger_def flush_pending_logs_def

lemma logger_step_order:
  assumes "logger_step l es l'"
  shows "written l' @ pending_logs l' = written l @ pending_logs l @ es" and "min_level l' = min_level l"
  using assms
  by (cases; auto simp: logger_defs Let_def split: worker_state.split option.split)+

text \<open>No threshold suppresses an error, and every threshold above debug suppresses a debug message.\<close>

lemma logger_error_unfiltered:
  "\<not> is_stopped l \<Longrightarrow> logger_error m l = push_entry \<lparr>entry_level = log_error, message = m\<rparr> l"
  by (cases "min_level l") (simp_all add: logger_error_def log_msg_def less_log_level_def)

lemma logger_debug_filtered: "debug < min_level l \<Longrightarrow> logger_debug m l = l"
  by (simp add: logger_debug_def log_msg_def)



section \<open>The worker does not survive the first entry\<close>

text \<open>
  The first entry ends the background worker. When the worker waits on the timer and the queue is
  empty, \<open>log\<close> restarts the timer; that completes the worker's wait with
  \<open>operation_aborted\<close>, on which the worker flushes and returns. From then on nothing but an explicit
  \<open>flush\<close> writes an entry, however many are logged.
\<close>

theorem first_entry_ends_worker:
  assumes "worker l = AwaitingTimer" and "pending_logs l = []" and "\<not> is_stopped l" and "min_level l \<le> lvl"
    and "l1 = log_worker_resume (log_msg lvl m l)"
  shows "worker l1 = WorkerDone
    \<and> written (fold (\<lambda>(v, t) l. log_worker_resume (timer_expires (log_msg v t l))) later l1) = written l1"
proof -
  have "worker l1 = WorkerDone"
    using assms by (simp add: logger_defs Let_def)
  moreover have "worker l' = WorkerDone \<Longrightarrow>
      written (fold (\<lambda>(v, t) l. log_worker_resume (timer_expires (log_msg v t l))) later l') = written l'" for l'
  proof (induction later arbitrary: l')
    case (Cons e later)
    obtain v t where e: "e = (v, t)"
      by force
    let ?n = "log_worker_resume (timer_expires (log_msg v t l'))"
    have "worker ?n = WorkerDone \<and> written ?n = written l'"
      using Cons.prems by (simp add: logger_defs Let_def)
    with Cons.IH [of ?n] show ?case
      by (simp add: e)
  qed simp
  ultimately show ?thesis
    by blast
qed

theorem first_entry_ends_worker_witness:
  "written (fold (\<lambda>(v, t) l. log_worker_resume (timer_expires (log_msg v t l))) [(log_error, ''b''), (log_error, ''c'')]
      (log_worker_resume (log_msg log_error ''a'' (start_logger (make_logger info)))))
   = [\<lparr>entry_level = log_error, message = ''a''\<rparr>]"
proof -
  let ?l = "start_logger (make_logger info)"
  let ?l1 = "log_worker_resume (log_msg log_error ''a'' ?l)"
  have "worker ?l = AwaitingTimer" "pending_logs ?l = []" "\<not> is_stopped ?l" "min_level ?l \<le> log_error"
    by (simp_all add: logger_defs make_logger_def less_eq_log_level_def)
  from first_entry_ends_worker [OF this refl, of "''a''" "[(log_error, ''b''), (log_error, ''c'')]"]
  have "written (fold (\<lambda>(v, t) l. log_worker_resume (timer_expires (log_msg v t l))) [(log_error, ''b''), (log_error, ''c'')] ?l1)
      = written ?l1"
    by blast
  also have "written ?l1 = [\<lparr>entry_level = log_error, message = ''a''\<rparr>]"
    by (simp add: logger_defs make_logger_def less_log_level_def)
  finally show ?thesis .
qed

end
