(* ===== verification/Spec2Isabelle.thy ===== *)
theory Spec2Isabelle
  imports Client Hosted_Server Message_Types Tls_Context Buffer_Pool Async_Logger
begin

text \<open>
  grlx-rpc is a header-only C++20 library for remote procedure calls over TCP or TLS, built on
  Boost.Asio coroutines and cereal (\<open>src/include/grlx/rpc\<close>). A client calls a method by name; the
  name's 64-bit hash and the encoded arguments travel in a frame; the server's session looks the
  method up, authorises the peer, runs the handler and sends the encoded result back under the same
  token.

  Theories and what they model:

  \<^item> \<open>Prelude\<close>: machine integers and their memory image, error codes and exceptions as values, the
    platform properties the code depends on. \<open>Umap\<close>: \<open>std::unordered_map\<close> behind the locale
    \<open>unordered_map\<close>. \<open>Asio\<close>: the contracts of the library's channels and streams, which
    are parameters of every definition that uses them (records of operations), with one concrete
    instance of each for the examples. Besides first-in first-out delivery and prompt completion there
    are contracts for what a closed channel or stream does and for a peer that keeps reading; a
    theorem names the ones it needs.
  \<^item> \<open>String_Hash\<close> (\<open>string_hash.hpp\<close>): FNV-1a, 32 and 64 bits, every constructor, the wrapper class
    with its order and its \<open>std::hash\<close>.
  \<^item> \<open>Security\<close> (\<open>security.hpp\<close>): token bucket (locale \<open>rate_limiter\<close>), limits, client context,
    visibility, the thread-local call context.
  \<^item> \<open>Encoder\<close> (\<open>encoder.hpp\<close>, \<open>message.hpp\<close>): the bounded input archive and the message encoder
    (locale \<open>message_encoder\<close>). cereal's load and save functions are parameters: a load is an
    arbitrary program over the archive's primitives.
  \<^item> \<open>Dispatcher\<close> (\<open>dispatcher.hpp\<close>): the method table, the stubs, the authorisation gate.
    \<open>Message_Types\<close> adds what a value of a C++ type is, as a parameter, and shows that handlers only
    see arguments of their declared types.
  \<^item> \<open>Async_Manager\<close> (\<open>async_manager.hpp\<close>): pending calls (locale \<open>pending_calls\<close>), with
    channels in a heap because table and waiter share them.
  \<^item> \<open>Session\<close> (\<open>session.hpp\<close>): the data members as a record; \<open>call\<close>, \<open>notify\<close>,
    \<open>try_ping\<close>, \<open>close\<close> and the rest as functions; one iteration of \<open>msg_reader\<close> and of
    \<open>msg_writer\<close>, one step of a request task and of the notification strand as functions.
    \<open>Session_Protocol\<close> has the step relation in which these interleave, the wire format and the
    invariants of a running session; \<open>Session_Requests\<close> what each kind of frame does;
    \<open>Session_Liveness\<close> that queued frames are written, that a closed session winds down and that a
    call never hangs, the last two through the locale \<open>session_invariant\<close>, which reduces an invariant
    of a run to the few operations that touch what it speaks about. \<open>Framing\<close> is a reference
    definition of the wire format, how any byte stream divides into frames, with its round trip;
    \<open>Session_Accounting\<close> compares running sessions with it: two accounts, of the handler runs and of
    the replies that are still due, which no step overdraws; \<open>At_Most_Once\<close> adds the caller's side,
    whose tokens are distinct, and joins the two ends; \<open>Call_Results\<close> follows the results back, through
    the responses on the wire and the table of pending calls.
  \<^item> \<open>Channels\<close> (\<open>tcp_channel.hpp\<close>, \<open>ssl_channel.hpp\<close>): address parsing, accepting behind
    a pre-handshake filter (locale \<open>raw_acceptor\<close>, interpreted on both), handshakes, connecting,
    the TLS policy, certificate fingerprints. What OpenSSL, the resolver and the acceptor report are
    arguments. \<open>Channel_State\<close> has the channel objects (binding, closing, moving, the composed
    \<open>accept\<close> and \<open>connect\<close>; locale \<open>channel_object\<close>, interpreted on both), \<open>Tls_Context\<close> the
    builders of server and client contexts with their loops over a PEM bundle.
  \<^item> \<open>Server\<close> (\<open>server.hpp\<close>): the accept filter with its counters and buckets, accepting,
    handshakes and session ends as the steps of a transition system, the session set behind its
    strand, hooks, notifications, teardown. \<open>Server_Lifecycle\<close> has \<open>start\<close> over a channel object,
    the accept loop on it, the setters and the move constructor, and shows that a started server
    accepts as the transition system does.
  \<^item> \<open>Hosted_Sessions\<close>: the server with all its sessions running at once. A step is one of the server's
    (accepting, the end of a handshake or of a session, the strand, a notification, \<open>stop\<close>) or one of
    any session's, over one method table and one application state. Each session carries a record
    beside the code's state: its certificate and the handler runs it has had. A handshake ends with a
    session object at an address that nothing refers to, which is what the allocator promises.
    \<open>Hosted_Server\<close> projects such a run to a run of the server's transition system and to one run
    per session, so that what was proved of the parts holds of the whole.
  \<^item> \<open>Client\<close> (\<open>client.hpp\<close>): the synchronised session pointer (locale \<open>pointer_cell\<close>),
    connecting, the two halves of an invocation, notification handlers, disconnecting; again a
    transition system.
  \<^item> \<open>Buffer_Pool\<close> (\<open>buffer_pool.hpp\<close>) and \<open>Async_Logger\<close> (\<open>async_logger.hpp\<close>).

  A coroutine is cut at its suspension points: each function runs from one resumption to the next, so
  an interleaving of coroutines is a sequence of such functions. A handler runs as one step. Work
  posted to an executor is a list in the state; a strand is a queue. A clock reading is an argument.
  A loop that never ends (\<open>msg_reader\<close>, \<open>msg_writer\<close>) is its iteration, and runs of it are
  recursive functions over the list of clock readings or paths of the step relation, so no fuel is
  needed and these functions are total. The loops over a PEM text end only if OpenSSL's reader makes
  progress; they are partial functions, and that they return is a theorem under that hypothesis.

  What the theorems show, in groups: a remote call returns exactly what the handler returned, through
  encoding, framing, limits, authorisation, the table of pending calls and back; frames stay whole on
  the wire and the reader never loses the frame boundary; over any interleaving, and whatever bytes
  arrive, a request frame runs its handler at most once and is answered at most once, nothing else is,
  and end to end a call is executed at most once, and what it returns, if it returns a result, is what
  that one handler run on its arguments produced, also when the server serves any number of other
  clients meanwhile; sessions of one server do not mix: each runs as if alone beside an application
  that others change, and a handler runs for the peer whose certificate its session was opened with; an accepted request gets exactly one reply and each
  reply reaches exactly its call; handlers only see arguments of their declared types; sizes, rates and decoding allocations are bounded whatever the peer
  sends; teardown is final; the authorisation gate decides; hashing agrees between all constructors;
  the server's counters are exact in every reachable state and its sessions bounded; a targeted
  notification reaches exactly its sessions, a broadcast every open session the strand has
  entered, and a registered handler exactly its notifications; the
  client's connection pointer never outlives its session; a notification the server sends to a session
  runs the handler the client registered, on the values sent; queued frames reach the stream, a closed
  session winds down and every call ends; the TLS contexts trust and demand what was configured; the
  accept loop on the channel object is the accept step of the transition system.
  A few theorems show behaviour that contradicts a comment or the evident intent of the code: the
  ungated notification path, the ignored decoding result, the missing-callback default, the logger's
  worker that ends at the first entry, the entry a timed-out call leaves behind, the dangling call
  context, the ignored token, the platform-dependent hash of non-ASCII names, the pooled capacity, the
  session caps that concurrent handshakes exceed, the server context that trusts less than it
  advertises, and the accept loop that \<open>stop\<close> does not stop.

  Not modelled: floating-point rounding (\<open>double\<close> is \<open>real\<close>), memory exhaustion, the memory model
  below the mutexes and atomics (each critical section is one step), the texts of library error
  messages, and the implementations of Boost.Asio, cereal, OpenSSL and spdlog. In the steps of
  \<open>host_step\<close> the method table and the limits are those the server was started with: attaching
  a method or changing a limit while it serves is not one of those steps, since the code does not
  synchronise either with the coroutines that read them.
  \<open>disable_nagle\<close>
  sets a socket option that no modelled behaviour depends on, a timer may fire at any moment (so the
  30 seconds a call waits by default do not matter), the text-archive branch of
  \<open>serialize_with_optimal_method\<close> is not taken by the \<open>binary_encoder\<close>, and the bodies of the server's log
  functions are commented out in the source. What a moved-from object holds, where the standard does
  not say, is an argument of the move constructors.
\<close>

section \<open>A remote call, end to end\<close>

lemma run_handler_authorised:
  assumes "um_find (dispatch_table (session_dispatcher E)) (h ! CALL_ID_IDX) = Some entry"
    and "authorised (session_dispatcher E) entry (request_ctx s) a"
    and "dispatch_sync (cereal E) (handler entry) (Some (request_ctx s)) buf
           (after_gate (session_dispatcher E) entry (request_ctx s) a) = (Inr rsp, acts, a')"
  shows "run_handler E h buf s a = (Replying h (Some rsp), fold apply_ctx_action acts s, a')"
  using assms
  by (simp add: run_handler_def is_async_def dispatch_async_ctx_def dispatch_ctx_def find_entry_or_throw_def
      enforce_auth_Inr call_dispatch_def call_dispatch_async_def Let_def)

text \<open>The round trip at the level of the two sessions.\<close>

lemma session_call_roundtrip:
  assumes client: "library_ok C cbuf copen c_in c_out"
    and chans: "fifo_channel (rc_ops C) rbuf ropen" "prompt_channel (rc_ops C) rbuf ropen"
    and server: "library_ok S sbuf sopen s_in s_out" and plat: "env_plat S = env_plat C"
    and req: "req = snd (encode_message (cereal C) (arg_types (handler entry)) vs)"
    and call: "call_begin C name req c = (Inr (tok, ch), c1)"
    and req_frame: "s_in (stream s) = frame_bytes (env_plat S) (last (cbuf (write_channel c1))) @ rest"
    and req_fits: "fits (limits s) (last (cbuf (write_channel c1)))"
    and not_limited: "fst (try_take 1 now (request_bucket s))"
    and read: "msg_reader_step S now s = (st, s1)"
    and entry: "um_find (dispatch_table (session_dispatcher S)) (shash64 (env_plat C) name) = Some entry"
    and auth: "authorised (session_dispatcher S) entry (request_ctx s) a"
    and args: "compatible (cereal C) (cereal S) (arg_types (handler entry)) vs"
    and ret: "ret_type (handler entry) = Some t" "compatible (cereal S) (cereal C) [t] [v]"
    and body: "the_call (handler entry) (Some (request_ctx s)) vs
                 (after_gate (session_dispatcher S) entry (request_ctx s) a) = (Inr v, acts, a')"
    and reply: "accepts S s2" "s3 = send_reply S h rsp s2" "run_handler S h b s1 a = (Replying h rsp, s1', a1)"
      "last (request_tasks s1) = Spawned h b"
    and rsp_frame: "c_in (stream c2) = frame_bytes (env_plat C) (last (sbuf (write_channel s3))) @ rest'"
    and rsp_fits: "fits (limits c2) (last (sbuf (write_channel s3)))"
    and waits: "waiting_at tok ch (ch_make (rc_ops C) 1) (async_mgr c2)"
    and answer: "msg_reader_step C now' c2 = (st', c3)"
  shows "a1 = a' \<and> (\<exists>bytes c4. call_receive C name False ch c3 = Some (Inr bytes, c4)
    \<and> decode_message (cereal C) [t] bytes = (True, [v]))"
proof -
  let ?cid = "shash64 (env_plat C) name"
  define item where "item = \<lparr>wi_header = make_header request (of_nat (length req)) ?cid tok, wi_body = req\<rparr>"
  have last: "last (cbuf (write_channel c1)) = item"
    using call_begin_queues [OF client call] by (simp add: item_def)
  have h: "h = wi_header item" "b = req" and ctx: "request_ctx s1 = request_ctx s"
    using read_request [OF server item_def _ _ not_limited read] req_frame req_fits reply(4) by (simp_all add: last)
  obtain bytes where bytes: "dispatch_sync (cereal S) (handler entry) (Some (request_ctx s)) req
      (after_gate (session_dispatcher S) entry (request_ctx s) a) = (Inr bytes, acts, a')"
    and dec: "decode_message (cereal C) [t] bytes = (True, [v])"
    using dispatch_sync_roundtrip [OF args ret(2,1) body] req by auto
  have "run_handler S h b s1 a = (Replying h (Some bytes), fold apply_ctx_action acts s1, a')"
    using run_handler_authorised [of S h entry s1 a b bytes acts a'] entry auth bytes
    by (simp add: h ctx item_def)
  then have rsp: "rsp = Some bytes" and a1: "a1 = a'"
    using reply(3) by simp_all
  define ritem where "ritem = \<lparr>wi_header = make_header response (of_nat (length bytes)) ?cid tok, wi_body = bytes\<rparr>"
  obtain wc where "respond S response h bytes s2 = (Inr (), s2\<lparr>write_channel := wc\<rparr>)"
    "sbuf wc = sbuf (write_channel s2) @ [reply_item response h bytes]"
    using respond_accepted [OF server reply(1), of response h bytes] by blast
  then have rlast: "last (sbuf (write_channel s3)) = ritem"
    by (simp add: reply(2) rsp send_reply_def reply_item_def ritem_def h item_def)
  have idle: "ropen (ch_make (rc_ops C) 1)" "rbuf (ch_make (rc_ops C) 1) = []"
    using fifo_make [OF chans(1)] by simp_all
  have "\<exists>c4. call_receive C name False ch c3 = Some (Inr bytes, c4)"
    using reply_completes [OF client chans waits idle _ ritem_def _ _ answer, where rest = rest' and name = name]
      rsp_fits rsp_frame by (simp add: rlast)
  with a1 dec show ?thesis
    by blast
qed

lemma invoke_begin_calls:
  assumes "invoke_begin E name ts vs c = (Inr (addr, tok, ch), c')"
  shows "call_begin E name (snd (encode_message (cereal E) ts vs)) (client_objects c addr)
    = (Inr (tok, ch), client_objects c' addr)"
  using assms by (auto simp: invoke_begin_def split_beta Let_def prod_eq_iff
      split: option.splits if_splits sum.splits prod.splits)

text \<open>
  C2: a remote call returns what the handler returned. A client invokes a method on its session; the
  frame it queues reaches the server, which accepts it (within size and rate limits), finds the
  method, authorises the peer and runs the handler on exactly the client's arguments; the reply the
  server queues, read by the client's session at any later moment at which the call still waits,
  makes the invocation return exactly the handler's result. Transport and channels are the
  library's, under their documented contracts; both hosts use the same byte order.
\<close>

theorem rpc_invoke_returns_handler_result:
  assumes client: "library_ok C cbuf copen c_in c_out"
    and chans: "fifo_channel (rc_ops C) rbuf ropen" "prompt_channel (rc_ops C) rbuf ropen"
    and server: "library_ok S sbuf sopen s_in s_out" and plat: "env_plat S = env_plat C"
    and call: "invoke_begin C name (arg_types (handler entry)) vs cl = (Inr (addr, tok, ch), cl1)"
    and item: "item = last (cbuf (write_channel (client_objects cl1 addr)))"
    and req_frame: "s_in (stream s) = frame_bytes (env_plat S) item @ rest" and req_fits: "fits (limits s) item"
    and not_limited: "fst (try_take 1 now (request_bucket s))"
    and read: "msg_reader_step S now s = (st, s1)"
    and entry: "um_find (dispatch_table (session_dispatcher S)) (shash64 (env_plat C) name) = Some entry"
    and auth: "authorised (session_dispatcher S) entry (request_ctx s) a"
    and args: "compatible (cereal C) (cereal S) (arg_types (handler entry)) vs"
    and ret: "ret_type (handler entry) = Some t" "compatible (cereal S) (cereal C) [t] [v]"
    and body: "the_call (handler entry) (Some (request_ctx s)) vs
                 (after_gate (session_dispatcher S) entry (request_ctx s) a) = (Inr v, acts, a')"
    and reply: "accepts S s2" "s3 = send_reply S h rsp s2" "run_handler S h b s1 a = (Replying h rsp, s1', a1)"
      "last (request_tasks s1) = Spawned h b"
    and ritem: "ritem = last (sbuf (write_channel s3))"
    and rsp_frame: "c_in (stream (client_objects cl2 addr)) = frame_bytes (env_plat C) ritem @ rest'"
    and rsp_fits: "fits (limits (client_objects cl2 addr)) ritem"
    and waits: "waiting_at tok ch (ch_make (rc_ops C) 1) (async_mgr (client_objects cl2 addr))"
    and answer: "msg_reader_step C now' (client_objects cl2 addr) = (st', c3)"
  shows "a1 = a' \<and> (\<exists>cl4. invoke_finish C name (Some t) False addr ch
      (cl2\<lparr>client_objects := (client_objects cl2)(addr := c3)\<rparr>) = Some (Inr (Some v), cl4))"
proof -
  obtain bytes c4 where "a1 = a'" "call_receive C name False ch c3 = Some (Inr bytes, c4)"
    "decode_message (cereal C) [t] bytes = (True, [v])"
    using session_call_roundtrip [OF client chans server plat refl invoke_begin_calls [OF call]
        req_frame [unfolded item] req_fits [unfolded item] not_limited read entry auth args ret body reply
        rsp_frame [unfolded ritem] rsp_fits [unfolded ritem] waits answer]
    by blast
  then show ?thesis
    by (simp add: invoke_finish_def decode_response_def)
qed

text \<open>One call of the sample method between a sample client and a sample server.\<close>

definition sample_server_dispatcher :: "(wire_value, nat) dispatcher" where
  "sample_server_dispatcher = attach_vis sample_platform ''triple'' public triple_call empty_dispatcher"

definition sample_request :: buffer_type where
  "sample_request = snd (encode_message le_env (arg_types triple_call) [WU64 7])"

definition sample_frame :: "msg_type \<Rightarrow> buffer_type \<Rightarrow> write_item" where
  "sample_frame mt body =
     \<lparr>wi_header = make_header mt (of_nat (length body)) (shash64 sample_platform ''triple'') 1, wi_body = body\<rparr>"

lemma sample_env_cereal [simp]: "cereal (sample_env d) = le_env"
  by (simp add: sample_env_def)

lemma sample_invoke:
  "\<exists>cl1. invoke_begin client_env ''triple'' (arg_types triple_call) [WU64 7] connected_client = (Inr (3, 1, 0), cl1)
     \<and> last (lc_buffered (write_channel (client_objects cl1 3))) = sample_frame request sample_request
     \<and> limits (client_objects cl1 3) = default_session_limits
     \<and> waiting_at 1 0 (ch_make list_channel_ops 1) (async_mgr (client_objects cl1 3))"
proof -
  let ?m0 = "make_async_manager (\<lambda>_. ([], 0, False)) :: op_result list_channel async_manager"
  obtain m where m: "create_operation list_channel_ops ?m0 = ((1, 0), m)"
    by (simp add: create_operation_eq make_async_manager_def)
  have w: "waiting_at 1 0 (ch_make list_channel_ops 1) m"
    by (rule created_waiting [OF make_async_manager_ok _ m]) (simp add: token_room_def make_async_manager_def)
  let ?c = "ch_make list_channel_ops 256 :: write_item list_channel"
  have wc: "ch_async_send list_channel_ops x ?c = (None, ([x], 256, True))" for x
    by (simp add: list_channel_ops_def)
  have E: "rc_ops client_env = list_channel_ops" "wc_ops client_env = list_channel_ops"
    by (simp_all add: client_env_def)
  have s0: "async_mgr (client_objects connected_client 3) = ?m0" "write_channel (client_objects connected_client 3) = ?c"
    "limits (client_objects connected_client 3) = default_session_limits"
    by (simp_all add: connected_client_fields setup_notification_handling_def set_notification_callback_def
        client_sess_def make_session_def E)
  have enc: "encode_message le_env (arg_types triple_call) [WU64 7] = (True, sample_request)"
    by (simp add: sample_request_def encode_message_def triple_call_def u64_ctype_def le_env_def)
  obtain c1 where c1: "call_begin client_env ''triple'' sample_request (client_objects connected_client 3) = (Inr (1, 0), c1)"
    "last (lc_buffered (write_channel c1)) = sample_frame request sample_request"
    "limits c1 = default_session_limits" "async_mgr c1 = m"
    by (simp add: call_begin_def queue_write_def Let_def sample_frame_def lc_buffered_def E s0 m wc)
  then show ?thesis
    using w by (simp add: invoke_begin_def connected_client_fields(1) ptr_load_def enc)
qed

lemma sample_request_length: "length sample_request = 9"
  by (simp add: sample_request_def encode_message_def triple_call_def u64_ctype_def le_env_def)

lemma sample_fits: "length body \<le> 9 \<Longrightarrow> mt \<in> {request, response} \<Longrightarrow> fits default_session_limits (sample_frame mt body)"
  by (auto simp: fits_def sample_frame_def good_item_def default_session_limits_def)

lemma sample_dispatch:
  "dispatch_sync le_env triple_call cur sample_request n =
     (Inr (snd (encode_message le_env [u64_ctype sample_platform sample_platform] [WU64 21])), [], Suc n)"
  using enc.decode_encode [OF sample_compatible, of 7]
  by (simp add: dispatch_sync_def sample_request_def triple_call_def encode_response_def)

definition sample_server_session :: sample_session where
  "sample_server_session = sample_session sample_server_dispatcher
     (frame_bytes sample_platform (sample_frame request sample_request))"

definition sample_entry :: "(wire_value, nat) method_entry" where
  "sample_entry = \<lparr>entry_name = ''triple'', vis = public, handler = triple_call\<rparr>"

definition sample_response :: buffer_type where
  "sample_response = snd (encode_message le_env [u64_ctype sample_platform sample_platform] [WU64 21])"

lemma sample_server_session_fields:
  "ms_incoming (stream sample_server_session) =
     frame_bytes (env_plat (sample_env sample_server_dispatcher)) (sample_frame request sample_request) @ []"
  "fits (limits sample_server_session) (sample_frame request sample_request)"
  "fst (try_take 1 5 (request_bucket sample_server_session))"
proof -
  have "limits sample_server_session = default_session_limits"
    by (simp add: sample_server_session_def sample_session_def make_session_def)
  then show "fits (limits sample_server_session) (sample_frame request sample_request)"
    by (simp add: sample_fits sample_request_length)
qed (simp_all add: sample_server_session_def ms_incoming_def sample_session_def make_session_def default_session_limits_def
    default_token_bucket_def try_take_def refill_def Let_def)

lemma sample_entry_found:
  "um_find (dispatch_table (session_dispatcher (sample_env sample_server_dispatcher))) (shash64 sample_platform ''triple'')
     = Some sample_entry"
  "authorised (session_dispatcher (sample_env sample_server_dispatcher)) sample_entry ctx 0"
  "after_gate (session_dispatcher (sample_env sample_server_dispatcher)) sample_entry ctx 0 = 0"
  by (simp_all add: sample_env_def sample_server_dispatcher_def attach_vis_def attach_impl_def authorised_def after_gate_def
      sample_entry_def)

lemma sample_served:
  assumes "msg_reader_step (sample_env sample_server_dispatcher) 5 sample_server_session = (st, s1)"
    and "h = wi_header (sample_frame request sample_request)"
  shows "last (request_tasks s1) = Spawned h sample_request"
    and "run_handler (sample_env sample_server_dispatcher) h sample_request s1 0
      = (Replying h (Some sample_response), fold apply_ctx_action [] s1, 1)"
    and "last (lc_buffered (write_channel (send_reply (sample_env sample_server_dispatcher) h (Some sample_response)
      (sample_session sample_server_dispatcher [])))) = sample_frame response sample_response"
proof -
  let ?S = "sample_env sample_server_dispatcher"
  show "last (request_tasks s1) = Spawned h sample_request"
    using read_request [OF sample_library_ok sample_frame_def sample_server_session_fields(2,1,3) assms(1)] assms(2) by simp
  show "run_handler ?S h sample_request s1 0 = (Replying h (Some sample_response), fold apply_ctx_action [] s1, 1)"
    using sample_entry_found sample_dispatch [of _ 0]
    by (intro run_handler_authorised [of ?S h sample_entry])
       (simp_all add: assms(2) sample_frame_def sample_response_def, simp add: sample_entry_def)
  show "last (lc_buffered (write_channel (send_reply ?S h (Some sample_response)
      (sample_session sample_server_dispatcher [])))) = sample_frame response sample_response"
    using respond_accepted [OF sample_library_ok sample_accepts [of sample_server_dispatcher "[]"], of response h sample_response]
    by (auto simp: send_reply_def reply_item_def sample_frame_def assms(2))
qed

theorem rpc_invoke_returns_handler_result_witness:
  "\<exists>cl1 cl2 cl4 c3 st. invoke_begin client_env ''triple'' (arg_types triple_call) [WU64 7] connected_client = (Inr (3, 1, 0), cl1)
     \<and> msg_reader_step client_env 6 (client_objects cl2 3) = (st, c3)
     \<and> invoke_finish client_env ''triple'' (Some (u64_ctype sample_platform sample_platform)) False 3 0
         (cl2\<lparr>client_objects := (client_objects cl2)(3 := c3)\<rparr>) = Some (Inr (Some (WU64 21)), cl4)"
proof -
  let ?S = "sample_env sample_server_dispatcher" and ?t = "u64_ctype sample_platform sample_platform"
  obtain cl1 where cl1: "invoke_begin client_env ''triple'' (arg_types (handler sample_entry)) [WU64 7] connected_client
      = (Inr (3, 1, 0), cl1)"
    "sample_frame request sample_request = last (lc_buffered (write_channel (client_objects cl1 3)))"
    "limits (client_objects cl1 3) = default_session_limits"
    "waiting_at 1 0 (ch_make list_channel_ops 1) (async_mgr (client_objects cl1 3))"
    using sample_invoke by (auto simp: sample_entry_def)
  have rc: "fifo_channel (rc_ops client_env) lc_buffered lc_open" "prompt_channel (rc_ops client_env) lc_buffered lc_open"
    by (simp_all add: client_env_def list_channel_fifo list_channel_prompt)
  obtain st s1 where read: "msg_reader_step ?S 5 sample_server_session = (st, s1)"
    by force
  define cl2 where "cl2 = cl1\<lparr>client_objects := (client_objects cl1)(3 := (client_objects cl1 3)\<lparr>stream :=
    (frame_bytes sample_platform (sample_frame response sample_response), [], True)\<rparr>)\<rparr>"
  have "length sample_response \<le> 9"
    by (simp add: sample_response_def encode_message_def u64_ctype_def le_env_def)
  then have c2: "ms_incoming (stream (client_objects cl2 3)) =
      frame_bytes (env_plat client_env) (sample_frame response sample_response) @ []"
    "fits (limits (client_objects cl2 3)) (sample_frame response sample_response)"
    "waiting_at 1 0 (ch_make (rc_ops client_env) 1) (async_mgr (client_objects cl2 3))"
    using cl1(3,4) by (simp_all add: cl2_def ms_incoming_def sample_fits client_env_def)
  obtain st' c3 where ans: "msg_reader_step client_env 6 (client_objects cl2 3) = (st', c3)"
    by force
  have entry: "um_find (dispatch_table (session_dispatcher ?S)) (shash64 (env_plat client_env) ''triple'') = Some sample_entry"
    and plat: "env_plat ?S = env_plat client_env"
    using sample_entry_found(1) by simp_all
  have args: "compatible (cereal client_env) (cereal ?S) (arg_types (handler sample_entry)) [WU64 7]"
    and ret: "ret_type (handler sample_entry) = Some ?t" "compatible (cereal ?S) (cereal client_env) [?t] [WU64 21]"
    by (simp_all add: sample_entry_def triple_call_def sample_compatible)
  have body: "the_call (handler sample_entry) (Some (request_ctx sample_server_session)) [WU64 7]
      (after_gate (session_dispatcher ?S) sample_entry (request_ctx sample_server_session) 0) = (Inr (WU64 21), [], 1)"
    unfolding sample_entry_found(3) by (simp add: sample_entry_def triple_call_def)
  from rpc_invoke_returns_handler_result [OF client_library_ok rc sample_library_ok plat cl1(1,2)
      sample_server_session_fields read entry sample_entry_found(2) args ret body sample_accepts refl
      sample_served(2,1) [OF read refl] sample_served(3) [OF read refl, symmetric] c2 ans]
  obtain cl4 where "invoke_finish client_env ''triple'' (Some ?t) False 3 0
      (cl2\<lparr>client_objects := (client_objects cl2)(3 := c3)\<rparr>) = Some (Inr (Some (WU64 21)), cl4)"
    by blast
  with cl1(1) ans show ?thesis
    by (auto simp: sample_entry_def)
qed

section \<open>A remote call between running sessions\<close>

definition calling_end :: "(mem_stream, write_item list_channel, op_result list_channel, nat) running" where
  "calling_end = \<lparr>ses = sample_session empty_dispatcher (frame_bytes sample_platform (sample_frame response sample_response)),
     app_state = 0, reader_on = True, writer_on = True\<rparr>"

definition serving_end :: "(mem_stream, write_item list_channel, op_result list_channel, nat) running" where
  "serving_end = \<lparr>ses = sample_server_session, app_state = 0, reader_on = True, writer_on = True\<rparr>"

lemma sample_fresh_end:
  "fresh_end (sample_env d) lc_buffered ms_outgoing
     \<lparr>ses = sample_session d' inp, app_state = 0, reader_on = True, writer_on = True\<rparr>"
  by (simp add: fresh_end_def sample_session_def make_session_def shut_ok_def wire_def make_async_manager_ok
      sample_env_def list_channel_ops_def lc_buffered_def ms_outgoing_def)

lemma sample_frame_bytes_length: "length (frame_bytes P (sample_frame mt body)) = 40 + length body"
  by (simp add: frame_bytes_def sample_frame_def)

lemma sample_response_length: "length sample_response = 9"
  by (simp add: sample_response_def encode_message_def u64_ctype_def le_env_def)

lemma serving_end_runs:
  obtains d' where "outcome_trace (sample_env sample_server_dispatcher) serving_end
      [((wi_header (sample_frame request sample_request), sample_request), Some sample_response)] d'"
    "writer_on d'"
    "wire (sample_env sample_server_dispatcher) lc_buffered ms_outgoing (ses d') =
       frame_bytes sample_platform (sample_frame response sample_response)"
proof -
  let ?S = "sample_env sample_server_dispatcher" and ?h = "wi_header (sample_frame request sample_request)"
  let ?c = "ch_make list_channel_ops 256 :: write_item list_channel"
  obtain st s1 where read: "msg_reader_step ?S 5 sample_server_session = (st, s1)"
    by force
  note r = read_request [OF sample_library_ok sample_frame_def sample_server_session_fields(2,1,3) read]
  have tasks: "request_tasks s1 = [Spawned ?h sample_request]"
    using r by (simp add: sample_server_session_def sample_session_def make_session_def)
  define d1 where "d1 = serving_end\<lparr>ses := s1, reader_on := True\<rparr>"
  have step: "session_step ?S serving_end d1"
    using session_step.Reader [of serving_end ?S 5 st s1] r read by (simp add: d1_def serving_end_def)
  have "outcome_trace ?S serving_end [] d1"
    by (rule outcome_trace.Other [OF outcome_trace.Start step])
      (simp add: handler_starts_def serving_end_def sample_server_session_def sample_session_def make_session_def)
  moreover define d2 where "d2 = d1\<lparr>ses := s1\<lparr>request_tasks := [Replying ?h (Some sample_response)]\<rparr>, app_state := 1\<rparr>"
  have run: "run_handler ?S ?h sample_request s1 0 = (Replying ?h (Some sample_response), s1, 1)"
    using sample_served(2) [OF read refl] by simp
  have "handler_outcome ?S d1 (?h, sample_request) (Some sample_response) d2"
    unfolding handler_outcome_def handler_starts_def
    by (intro conjI exI [of _ 0] exI [of _ "s1\<lparr>request_tasks := [Replying ?h (Some sample_response)]\<rparr>"] exI [of _ 1])
      (simp_all add: d1_def d2_def tasks serving_end_def request_task_step_def run)
  ultimately have two: "outcome_trace ?S serving_end [((?h, sample_request), Some sample_response)] d2"
    using outcome_trace.Handler by fastforce
  have wc: "write_channel s1 = ?c" "ms_outgoing (stream s1) = []"
    using r by (simp_all add: sample_server_session_def sample_session_def make_session_def sample_env_def ms_outgoing_def)
  define d3 where "d3 = d2\<lparr>ses := send_reply ?S ?h (Some sample_response) (s1\<lparr>request_tasks := []\<rparr>), app_state := 1\<rparr>"
  have "session_step ?S d2 d3"
    using session_step.Task [of 0 d2 ?S "send_reply ?S ?h (Some sample_response) (s1\<lparr>request_tasks := []\<rparr>)" 1]
    by (simp add: d2_def d3_def request_task_step_def remove_nth_def)
  then have "outcome_trace ?S serving_end [((?h, sample_request), Some sample_response)] d3"
    by (rule outcome_trace.Other [OF two]) (simp add: handler_starts_def d2_def)
  moreover have "accepts ?S (s1\<lparr>request_tasks := []\<rparr>)"
    by (simp add: accepts_def wc sample_env_def list_channel_ops_def)
  from respond_accepted [OF sample_library_ok this, of response ?h sample_response] wc
  have "wire ?S lc_buffered ms_outgoing (ses d3) = frame_bytes sample_platform (sample_frame response sample_response)"
    by (auto simp: d3_def send_reply_def wire_def reply_item_def sample_frame_def)
       (simp_all add: list_channel_ops_def lc_buffered_def)
  moreover have "writer_on d3"
    by (simp add: d1_def d2_def d3_def serving_end_def)
  ultimately show thesis
    by (intro that)
qed

lemma calling_end_runs:
  obtains s1 c' s' where "call_begin (sample_env empty_dispatcher) ''triple'' sample_request (ses calling_end) = (Inr (1, 0), s1)"
    "session_step (sample_env empty_dispatcher) (calling_end\<lparr>ses := s1\<rparr>) c'" "writer_on c'"
    "call_receive (sample_env empty_dispatcher) ''triple'' False 0 (ses c') = Some (Inr sample_response, s')"
    "wire (sample_env empty_dispatcher) lc_buffered ms_outgoing (ses c') =
       frame_bytes sample_platform (sample_frame request sample_request)"
proof -
  let ?E = "sample_env empty_dispatcher" and ?m0 = "make_async_manager (\<lambda>_. ([], 0, False)) :: op_result list_channel async_manager"
  let ?inp = "frame_bytes sample_platform (sample_frame response sample_response)"
  obtain m where m: "create_operation list_channel_ops ?m0 = ((1, 0), m)"
    by (simp add: create_operation_eq make_async_manager_def)
  have w: "waiting_at 1 0 (ch_make list_channel_ops 1) m"
    by (rule created_waiting [OF make_async_manager_ok _ m]) (simp add: token_room_def make_async_manager_def)
  define s1 where "s1 = (ses calling_end)\<lparr>async_mgr := m, write_channel := ([sample_frame request sample_request], 256, True)\<rparr>"
  have call: "call_begin ?E ''triple'' sample_request (ses calling_end) = (Inr (1, 0), s1)"
    using m by (simp add: call_begin_def queue_write_def Let_def sample_frame_def s1_def calling_end_def sample_session_def
        make_session_def sample_env_def le_env_def sample_platform_def list_channel_ops_def)
  have rc: "fifo_channel (rc_ops ?E) lc_buffered lc_open" "prompt_channel (rc_ops ?E) lc_buffered lc_open"
    by (simp_all add: sample_env_def list_channel_fifo list_channel_prompt)
  have fields: "limits s1 = default_session_limits" "ms_incoming (stream s1) = frame_bytes (env_plat ?E) (sample_frame response sample_response) @ []"
    "ms_outgoing (stream s1) = []"
    by (simp_all add: s1_def calling_end_def sample_session_def make_session_def ms_incoming_def ms_outgoing_def)
  have fits: "fits (limits s1) (sample_frame response sample_response)"
    by (simp add: fields sample_fits sample_response_length)
  obtain st s2 where read: "msg_reader_step ?E 5 s1 = (st, s2)"
    by force
  have waiting: "waiting_at 1 0 ([], 1, True) (async_mgr s1)"
    using w by (simp add: s1_def list_channel_ops_def)
  from reply_completes [OF sample_library_ok rc waiting _ _ _ sample_frame_def fits fields(2) read, of "''triple''"]
  obtain s' where "st = Continue" and recv: "call_receive ?E ''triple'' False 0 s2 = Some (Inr sample_response, s')"
    and same: "write_channel s2 = write_channel s1" "ms_outgoing (stream s2) = ms_outgoing (stream s1)"
    by (auto simp: lc_open_def lc_buffered_def)
  define c' where "c' = calling_end\<lparr>ses := s2, reader_on := True\<rparr>"
  have step: "session_step ?E (calling_end\<lparr>ses := s1\<rparr>) c'"
    using session_step.Reader [of "calling_end\<lparr>ses := s1\<rparr>" ?E 5 st s2] read \<open>st = Continue\<close>
    by (simp add: c'_def calling_end_def)
  have "wire ?E lc_buffered ms_outgoing s2 = frame_bytes sample_platform (sample_frame request sample_request)"
    by (simp add: wire_def same fields(3)) (simp add: s1_def lc_buffered_def)
  then show thesis
    using that [OF call step] recv by (simp add: c'_def calling_end_def)
qed

section \<open>A server with a session, end to end\<close>

lemma served_host:
  obtains h :: sample_hosting and d' where
    "(host_step Plain (sample_env sample_server_dispatcher) abcd_digest)\<^sup>*\<^sup>* (new_host (host_server sample_server_dispatcher) 0) h"
    "session_at 7 h = d'" "writer_on d'"
    "history h 7 = Some \<lparr>born = sample_server_session, certificate = None,
       runs = [((wi_header (sample_frame request sample_request), sample_request), Some sample_response)]\<rparr>"
    "wire (sample_env sample_server_dispatcher) lc_buffered ms_outgoing (ses d') =
       frame_bytes sample_platform (sample_frame response sample_response)"
proof -
  let ?D = sample_server_dispatcher
  let ?S = "sample_env ?D" and ?req = "frame_bytes sample_platform (sample_frame request sample_request)"
  have born: "hosted_session Plain ?D ?req None = sample_server_session"
    by (simp add: sample_server_session_def)
  obtain h :: sample_hosting where h: "(host_step Plain ?S abcd_digest)\<^sup>*\<^sup>* (new_host (host_server ?D) 0) h"
    "dispatching (srv h) = [7]" "server_dispatcher (srv h) = ?D" "session_at 7 h = serving_end"
    "history h 7 = Some \<lparr>born = sample_server_session, certificate = None, runs = []\<rparr>"
    by (rule sample_hosting [of Plain ?D ?req None, unfolded born serving_end_def [symmetric]])
  obtain d' where d: "outcome_trace ?S serving_end [((wi_header (sample_frame request sample_request), sample_request), Some sample_response)] d'"
    "writer_on d'" "wire ?S lc_buffered ms_outgoing (ses d') = frame_bytes sample_platform (sample_frame response sample_response)"
    by (rule serving_end_runs)
  have "served_env ?S (srv h) = ?S"
    by (simp add: served_env_def h(3) sample_env_def)
  then have "outcome_trace (served_env ?S (srv h)) (session_at 7 h)
      [((wi_header (sample_frame request sample_request), sample_request), Some sample_response)] d'"
    using d(1) h(4) by simp
  from hosted_if_alone [OF this _ h(5), of Plain abcd_digest] h(2) obtain h' where
    h': "(host_step Plain ?S abcd_digest)\<^sup>*\<^sup>* h h'" "session_at 7 h' = d'"
      "history h' 7 = Some \<lparr>born = sample_server_session, certificate = None,
         runs = [((wi_header (sample_frame request sample_request), sample_request), Some sample_response)]\<rparr>"
    by auto
  with h(1) d(2,3) show thesis
    by (intro that [of h' d']) auto
qed

lemma hex_abcd: "ssl_peer_fingerprint abcd_digest (Some ()) = ''abcd''"
  by (simp add: ssl_peer_fingerprint_def fingerprint_sha256_def abcd_digest_def kHex_def)

theorem sessions_never_mix_witness:
  "\<exists>(h :: sample_hosting) k. history h 7 = Some k \<and> length (runs k) = 1
     \<and> fst (runs k ! 0) \<in># invocations (max_message_bytes default_session_limits)
         (frames sample_platform (max_message_bytes default_session_limits) (frame_bytes sample_platform (sample_frame request sample_request)))"
proof -
  let ?D = sample_server_dispatcher
  obtain h :: sample_hosting and d' where h: "(host_step Plain (sample_env ?D) abcd_digest)\<^sup>*\<^sup>* (new_host (host_server ?D) 0) h"
    "history h 7 = Some \<lparr>born = sample_server_session, certificate = None,
       runs = [((wi_header (sample_frame request sample_request), sample_request), Some sample_response)]\<rparr>"
    by (rule served_host)
  have f: "limits sample_server_session = default_session_limits"
    "ms_incoming (stream sample_server_session) = frame_bytes sample_platform (sample_frame request sample_request)"
    by (simp_all add: sample_server_session_def sample_session_def make_session_def ms_incoming_def)
  have c: "closing_stream (st_ops (sample_env ?D))" "env_plat (sample_env ?D) = sample_platform"
    by (simp_all add: mem_stream_closing sample_env_def le_env_def sample_platform_def)
  let ?x = "(wi_header (sample_frame request sample_request), sample_request)"
    and ?k = "\<lparr>born = sample_server_session, certificate = None,
      runs = [((wi_header (sample_frame request sample_request), sample_request), Some sample_response)]\<rparr>"
  from sessions_never_mix [OF host_server_ready h sample_library_ok c(1) refl refl]
  have "{#?x#} + spawned_invocations (request_tasks (session_objects (srv h) 7))
      \<subseteq># invocations (max_message_bytes default_session_limits) (frames sample_platform (max_message_bytes default_session_limits)
          (frame_bytes sample_platform (sample_frame request sample_request)))"
    unfolding c(2) by (simp add: f)
  then have "?x \<in># invocations (max_message_bytes default_session_limits) (frames sample_platform (max_message_bytes default_session_limits)
          (frame_bytes sample_platform (sample_frame request sample_request)))"
    by (auto dest: mset_subset_eqD)
  with h(2) show ?thesis
    by (intro exI [of _ h] exI [of _ ?k]) simp
qed

theorem handlers_run_for_the_authenticated_peer_witness:
  "\<exists>(h :: sample_hosting) c. (host_step Tls (sample_env (sample_dispatcher admin)) abcd_digest)\<^sup>*\<^sup>*
        (new_host (host_server (sample_dispatcher admin)) 0) h
     \<and> handler_outcome (served_env (sample_env (sample_dispatcher admin)) (srv h)) (session_at 7 h)
         (wi_header (sample_frame request sample_request), sample_request) None c
     \<and> ctx_peer_fingerprint (request_ctx (session_objects (srv h) 7)) = ''abcd'' \<and> app_state c = host_app h"
proof -
  let ?D = "sample_dispatcher admin" and ?hdr = "wi_header (sample_frame request sample_request)"
  let ?E = "sample_env ?D" and ?inp = "frame_bytes sample_platform (sample_frame request sample_request)"
  let ?sess = "hosted_session Tls ?D ?inp (Some ())"
  obtain h :: sample_hosting where h: "(host_step Tls ?E abcd_digest)\<^sup>*\<^sup>* (new_host (host_server ?D) 0) h"
    "dispatching (srv h) = [7]" "server_dispatcher (srv h) = ?D"
    "session_at 7 h = \<lparr>ses = ?sess, app_state = 0, reader_on = True, writer_on = True\<rparr>"
    "history h 7 = Some \<lparr>born = ?sess, certificate = Some (), runs = []\<rparr>"
    by (rule sample_hosting)
  have env: "served_env ?E s = ?E" if "server_dispatcher s = ?D" for s :: sample_server
    by (simp add: served_env_def that sample_env_def)
  obtain st s1 where read: "msg_reader_step ?E 5 ?sess = (st, s1)"
    by force
  have plat: "env_plat ?E = sample_platform"
    by (simp add: sample_env_def le_env_def sample_platform_def)
  have sess: "limits ?sess = default_session_limits" "stream ?sess = (?inp, [], True)" "request_tasks ?sess = []"
    "request_bucket ?sess = request_bucket sample_server_session"
    by (simp_all add: sample_session_def make_session_def set_peer_fingerprint_def sample_server_session_def)
  have f: "ms_incoming (stream ?sess) = frame_bytes (env_plat ?E) (sample_frame request sample_request) @ []"
    "fits (limits ?sess) (sample_frame request sample_request)" "fst (try_take 1 5 (request_bucket ?sess))"
    "request_tasks ?sess = []"
    using sample_server_session_fields(3) unfolding sess plat
    by (simp_all add: ms_incoming_def sample_fits sample_request_length)
  note r = read_request [OF sample_library_ok sample_frame_def f(2,1,3) read]
  let ?c1 = "\<lparr>ses = s1, app_state = 0, reader_on = True, writer_on = True\<rparr>"
  have "session_step ?E (session_at 7 h) ?c1"
    using session_step.Reader [of "session_at 7 h" ?E 5 st s1] r read by (simp add: h(4))
  then have "outcome_trace (served_env ?E (srv h)) (session_at 7 h) [] ?c1"
    unfolding env [OF h(3)]
    by (rule outcome_trace.Other [OF outcome_trace.Start]) (simp add: handler_starts_def h(4) sess(3) del: hosted_session.simps)
  from hosted_if_alone [OF this _ h(5), of Tls abcd_digest] h(2) obtain h1 where h1: "(host_step Tls ?E abcd_digest)\<^sup>*\<^sup>* h h1"
    "session_at 7 h1 = ?c1" "history h1 7 = Some \<lparr>born = ?sess, certificate = Some (), runs = []\<rparr>"
    "server_dispatcher (srv h1) = ?D"
    using h(3) by auto
  have run: "(host_step Tls ?E abcd_digest)\<^sup>*\<^sup>* (new_host (host_server ?D) 0) h1"
    using h(1) h1(1) by simp
  obtain t s2 a2 where t: "run_handler (served_env ?E (srv h1)) ?hdr sample_request s1 0 = (t, s2, a2)"
    by (metis prod.exhaust)
  then obtain rsp where rsp: "t = Replying ?hdr rsp"
    by (rule run_handler_outcome) auto
  obtain s3 where task: "request_task_step (served_env ?E (srv h1)) 0 s1 0 = (s3, a2)"
    using t r f(4) by (simp add: request_task_step_def)
  have out: "handler_outcome (served_env ?E (srv h1)) (session_at 7 h1) (?hdr, sample_request) rsp (?c1\<lparr>ses := s3, app_state := a2\<rparr>)"
    using t rsp task r f(4) unfolding handler_outcome_def handler_starts_def h1(2) by simp
  have entry: "um_find (dispatch_table (server_dispatcher (host_server ?D))) (?hdr ! CALL_ID_IDX)
      = Some \<lparr>entry_name = ''triple'', vis = admin, handler = triple_call\<rparr>"
    using sample_dispatcher_find [of admin] by (simp add: host_server_fields sample_frame_def)
  from handlers_run_for_the_authenticated_peer [OF host_server_ready run h1(3) out entry refl refl refl]
  show ?thesis
    using run out by (auto simp: hex_abcd authorised_def after_gate_def host_server_fields sample_dispatcher_def
        set_auth_callback_def deny_all_def verdict_allows_def intro!: exI)
qed

theorem call_returns_its_handlers_result_witness:
  "\<exists>c' s' (h :: sample_hosting) k. (session_step (sample_env empty_dispatcher))\<^sup>*\<^sup>*
        (calling_end\<lparr>ses := snd (call_begin (sample_env empty_dispatcher) ''triple'' sample_request (ses calling_end))\<rparr>) c'
     \<and> call_receive (sample_env empty_dispatcher) ''triple'' False 0 (ses c') = Some (Inr sample_response, s')
     \<and> history h 7 = Some k
     \<and> (\<exists>i < length (runs k). runs k ! i =
          ((make_header request (of_nat (length sample_request)) (shash64 sample_platform ''triple'') 1, sample_request),
           Some sample_response))"
proof -
  let ?C = "sample_env empty_dispatcher" and ?D = sample_server_dispatcher
  let ?S = "sample_env ?D" and ?req = "frame_bytes sample_platform (sample_frame request sample_request)"
    and ?rsp = "frame_bytes sample_platform (sample_frame response sample_response)"
  obtain s1 c' s' where call: "call_begin ?C ''triple'' sample_request (ses calling_end) = (Inr (1, 0), s1)"
    and step: "session_step ?C (calling_end\<lparr>ses := s1\<rparr>) c'" and on: "writer_on c'"
    and recv: "call_receive ?C ''triple'' False 0 (ses c') = Some (Inr sample_response, s')"
    and cw: "wire ?C lc_buffered ms_outgoing (ses c') = ?req"
    by (rule calling_end_runs)
  obtain h :: sample_hosting and d' where h: "(host_step Plain ?S abcd_digest)\<^sup>*\<^sup>* (new_host (host_server ?D) 0) h"
    and view: "session_at 7 h = d'" and don: "writer_on d'"
    and k: "history h 7 = Some \<lparr>born = sample_server_session, certificate = None,
       runs = [((wi_header (sample_frame request sample_request), sample_request), Some sample_response)]\<rparr>"
    and dw: "wire ?S lc_buffered ms_outgoing (ses d') = ?rsp"
    by (rule served_host)
  have at: "session_objects (srv h) 7 = ses d'" "writers h 7"
    using view don by auto
  have run: "(session_step ?C)\<^sup>*\<^sup>* (calling_end\<lparr>ses := s1\<rparr>) c'"
    using step by (rule r_into_rtranclp)
  have closing: "closing_stream (st_ops (sample_env e))" and fifo: "fifo_channel (rc_ops ?C) lc_buffered lc_open" for e
    by (simp_all add: mem_stream_closing sample_env_def list_channel_fifo)
  have fresh: "fresh_end ?C lc_buffered ms_outgoing calling_end"
    unfolding calling_end_def by (rule sample_fresh_end)
  have room: "token_room (async_mgr (ses calling_end))"
    by (simp add: calling_end_def sample_session_def make_session_def make_async_manager_def token_room_def)
  let ?k = "\<lparr>born = sample_server_session, certificate = None,
       runs = [((wi_header (sample_frame request sample_request), sample_request), Some sample_response)]\<rparr>
     :: (mem_stream, write_item list_channel, op_result list_channel, nat, unit) session_history"
  have link: "ms_outgoing (stream (born ?k)) = []" "prefix (ms_incoming (stream (born ?k))) (wire ?C lc_buffered ms_outgoing (ses c'))"
    "prefix (ms_incoming (stream (ses calling_end))) (wire ?S lc_buffered ms_outgoing (session_objects (srv h) 7))"
    unfolding at cw dw
    by (simp_all add: sample_server_session_fields)
       (simp_all add: calling_end_def sample_server_session_def sample_session_def make_session_def ms_incoming_def ms_outgoing_def)
  have small: "length (wire ?C lc_buffered ms_outgoing (ses c')) < 2 ^ 64"
    "length (wire ?S lc_buffered ms_outgoing (session_objects (srv h) 7)) < 2 ^ 64"
    by (simp_all add: at cw dw sample_frame_bytes_length sample_request_length sample_response_length)
  have plat: "env_plat ?S = env_plat ?C"
    by simp
  note result = call_returns_its_handlers_result [OF sample_library_ok closing fifo fresh rtranclp.rtrancl_refl room call run on
      recv host_server_ready h k sample_library_ok closing at(2) plat link small]
  show ?thesis
    using result run recv k call by (intro exI [of _ c'] exI [of _ s'] exI [of _ h] exI [of _ ?k] conjI) auto
qed

section \<open>A notification, end to end\<close>

lemma try_notify_queues:
  assumes "library_ok S sbuf sopen s_in s_out" and "fst (try_notify S name buf sess)"
  shows "sbuf (write_channel (snd (try_notify S name buf sess))) =
    sbuf (write_channel sess) @ [notification_item 0 (shash64 (env_plat S) name, buf)]"
proof -
  let ?i = "notification_item 0 (shash64 (env_plat S) name, buf)"
  obtain ok c where send: "ch_try_send (wc_ops S) ?i (write_channel sess) = (ok, c)"
    by force
  then have "ok" "write_channel (snd (try_notify S name buf sess)) = c"
    using assms(2) by (auto simp: try_notify_def try_write_def notification_item_def Let_def split: prod.splits if_splits)
  with fifo_try_send [OF library_okD(1) [OF assms(1)] send] show ?thesis
    by simp
qed

text \<open>
  C19: a targeted notification reaches the handler. In any reachable state of a started server and of a
  client, when the server notifies a logical session id and the queue of that session takes the
  frame, that frame, once the client's session reads it, leaves the rest of the stream untouched and
  makes the strand run the handler the client registered for that name, once, on exactly the values
  the server passed; a session of the server with another id is left as it was.
\<close>

theorem server_notification_reaches_handler:
  assumes server: "A \<in> {tcp_accept_raw, ssl_accept_raw}" "sane_limits l"
      "(server_step A)\<^sup>*\<^sup>* (started l objs, a0) (sv, a)" "library_ok S sbuf sopen s_in s_out"
    and client: "(client_step C)\<^sup>*\<^sup>* (make_client cobjs, b0) (cl0, b)" "y \<in> set (dispatch_running cl0)"
      "library_ok C cbuf copen c_in c_out" "env_plat S = env_plat C" "compatible (cereal S) (cereal C) ts vs"
    and sent: "target \<noteq> []" "x \<in> set (active_sessions sv)" "logical_session_id (session_objects sv x) = target"
      "fst (try_notify S name (snd (encode_message (cereal S) ts vs)) (session_objects sv x))"
      "sv' = notify_session S target name ts vs sv" "item = last (sbuf (write_channel (session_objects sv' x)))"
    and arrived: "c_in (stream (client_objects cl0 y)) = frame_bytes (env_plat C) item @ rest"
      "fits (limits (client_objects cl0 y)) item" "notification_strand (client_objects cl0 y) = []"
    and read: "cl = register_notification_handler C name ts h cl0"
      "msg_reader_step C now (client_objects cl y) = (st, sess)" "cl1 = cl\<lparr>client_objects := (client_objects cl)(y := sess)\<rparr>"
  shows "st = Continue \<and> c_in (stream sess) = rest
    \<and> (\<exists>cl2. client_notification_step C y cl1 b = (cl2, snd (h vs b)) \<and> notification_strand (client_objects cl2 y) = [])
    \<and> (\<forall>z. logical_session_id (session_objects sv z) \<noteq> target \<longrightarrow> session_objects sv' z = session_objects sv z)"
proof -
  let ?buf = "snd (encode_message (cereal S) ts vs)" and ?i = "shash64 (env_plat C) name"
  note at = notify_session_at [OF reachable_server_ok [OF server(1-3)] sent(1), of S name ts vs, folded sent(5)]
  have item: "item = notification_item 0 (?i, ?buf)"
    using at [of x] try_notify_queues [OF server(4) sent(4)] sent(2,3,6) client(4) by simp
  have cl: "client_objects cl = client_objects cl0" "dispatch_running cl = dispatch_running cl0"
    "um_find (notification_handlers cl) ?i = Some (notification_wrapper (cereal C) ts h)"
    by (simp_all add: read(1) register_notification_handler_def)
  have cl_ok: "client_ok cl"
    unfolding read(1) by (rule register_keeps_ok [OF reachable_client_ok [OF client(1)]])
  obtain str where str: "c_in str = rest" "msg_reader_step C now (client_objects cl0 y) =
      (Continue, (client_objects cl0 y)\<lparr>stream := str, notification_strand := notification_strand (client_objects cl0 y) @ [(?i, ?buf)]\<rparr>)"
    using read_notification [OF client(3), of "client_objects cl0 y" 0 "(?i, ?buf)" rest now] arrived(1,2) item by blast
  then have sess: "st = Continue" "sess = (client_objects cl0 y)\<lparr>stream := str, notification_strand := [(?i, ?buf)]\<rparr>"
    using read(2) arrived(3) by (simp_all add: cl(1))
  have "client_ok cl1"
    unfolding read(3) using cl_ok client(2) by (auto simp: client_ok_def sess cl)
  then have "client_notification_step C y cl1 b =
      (cl1\<lparr>client_objects := (client_objects cl1)(y := (client_objects cl1 y)\<lparr>notification_strand := []\<rparr>)\<rparr>, snd (h vs b))"
    using notification_step_runs_handler [OF _ _ client(5), of cl1 y ?i h "[]" b] client(2) cl(2,3) by (simp add: read(3) sess(2))
  then show ?thesis
    using sess(1) str(1) at by (simp add: sess(2))
qed

definition sample_note :: buffer_type where
  "sample_note = snd (encode_message le_env [u64_ctype sample_platform sample_platform] [WU64 7])"

definition sample_note_item :: write_item where
  "sample_note_item = notification_item 0 (shash64 sample_platform ''n'', sample_note)"

definition listening_client :: sample_client where
  "listening_client = connected_client\<lparr>client_objects := (client_objects connected_client)(3 :=
     (client_objects connected_client 3)\<lparr>stream := (frame_bytes sample_platform sample_note_item, [], True)\<rparr>)\<rparr>"

lemma listening_client_reachable:
  "(client_step client_env)\<^sup>*\<^sup>* (make_client (\<lambda>_. client_sess), 0) (listening_client, 0)"
proof -
  have "client_step client_env (connected_client, 0) (listening_client, 0)"
    unfolding listening_client_def by (rule client_step.Sessions_run) simp
  with connected_client_reachable show ?thesis
    by (rule rtranclp.rtrancl_into_rtrancl)
qed

lemma listening_client_fields:
  "3 \<in> set (dispatch_running listening_client)" "notification_strand (client_objects listening_client 3) = []"
  "ms_incoming (stream (client_objects listening_client 3)) = frame_bytes (env_plat client_env) sample_note_item @ []"
  "limits (client_objects listening_client 3) = default_session_limits"
  by (simp_all add: listening_client_def connected_client_fields ms_incoming_def setup_notification_handling_def
      set_notification_callback_def client_sess_def make_session_def)

lemma sample_note_fits: "fits default_session_limits sample_note_item"
  by (simp add: fits_def good_item_def sample_note_item_def notification_item_def default_session_limits_def
      sample_note_def encode_message_def u64_ctype_def le_env_def)

lemma tenant_room:
  "try_notify (sample_env empty_dispatcher) ''n'' sample_note tenant_session =
     (True, tenant_session\<lparr>write_channel := ([sample_note_item], 256, True)\<rparr>)"
  by (simp add: try_notify_def try_write_def tenant_session_def sample_session_def make_session_def sample_env_def
      list_channel_ops_def sample_note_item_def notification_item_def le_env_def sample_platform_def)

theorem server_notification_reaches_handler_witness:
  "\<exists>st sess. msg_reader_step client_env 6 (client_objects listening_client 3) = (st, sess)
    \<and> snd (client_notification_step client_env 3 ((register_notification_handler client_env ''n''
         [u64_ctype sample_platform sample_platform] (\<lambda>vs n. (Inr (), n + length vs)) listening_client)
         \<lparr>client_objects := (client_objects listening_client)(3 := sess)\<rparr>) 0) = 1"
proof -
  let ?S = "sample_env empty_dispatcher" and ?ts = "[u64_ctype sample_platform sample_platform]" and ?h = "\<lambda>vs n. (Inr (), n + length vs)"
  let ?cl = "register_notification_handler client_env ''n'' ?ts ?h listening_client"
  have objs: "client_objects ?cl = client_objects listening_client"
    by (simp add: register_notification_handler_def)
  obtain st sess where read: "msg_reader_step client_env 6 (client_objects ?cl 3) = (st, sess)"
    by force
  have plat: "env_plat ?S = env_plat client_env" and t: "(''t'' :: string) \<noteq> []"
    and comp: "compatible (cereal ?S) (cereal client_env) ?ts [WU64 7]"
    by (simp_all add: sample_env_def sample_compatible)
  have to: "7 \<in> set (active_sessions sample_serving)" "logical_session_id (session_objects sample_serving 7) = ''t''"
    by (simp_all add: sample_serving_fields tenant_session_def)
  have room: "fst (try_notify ?S ''n'' (snd (encode_message (cereal ?S) ?ts [WU64 7])) (session_objects sample_serving 7))"
    using tenant_room by (simp add: sample_serving_fields sample_note_def sample_env_def)
  have item: "sample_note_item = last (lc_buffered (write_channel (session_objects (notify_session ?S ''t'' ''n'' ?ts [WU64 7] sample_serving) 7)))"
    using tenant_room notify_session_at [OF reachable_server_ok [OF _ sane_tight sample_serving_reachable] t, of ?S "''n''" ?ts "[WU64 7]" 7] to
    by (simp add: sample_serving_fields sample_note_def lc_buffered_def sample_env_def)
  have fit: "fits (limits (client_objects listening_client 3)) sample_note_item"
    by (simp add: listening_client_fields sample_note_fits)
  from server_notification_reaches_handler [OF _ sane_tight sample_serving_reachable sample_library_ok listening_client_reachable
      listening_client_fields(1) client_library_ok plat comp t to room refl item listening_client_fields(3) fit
      listening_client_fields(2) refl read refl]
  show ?thesis
    using read by (auto simp: objs)
qed

end
